(* ===== verification/Tsa_Prelude.thy ===== *)
theory Tsa_Prelude
  imports Main "HOL-Library.Word"
begin

text \<open>
  Names and facts shared by the component theories: the C integer types as
  words, byte buffers and the bits they hold, big-endian fields, results of
  operations that may leave their buffers, and the collections of rewrite
  rules that the component proofs use.
\<close>

unbundle bit_operations_syntax

section \<open>C integer types\<close>

type_synonym u8 = "8 word"
type_synonym u16 = "16 word"
type_synonym u32 = "32 word"
type_synonym u64 = "64 word"

text \<open>A byte buffer: the bytes the C pointer may legally reach.\<close>

type_synonym bytes = "u8 list"

named_theorems tsa_simps \<open>unfolding of small helper operations\<close>
named_theorems tsa_inv \<open>preservation of component invariants\<close>

section \<open>Bit strings\<close>

text \<open>The value of a bit string, most significant bit first.\<close>

definition bits_val :: "bool list \<Rightarrow> nat" where
  "bits_val bs = foldl (\<lambda>a b. 2 * a + of_bool b) 0 bs"

text \<open>The \<open>n\<close> low bits of a word, most significant first.\<close>

definition low_bits :: "nat \<Rightarrow> 'a::len word \<Rightarrow> bool list" where
  "low_bits n w = map (bit w) (rev [0..<n])"

definition byte_bits :: "u8 \<Rightarrow> bool list" where
  "byte_bits b = low_bits 8 b"

definition buf_bits :: "bytes \<Rightarrow> bool list" where
  "buf_bits bs = concat (map byte_bits bs)"

lemma bits_val_acc: "foldl (\<lambda>a b. 2 * a + of_bool b) a bs = a * 2 ^ length bs + bits_val bs"
proof (induction bs arbitrary: a)
  case Nil
  show ?case by (simp add: bits_val_def)
next
  case (Cons b bs)
  have "bits_val (b # bs) = of_bool b * 2 ^ length bs + bits_val bs"
    unfolding bits_val_def foldl_Cons using Cons.IH [of "of_bool b"]
    by (simp add: bits_val_def)
  with Cons.IH [of "2 * a + of_bool b"] show ?case by (simp add: algebra_simps)
qed

lemma bits_val_Nil [simp]: "bits_val [] = 0"
  by (simp add: bits_val_def)

lemma bits_val_Cons [simp]: "bits_val (b # bs) = of_bool b * 2 ^ length bs + bits_val bs"
  using bits_val_acc [of "of_bool b" bs] by (simp add: bits_val_def)

lemma bits_val_append [simp]: "bits_val (as @ bs) = bits_val as * 2 ^ length bs + bits_val bs"
  by (induction as) (simp_all add: algebra_simps power_add)

lemma bits_val_less: "bits_val bs < 2 ^ length bs"
  by (induction bs) auto

lemma length_low_bits [simp]: "length (low_bits n w) = n"
  by (simp add: low_bits_def)

lemma nth_low_bits [simp]: "i < n \<Longrightarrow> low_bits n w ! i = bit w (n - 1 - i)"
  by (simp add: low_bits_def rev_nth)

lemma low_bits_0 [simp]: "low_bits 0 w = []"
  by (simp add: low_bits_def)

lemma low_bits_Suc: "low_bits (Suc n) w = bit w n # low_bits n w"
  by (simp add: low_bits_def)

lemma bits_val_low_bits: "bits_val (low_bits n w) = unat (take_bit n w)"
proof (induction n)
  case 0
  show ?case by simp
next
  case (Suc n)
  have "unat (take_bit (Suc n) w) = take_bit (Suc n) (unat w)"
    by (simp add: unsigned_take_bit_eq)
  also have "\<dots> = of_bool (bit (unat w) n) * 2 ^ n + take_bit n (unat w)"
    by (simp add: take_bit_Suc_from_most)
  also have "bit (unat w) n = bit w n"
    by (simp add: bit_unsigned_iff bit_imp_le_length)
  finally show ?case using Suc by (simp add: low_bits_Suc unsigned_take_bit_eq)
qed

lemma length_byte_bits [simp]: "length (byte_bits b) = 8"
  by (simp add: byte_bits_def)

lemma byte_bits_list:
  "byte_bits b = [bit b 7, bit b 6, bit b 5, bit b 4, bit b 3, bit b 2, bit b 1, bit b 0]"
  by (rule nth_equalityI) (auto simp: byte_bits_def less_Suc_eq numeral_eq_Suc)

lemma buf_bits_Nil [simp]: "buf_bits [] = []"
  by (simp add: buf_bits_def)

lemma buf_bits_Cons [simp]: "buf_bits (b # bs) = byte_bits b @ buf_bits bs"
  by (simp add: buf_bits_def)

lemma buf_bits_append [simp]: "buf_bits (xs @ ys) = buf_bits xs @ buf_bits ys"
  by (simp add: buf_bits_def)

lemma length_buf_bits [simp]: "length (buf_bits bs) = 8 * length bs"
  by (induction bs) simp_all

section \<open>Words as numbers\<close>

lemma sint_small: "uint w < 2 ^ (LENGTH('a) - 1) \<Longrightarrow> sint w = uint (w :: 'a::len word)"
  using uint_ge_0 [of w] by (simp add: sint_uint signed_take_bit_int_eq_self_iff order_trans [of _ 0])

lemma unat_of_nat_small: "n < 2 ^ LENGTH('a) \<Longrightarrow> unat (of_nat n :: 'a::len word) = n"
  by (simp add: unsigned_of_nat take_bit_nat_eq_self)

lemma uint_of_nat_small: "n < 2 ^ LENGTH('a) \<Longrightarrow> uint (of_nat n :: 'a::len word) = int n"
  by (metis uint_nat unat_of_nat_small)

lemma unat_less_uint: "(uint w < numeral n) = (unat w < numeral n)" for w :: "'a::len word"
  by (simp only: unat_eq_nat_uint nat_less_iff [OF uint_ge_0] of_nat_numeral)

lemma unat_take_bit_less: "unat (take_bit n w :: 'a::len word) < 2 ^ n"
  by (simp only: unsigned_take_bit_eq take_bit_nat_less_exp)

lemma xor_cancel_right: "a XOR k = c XOR k \<Longrightarrow> a = c" for a c k :: "'a::len word"
proof -
  assume "a XOR k = c XOR k"
  then have "(a XOR k) XOR k = (c XOR k) XOR k" by simp
  then show "a = c" by (simp add: xor.assoc)
qed

text \<open>The word a bit string spells: concatenation is shift and \<open>OR\<close>.\<close>

definition bits_word :: "bool list \<Rightarrow> 'a::len word" where
  "bits_word bs = of_nat (bits_val bs)"

lemma bits_word_append:
  "bits_word (xs @ ys) = push_bit (length ys) (bits_word xs) OR (bits_word ys :: 'a::len word)"
proof -
  have low: "bit (of_nat (bits_val ys) :: 'a word) i \<Longrightarrow> i < length ys" for i
  proof -
    assume "bit (of_nat (bits_val ys) :: 'a word) i"
    then have "bit (bits_val ys) i" by (simp add: bit_of_nat_iff)
    then show "i < length ys"
      by (metis bits_val_less bit_take_bit_iff take_bit_nat_eq_self)
  qed
  have "bits_word (xs @ ys) = push_bit (length ys) (bits_word xs) + (bits_word ys :: 'a word)"
    by (simp add: bits_word_def push_bit_eq_mult)
  also have "\<dots> = push_bit (length ys) (bits_word xs) OR bits_word ys"
    by (rule disjunctive_add) (use low in \<open>auto simp: bits_word_def bit_push_bit_iff not_le\<close>)
  finally show ?thesis .
qed

lemma bits_word_low_bits: "bits_word (low_bits n (w :: 'b::len word)) = (ucast (take_bit n w) :: 'a::len word)"
  by (simp add: bits_word_def bits_val_low_bits)

lemma bits_word_byte: "bits_word (byte_bits b) = (ucast b :: 'a::len word)"
  by (simp add: byte_bits_def bits_word_low_bits take_bit_word_eq_self)

lemma unat_bits_word: "length bs \<le> LENGTH('a) \<Longrightarrow> unat (bits_word bs :: 'a::len word) = bits_val bs"
  by (metis bits_val_less bits_word_def less_le_trans one_le_numeral power_increasing unat_of_nat_small)

lemma bit_bits_val: "bit (bits_val bs) i \<longleftrightarrow> i < length bs \<and> bs ! (length bs - 1 - i)"
proof (induction bs arbitrary: i rule: rev_induct)
  case Nil
  show ?case by simp
next
  case (snoc b bs)
  have d: "(bits_val bs * 2 + of_bool b) div 2 = bits_val bs" by simp
  show ?case
    by (cases i) (auto simp: bit_0 bit_Suc d snoc.IH nth_append)
qed

lemma low_bits_bits_word:
  "length bs \<le> LENGTH('a) \<Longrightarrow> low_bits (length bs) (bits_word bs :: 'a::len word) = bs"
  by (intro nth_equalityI) (auto simp: bits_word_def bit_of_nat_iff bit_bits_val)

lemma take_byte_bits: "n \<le> 8 \<Longrightarrow> take n (byte_bits b) = low_bits n (drop_bit (8 - n) b)"
  by (intro nth_equalityI) (auto simp: byte_bits_def bit_drop_bit_eq algebra_simps)

lemma drop_byte_bits: "n \<le> 8 \<Longrightarrow> drop n (byte_bits b) = low_bits (8 - n) b"
  by (intro nth_equalityI) (auto simp: byte_bits_def algebra_simps)

lemma bits_word_high: "n \<le> 8 \<Longrightarrow> bits_word (take n (byte_bits b)) = (ucast (drop_bit (8 - n) b) :: 'a::len word)"
proof -
  assume n: "n \<le> 8"
  have "take_bit n (drop_bit (8 - n) b) = drop_bit (8 - n) b"
    by (rule bit_word_eqI) (use n in \<open>auto simp: bit_take_bit_iff bit_drop_bit_eq dest: bit_imp_le_length\<close>)
  with n show ?thesis by (simp add: take_byte_bits bits_word_low_bits)
qed

lemma field_shift:
  "push_bit m (ucast (b AND push_bit k (mask n))) = (push_bit (m + k) (ucast (take_bit n (drop_bit k b))) :: 'a::len word)"
  for b :: "'b::len word"
proof (rule bit_word_eqI)
  fix i assume i: "i < LENGTH('a)"
  show "bit (push_bit m (ucast (b AND push_bit k (mask n))) :: 'a word) i =
        bit (push_bit (m + k) (ucast (take_bit n (drop_bit k b))) :: 'a word) i"
  proof (cases "m + k \<le> i")
    case True
    then have "i - m = k + (i - (m + k))" by simp
    with True i show ?thesis
      by (auto simp: bit_push_bit_iff bit_ucast_iff bit_and_iff bit_mask_iff bit_take_bit_iff bit_drop_bit_eq
          dest: bit_imp_le_length)
  next
    case False
    then show ?thesis
      by (auto simp: bit_push_bit_iff bit_ucast_iff bit_and_iff)
  qed
qed

lemma low_mid_bits: "i + n \<le> 8 \<Longrightarrow> take n (drop i (byte_bits b)) = low_bits n (drop_bit (8 - i - n) b)"
  by (intro nth_equalityI) (auto simp: byte_bits_def bit_drop_bit_eq intro!: arg_cong [where f = "bit b"])

end
