(* ===== verification/Crc32.thy ===== *)
theory Crc32
  imports Tsa_Prelude
begin

text \<open>
  The MPEG-2 section CRC: the bitwise form of \<open>tsa_utils.c\<close>, which the
  analyser uses, and the table-driven form of the stream generator
  \<open>tools/tsa_generator.c\<close>.
\<close>

section \<open>The bitwise CRC\<close>

text \<open>One round of the inner loop, for bit \<open>7 - j\<close> of the byte \<open>d\<close>.\<close>

definition crc32_round :: "u8 \<Rightarrow> u32 \<Rightarrow> nat \<Rightarrow> u32" where
  "crc32_round d crc j = (let
      msb = drop_bit 31 crc AND 1;
      b = ucast (drop_bit (7 - j) d AND 1);
      crc = push_bit 1 crc
    in if msb XOR b \<noteq> 0 then crc XOR 0x04c11db7 else crc)"

definition crc32_byte :: "u32 \<Rightarrow> u8 \<Rightarrow> u32" where
  "crc32_byte crc d = foldl (crc32_round d) crc [0..<8]"

definition mpegts_crc32 :: "bytes \<Rightarrow> nat \<Rightarrow> u32" where
  "mpegts_crc32 d l = foldl (\<lambda>crc i. crc32_byte crc (d ! i)) 0xffffffff [0..<l]"

definition tsa_crc32_check :: "bytes \<Rightarrow> nat \<Rightarrow> u32" where
  "tsa_crc32_check data len = mpegts_crc32 data len"

section \<open>The table-driven CRC\<close>

definition init_crc32_entry :: "nat \<Rightarrow> u32" where
  "init_crc32_entry i = foldl (\<lambda>crc _. push_bit 1 crc XOR (if crc AND 0x80000000 \<noteq> 0 then 0x04C11DB7 else 0))
     (push_bit 24 (of_nat i)) [0..<8::nat]"

definition init_crc32 :: "u32 list" where
  "init_crc32 = map init_crc32_entry [0..<256]"

definition get_crc32 :: "u32 list \<Rightarrow> bytes \<Rightarrow> nat \<Rightarrow> u32" where
  "get_crc32 table d len = foldl (\<lambda>crc i.
      push_bit 8 crc XOR table ! unat ((drop_bit 24 crc XOR ucast (d ! i)) AND 0xFF)) 0xFFFFFFFF [0..<len]"

section \<open>The CRC as a linear map on bit strings\<close>

definition crc_poly :: u32 where
  "crc_poly = 0x04c11db7"

definition crc_step :: "u32 \<Rightarrow> bool \<Rightarrow> u32" where
  "crc_step c b = push_bit 1 c XOR (if bit c 31 \<noteq> b then crc_poly else 0)"

definition crc_bits :: "u32 \<Rightarrow> bool list \<Rightarrow> u32" where
  "crc_bits c bs = foldl crc_step c bs"

lemma crc_bits_Nil [simp]: "crc_bits c [] = c"
  by (simp add: crc_bits_def)

lemma crc_bits_Cons [simp]: "crc_bits c (b # bs) = crc_bits (crc_step c b) bs"
  by (simp add: crc_bits_def)

lemma crc_bits_append: "crc_bits c (xs @ ys) = crc_bits (crc_bits c xs) ys"
  by (simp add: crc_bits_def)

lemma and_1_of_bool: "drop_bit n w AND 1 = of_bool (bit w n)" for w :: "'a::len word"
  by (simp add: bit_iff_odd_drop_bit and_one_eq mod_2_eq_odd)

lemma xor_of_bool_neq: "of_bool a XOR of_bool b \<noteq> (0 :: 'a::len word) \<longleftrightarrow> a \<noteq> b"
  by (cases a; cases b) simp_all

lemma crc32_round_step: "crc32_round d c j = crc_step c (bit d (7 - j))"
proof -
  have "ucast (of_bool b :: u8) = (of_bool b :: u32)" for b by simp
  then show ?thesis
    by (simp only: crc32_round_def Let_def and_1_of_bool xor_of_bool_neq crc_step_def crc_poly_def) simp
qed

lemma crc32_byte_bits: "crc32_byte c d = crc_bits c (byte_bits d)"
  by (simp add: crc32_byte_def crc32_round_step byte_bits_list upt_rec)

lemma mpegts_crc32_bits: "l \<le> length d \<Longrightarrow> mpegts_crc32 d l = crc_bits (- 1) (buf_bits (take l d))"
proof (induction l)
  case 0
  show ?case by (simp add: mpegts_crc32_def)
next
  case (Suc l)
  then have "buf_bits (take (Suc l) d) = buf_bits (take l d) @ byte_bits (d ! l)"
    by (simp add: take_Suc_conv_app_nth buf_bits_def)
  moreover have "mpegts_crc32 d (Suc l) = crc32_byte (mpegts_crc32 d l) (d ! l)"
    by (simp add: mpegts_crc32_def)
  ultimately show ?case using Suc by (simp add: crc32_byte_bits crc_bits_append)
qed

lemma push_bit_xor_word: "push_bit n (a XOR b) = push_bit n a XOR push_bit n b" for a b :: "'a::len word"
  by (rule bit_word_eqI) (auto simp: bit_push_bit_iff bit_xor_iff)

lemma crc_step_xor: "crc_step (a XOR c) (x = (\<not> y)) = crc_step a x XOR crc_step c y"
  by (auto simp: crc_step_def push_bit_xor_word bit_xor_iff xor.assoc xor.left_commute xor.commute)

lemma crc_bits_xor:
  "length xs = length ys \<Longrightarrow> crc_bits (a XOR c) (map2 (\<noteq>) xs ys) = crc_bits a xs XOR crc_bits c ys"
  by (induction xs ys arbitrary: a c rule: list_induct2) (simp_all add: crc_step_xor)

text \<open>Feeding a state its own bits shifts it out.\<close>

lemma crc_bits_self: "n \<le> 32 \<Longrightarrow> crc_bits c (map (bit c) (rev [32 - n..<32])) = push_bit n c"
proof (induction n)
  case 0
  show ?case by simp
next
  case (Suc n)
  then have "Suc (31 - n) = 32 - n" by simp
  with Suc.prems have "map (bit c) (rev [32 - Suc n..<32]) = map (bit c) (rev [32 - n..<32]) @ [bit c (32 - Suc n)]"
    by (simp add: upt_conv_Cons)
  moreover have "bit (push_bit n c) 31 = bit c (32 - Suc n)"
    using Suc.prems by (simp add: bit_push_bit_iff)
  ultimately show ?case
    using Suc by (simp add: crc_bits_append crc_step_def push_bit_push_bit)
qed

lemma crc_bits_residue: "crc_bits c (low_bits 32 c) = 0"
proof -
  have "push_bit 32 c = 0" by (rule bit_word_eqI) (simp add: bit_push_bit_iff)
  then show ?thesis using crc_bits_self [of 32 c] by (simp add: low_bits_def)
qed

text \<open>A step is injective in the state, and so is a run over any bit string.\<close>

lemma crc_step_inj: "crc_step a x = crc_step c x \<Longrightarrow> a = c"
proof -
  assume e: "crc_step a x = crc_step c x"
  have b0: "bit (crc_step w x) 0 = (bit w 31 \<noteq> x)" for w
    by (simp add: crc_step_def crc_poly_def bit_0 even_xor_iff)
  with e have m: "bit a 31 = bit c 31" by metis
  with e have p: "push_bit 1 a = push_bit 1 c"
    unfolding crc_step_def by (simp only: m) (rule xor_cancel_right)
  show "a = c"
  proof (rule bit_word_eqI)
    fix n assume "n < LENGTH(32)"
    then show "bit a n = bit c n"
      using m arg_cong [OF p, of "\<lambda>w. bit w (Suc n)"] unfolding bit_push_bit_iff
      by (cases "n = 31") simp_all
  qed
qed

lemma crc_bits_inj: "crc_bits a xs = crc_bits c xs \<Longrightarrow> a = c"
  by (induction xs arbitrary: a c) (auto dest: crc_step_inj)

lemma crc_bits_zeros: "crc_bits 0 (replicate n False) = 0"
  by (induction n) (simp_all add: crc_step_def)

text \<open>Up to 32 bits from the zero state are never absorbed, unless all are zero.\<close>

lemma crc_short_nonzero: "length e \<le> 32 \<Longrightarrow> crc_bits 0 e = 0 \<Longrightarrow> True \<notin> set e"
proof -
  assume l: "length e \<le> 32" and z: "crc_bits 0 e = 0"
  define f where "f = replicate (32 - length e) False @ e"
  define w :: u32 where "w = bits_word f"
  have "low_bits 32 w = f"
    using low_bits_bits_word [of f, where 'a = 32] l by (simp add: f_def w_def)
  moreover have "crc_bits 0 f = 0"
    using z by (simp add: f_def crc_bits_append crc_bits_zeros)
  ultimately have "w = 0" "low_bits 32 w = f"
    using crc_bits_inj [of w f 0] crc_bits_residue [of w] by simp_all
  then have "True \<notin> set f" by (auto simp: low_bits_def)
  then show "True \<notin> set e" by (simp add: f_def)
qed

lemma crc_burst:
  assumes "length e \<le> 32" "True \<in> set e"
  shows "crc_bits 0 (replicate i False @ e @ replicate k False) \<noteq> 0"
  using crc_short_nonzero [OF assms(1)] assms(2) crc_bits_inj [of "crc_bits 0 e" "replicate k False" 0]
  by (auto simp: crc_bits_append crc_bits_zeros)

lemma crc_detects:
  assumes "length xs = length ys" "map2 (\<noteq>) xs ys = replicate i False @ e @ replicate k False"
    "length e \<le> 32" "True \<in> set e"
  shows "crc_bits c xs \<noteq> crc_bits c ys"
  using crc_bits_xor [OF assms(1), of c c] crc_burst [OF assms(3,4), of i k] assms(2) by auto


section \<open>The table-driven form\<close>

lemma crc_entry_bits: "init_crc32_entry i = crc_bits (push_bit 24 (of_nat i)) (replicate 8 False)"
proof -
  have "push_bit 1 crc XOR (if crc AND 0x80000000 \<noteq> 0 then 0x04C11DB7 else 0) = crc_step crc False" for crc :: u32
    using and_exp_eq_0_iff_not_bit [of crc 31] by (simp add: crc_step_def crc_poly_def)
  then show ?thesis by (simp add: init_crc32_entry_def upt_rec numeral_eq_Suc)
qed

lemma crc_bits_zeros_xor: "crc_bits (a XOR c) (replicate n False) = crc_bits a (replicate n False) XOR crc_bits c (replicate n False)"
  using crc_bits_xor [of "replicate n False" "replicate n False" a c] by (simp add: map2_map_map)

lemma crc_bits_byte: "crc_bits c (byte_bits b) = crc_bits (c XOR push_bit 24 (ucast b)) (replicate 8 False)"
proof -
  let ?B = "push_bit 24 (ucast b) :: u32"
  have "byte_bits b = map (bit ?B) (rev [24..<32])"
    by (simp add: byte_bits_list bit_push_bit_iff bit_ucast_iff)
  moreover have "push_bit 8 ?B = 0"
    by (rule bit_word_eqI) (auto simp: bit_push_bit_iff bit_ucast_iff dest: bit_imp_le_length)
  ultimately have "crc_bits ?B (byte_bits b) = 0"
    using crc_bits_self [of 8 ?B] by simp
  moreover have "map2 (\<noteq>) (byte_bits b) (byte_bits b) = replicate 8 False"
    by (simp add: byte_bits_list numeral_eq_Suc)
  ultimately show ?thesis
    using crc_bits_xor [of "byte_bits b" "byte_bits b" c ?B] by simp
qed

lemma crc_bits_low: "crc_bits (take_bit 24 c) (replicate 8 False) = push_bit 8 c"
proof -
  have "map (bit (take_bit 24 c)) (rev [24..<32]) = replicate 8 False"
    by (rule replicate_eqI) (auto simp: bit_take_bit_iff)
  moreover have "push_bit 8 (take_bit 24 c) = push_bit 8 c"
    by (rule bit_word_eqI) (auto simp: bit_push_bit_iff bit_take_bit_iff)
  ultimately show ?thesis using crc_bits_self [of 8 "take_bit 24 c"] by simp
qed

lemma crc_table_byte:
  "push_bit 8 c XOR init_crc32 ! unat ((drop_bit 24 c XOR ucast b) AND 0xFF) = crc32_byte c b"
proof -
  let ?x = "(drop_bit 24 c XOR ucast b) AND 0xFF :: u32"
  have k: "?x = take_bit 8 (drop_bit 24 c XOR ucast b)"
    by (simp add: take_bit_eq_mask mask_eq_exp_minus_1)
  have m: "?x = drop_bit 24 c XOR ucast b"
    unfolding k by (rule bit_word_eqI)
      (auto simp: bit_take_bit_iff bit_xor_iff bit_drop_bit_eq bit_ucast_iff dest: bit_imp_le_length)
  have lt: "unat ?x < 256"
    using unat_take_bit_less [of 8] unfolding k by (simp del: take_bit_xor)
  have "c XOR push_bit 24 (ucast b) = push_bit 24 ?x XOR take_bit 24 c"
    unfolding m
    by (rule bit_word_eqI) (auto simp: bit_xor_iff bit_push_bit_iff bit_take_bit_iff bit_drop_bit_eq)
  then have "crc32_byte c b = init_crc32_entry (unat ?x) XOR push_bit 8 c"
    by (simp add: crc32_byte_bits crc_bits_byte crc_bits_zeros_xor crc_bits_low crc_entry_bits)
  with lt show ?thesis by (simp add: init_crc32_def xor.commute)
qed

lemma get_crc32_eq: "get_crc32 init_crc32 d l = mpegts_crc32 d l"
  by (simp add: get_crc32_def mpegts_crc32_def crc_table_byte)

lemma crc32_check_append:
  assumes "c = mpegts_crc32 d (length d)"
  shows "tsa_crc32_check (d @ [ucast (drop_bit 24 c), ucast (drop_bit 16 c), ucast (drop_bit 8 c), ucast c]) (length d + 4) = 0"
proof -
  let ?t = "[ucast (drop_bit 24 c), ucast (drop_bit 16 c), ucast (drop_bit 8 c), ucast c] :: bytes"
  have "buf_bits ?t = low_bits 32 c"
    by (rule nth_equalityI) (auto simp: byte_bits_list less_Suc_eq numeral_eq_Suc bit_ucast_iff bit_drop_bit_eq)
  moreover have "crc_bits (- 1) (buf_bits d) = c"
    using assms mpegts_crc32_bits [of "length d" d] by simp
  ultimately show ?thesis
    using mpegts_crc32_bits [of "length d + 4" "d @ ?t"]
    by (simp add: tsa_crc32_check_def buf_bits_append crc_bits_append crc_bits_residue del: buf_bits_Cons)
qed

lemma crc32_burst:
  assumes "length d = length d'"
    and "map2 (\<noteq>) (buf_bits d) (buf_bits d') = replicate i False @ e @ replicate k False"
    and "length e \<le> 32" "True \<in> set e"
  shows "tsa_crc32_check d (length d) \<noteq> tsa_crc32_check d' (length d')"
  using crc_detects [OF _ assms(2-4)] assms(1) by (simp add: tsa_crc32_check_def mpegts_crc32_bits)

text \<open>The bytes past the length do not matter.\<close>

lemma crc32_check_take: "l \<le> length d \<Longrightarrow> tsa_crc32_check d l = tsa_crc32_check (take l d) l"
  by (simp add: tsa_crc32_check_def mpegts_crc32_bits)

section \<open>Properties\<close>

text \<open>
  A section followed by its CRC, most significant byte first, passes the
  check: \<open>tsa_crc32_check\<close> of the whole is 0. The generator's table-driven
  routine computes the same CRC on every buffer.
\<close>

theorem crc32_residue:
  assumes "l = length d" "c = mpegts_crc32 d l"
  shows "tsa_crc32_check (d @ [ucast (drop_bit 24 c), ucast (drop_bit 16 c), ucast (drop_bit 8 c), ucast c]) (l + 4) = 0 \<and>
    get_crc32 init_crc32 d l = c"
  using crc32_check_append assms by (simp add: get_crc32_eq)

theorem crc32_residue_witness:
  "tsa_crc32_check ([0x00, 0xB0] @ [ucast (drop_bit 24 (mpegts_crc32 [0x00, 0xB0] 2)),
     ucast (drop_bit 16 (mpegts_crc32 [0x00, 0xB0] 2)), ucast (drop_bit 8 (mpegts_crc32 [0x00, 0xB0] 2)),
     ucast (mpegts_crc32 [0x00, 0xB0] 2)]) (2 + 4) = 0"
  using crc32_residue [of 2 "[0x00, 0xB0]" "mpegts_crc32 [0x00, 0xB0] 2"] by simp

text \<open>
  C31. The check detects every burst error of up to 32 bits: if two sections
  of the same length differ, and only inside some window of 32 bits, then
  their CRCs differ; in particular at most one of them passes the check.
\<close>

theorem crc32_detects_bursts:
  assumes "length d = length d'"
    and "map2 (\<noteq>) (buf_bits d) (buf_bits d') = replicate i False @ e @ replicate k False"
    and "length e \<le> 32" "True \<in> set e"
  shows "tsa_crc32_check d (length d) \<noteq> tsa_crc32_check d' (length d')"
  by (rule crc32_burst [OF assms])

theorem crc32_detects_bursts_witness:
  "tsa_crc32_check [0x12, 0x34, 0x56] (length [0x12, 0x34, 0x56 :: u8]) \<noteq>
   tsa_crc32_check [0x12, 0x3C, 0x56] (length [0x12, 0x3C, 0x56 :: u8])"
proof (rule crc32_detects_bursts)
  show "map2 (\<noteq>) (buf_bits [0x12, 0x34, 0x56]) (buf_bits [0x12, 0x3C, 0x56]) =
      replicate 12 False @ [True] @ replicate 11 False" by code_simp
qed simp_all

end
