(* ===== verification/Bitstream.thy ===== *)
theory Bitstream
  imports Tsa_Prelude
begin

text \<open>
  The bit reader of \<open>include/tsa_bitstream.h\<close>: a 64-bit cache over a byte
  buffer. The buffer pointer and its end are the list of the bytes still to
  be read. Every read is shown to be a read of the bit string that the
  reader stands for, up to the Exp-Golomb codes built from it.
\<close>

record bit_reader =
  br_buf :: bytes
  cache :: u64
  bits_left :: int

section \<open>Operations\<close>

fun refill_loop :: "bytes \<Rightarrow> u64 \<Rightarrow> int \<Rightarrow> bytes \<times> u64 \<times> int" where
  "refill_loop [] c n = ([], c, n)"
| "refill_loop (b # bs) c n =
    (if n \<le> 56 then refill_loop bs (push_bit 8 c OR ucast b) (n + 8) else (b # bs, c, n))"

definition br_refill :: "bit_reader \<Rightarrow> bit_reader" where
  "br_refill r = (case refill_loop (br_buf r) (cache r) (bits_left r) of
     (bs, c, n) \<Rightarrow> \<lparr>br_buf = bs, cache = c, bits_left = n\<rparr>)"

definition br_init :: "bytes \<Rightarrow> bit_reader" where
  "br_init buf = br_refill \<lparr>br_buf = buf, cache = 0, bits_left = 0\<rparr>"

definition br_peek :: "bit_reader \<Rightarrow> nat \<Rightarrow> u32" where
  "br_peek r n = (if n = 0 \<or> bits_left r < int n then 0
     else ucast (drop_bit (nat (bits_left r - int n)) (cache r) AND (push_bit n 1 - 1)))"

definition br_skip :: "bit_reader \<Rightarrow> nat \<Rightarrow> bit_reader" where
  "br_skip r n = (let b = bits_left r - int n
     in br_refill (r\<lparr>bits_left := if b < 0 then 0 else b\<rparr>))"

definition br_read :: "bit_reader \<Rightarrow> nat \<Rightarrow> u32 \<times> bit_reader" where
  "br_read r n = (if n = 0 \<or> bits_left r < int n then (0, r)
     else (ucast (drop_bit (nat (bits_left r - int n)) (cache r) AND (push_bit n 1 - 1)),
           br_refill (r\<lparr>bits_left := bits_left r - int n\<rparr>)))"

text \<open>
  The loop of \<open>br_read_ue\<close>, its third condition \<open>leading_zero_bits < 32\<close>
  read as the number of rounds left.
\<close>

fun ue_zeros :: "nat \<Rightarrow> bit_reader \<Rightarrow> nat \<times> bit_reader" where
  "ue_zeros 0 r = (0, r)"
| "ue_zeros (Suc k) r =
    (if bits_left r > 0 \<and> br_peek r 1 = 0
     then (case ue_zeros k (br_skip r 1) of (z, r') \<Rightarrow> (Suc z, r')) else (0, r))"

text \<open>
  \<open>1 << leading_zero_bits\<close> is an \<open>int\<close> shift: for 31 and 32 zeros it has no
  defined value, which is the result \<open>None\<close>.
\<close>

definition br_read_ue :: "bit_reader \<Rightarrow> u32 option \<times> bit_reader" where
  "br_read_ue r = (case ue_zeros 32 r of (z, r1) \<Rightarrow>
     let r2 = (if bits_left r1 > 0 then br_skip r1 1 else r1);
         (v, r3) = br_read r2 z
     in (if z < 31 then Some (push_bit z 1 - 1 + v) else None, r3))"

definition br_read_se :: "bit_reader \<Rightarrow> int option \<times> bit_reader" where
  "br_read_se r = (case br_read_ue r of
     (None, r') \<Rightarrow> (None, r')
   | (Some ue, r') \<Rightarrow> (Some (if ue mod 2 = 0 then - sint (ue div 2)
                             else sint ((ue + 1) div 2)), r'))"

section \<open>The bit string of a reader\<close>

definition br_bits :: "bit_reader \<Rightarrow> bool list" where
  "br_bits r = low_bits (nat (bits_left r)) (cache r) @ buf_bits (br_buf r)"

text \<open>
  The cache holds at most 64 bits, and fewer than 57 of them only at the end
  of the buffer: what every operation of the reader leaves behind.
\<close>

definition br_inv :: "bit_reader \<Rightarrow> bool" where
  "br_inv r \<longleftrightarrow> 0 \<le> bits_left r \<and> bits_left r \<le> 64 \<and> (bits_left r \<le> 56 \<longrightarrow> br_buf r = [])"

lemma low_bits_push_byte:
  "n + 8 \<le> 64 \<Longrightarrow> low_bits (n + 8) (push_bit 8 c OR ucast (b :: u8) :: u64) = low_bits n c @ byte_bits b"
proof (rule nth_equalityI)
  fix i assume "n + 8 \<le> 64" and "i < length (low_bits (n + 8) (push_bit 8 c OR ucast b :: u64))"
  then show "low_bits (n + 8) (push_bit 8 c OR ucast b) ! i = (low_bits n c @ byte_bits b) ! i"
    by (cases "i < n")
      (auto simp: byte_bits_def nth_append bit_or_iff bit_push_bit_iff bit_ucast_iff
        dest: bit_imp_le_length intro: arg_cong [where f = "bit _"])
qed simp

lemma refill_loop_spec:
  assumes "refill_loop bs c n = (bs', c', n')" "0 \<le> n" "n \<le> 64"
  shows "low_bits (nat n') c' @ buf_bits bs' = low_bits (nat n) c @ buf_bits bs"
    and "0 \<le> n'" "n' \<le> 64" "n' \<le> 56 \<longrightarrow> bs' = []"
  using assms
proof (induction bs c n rule: refill_loop.induct)
  case (2 b bs c n)
  note IH = "2.IH"
  {
    case 1
    then show ?case using IH(1) low_bits_push_byte [of "nat n" c b]
      by (auto split: if_splits simp: nat_add_distrib)
  next
    case 2
    then show ?case using IH(2) by (auto split: if_splits)
  next
    case 3
    then show ?case using IH(3) by (auto split: if_splits)
  next
    case 4
    then show ?case using IH(4) by (auto split: if_splits)
  }
qed auto

lemma br_refill_bits:
  assumes "0 \<le> bits_left r" "bits_left r \<le> 64"
  shows "br_bits (br_refill r) = br_bits r" and "br_inv (br_refill r)"
proof -
  obtain bs c n where e: "refill_loop (br_buf r) (cache r) (bits_left r) = (bs, c, n)"
    by (metis prod_cases3)
  from refill_loop_spec [OF e assms]
  show "br_bits (br_refill r) = br_bits r" "br_inv (br_refill r)"
    by (simp_all add: br_refill_def e br_bits_def br_inv_def)
qed

lemma br_init_bits: "br_bits (br_init buf) = buf_bits buf" and br_init_inv [tsa_inv]: "br_inv (br_init buf)"
  by (simp_all add: br_init_def br_refill_bits) (simp add: br_bits_def)

lemma br_inv_avail: "br_inv r \<Longrightarrow> n \<le> 57 \<Longrightarrow> (int n \<le> bits_left r) = (n \<le> length (br_bits r))"
  by (auto simp: br_inv_def br_bits_def)

lemma mask_field_bits:
  fixes c :: u64
  assumes "n \<le> m" "m \<le> 64" "n \<le> 32"
  shows "ucast (drop_bit (m - n) c AND (push_bit n 1 - 1)) = (of_nat (bits_val (take n (low_bits m c))) :: u32)"
proof -
  have t: "take n (low_bits m c) = low_bits n (drop_bit (m - n) c)"
    using assms by (intro nth_equalityI) (auto simp: bit_drop_bit_eq algebra_simps)
  have m: "drop_bit (m - n) c AND (push_bit n 1 - 1) = take_bit n (drop_bit (m - n) c)"
    by (simp add: take_bit_eq_mask mask_eq_exp_minus_1 push_bit_eq_mult)
  show ?thesis
    unfolding m t bits_val_low_bits by (simp add: unsigned_eq_0_iff)
qed

lemma br_peek_spec:
  assumes "br_inv r" "n \<le> 32"
  shows "br_peek r n = (if n \<le> length (br_bits r) then of_nat (bits_val (take n (br_bits r))) else 0)"
proof -
  have "(int n \<le> bits_left r) = (n \<le> length (br_bits r))"
    using assms by (simp add: br_inv_avail)
  with assms show ?thesis
    using mask_field_bits [of n "nat (bits_left r)" "cache r"]
    by (auto simp: br_peek_def br_inv_def br_bits_def nat_diff_distrib)
qed

lemma drop_low_bits: "n \<le> m \<Longrightarrow> drop n (low_bits m c) = low_bits (m - n) c"
  by (intro nth_equalityI) (auto simp: algebra_simps)

lemma br_advance:
  assumes "br_inv r" "int n \<le> bits_left r"
  shows "br_bits (br_refill (r\<lparr>bits_left := bits_left r - int n\<rparr>)) = drop n (br_bits r)"
    and "br_inv (br_refill (r\<lparr>bits_left := bits_left r - int n\<rparr>))"
proof -
  let ?r = "r\<lparr>bits_left := bits_left r - int n\<rparr>"
  have b: "0 \<le> bits_left ?r" "bits_left ?r \<le> 64" using assms by (auto simp: br_inv_def)
  show "br_bits (br_refill ?r) = drop n (br_bits r)"
    unfolding br_refill_bits(1) [OF b]
    using assms by (auto simp: br_bits_def drop_low_bits nat_diff_distrib br_inv_def)
  show "br_inv (br_refill ?r)" by (rule br_refill_bits(2) [OF b])
qed

lemma br_skip_spec:
  assumes "br_inv r" "n \<le> 57"
  shows "br_bits (br_skip r n) = drop n (br_bits r)" and "br_inv (br_skip r n)"
proof -
  have "br_bits (br_skip r n) = drop n (br_bits r) \<and> br_inv (br_skip r n)"
  proof (cases "int n \<le> bits_left r")
    case True
    then have "br_skip r n = br_refill (r\<lparr>bits_left := bits_left r - int n\<rparr>)"
      by (simp add: br_skip_def)
    with br_advance [OF assms(1) True] show ?thesis by simp
  next
    case False
    with assms have "br_buf r = []" "length (br_bits r) \<le> n"
      by (auto simp: br_inv_def br_bits_def)
    with False show ?thesis
      using br_refill_bits [of "r\<lparr>bits_left := 0\<rparr>"] by (auto simp: br_skip_def br_bits_def)
  qed
  then show "br_bits (br_skip r n) = drop n (br_bits r)" "br_inv (br_skip r n)" by simp_all
qed

lemma br_read_peek: "fst (br_read r n) = br_peek r n"
  by (simp add: br_read_def br_peek_def)

lemma br_read_rest:
  assumes "br_inv r" "n \<le> 32"
  shows "br_bits (snd (br_read r n)) = (if n \<le> length (br_bits r) then drop n (br_bits r) else br_bits r)"
    and "br_inv (snd (br_read r n))"
proof -
  have "(int n \<le> bits_left r) = (n \<le> length (br_bits r))"
    using assms by (simp add: br_inv_avail)
  then show "br_bits (snd (br_read r n)) = (if n \<le> length (br_bits r) then drop n (br_bits r) else br_bits r)"
    and "br_inv (snd (br_read r n))"
    using assms(1) br_advance [OF assms(1), of n] by (auto simp: br_read_def)
qed

lemmas br_op_specs = br_read_peek br_peek_spec br_read_rest br_skip_spec br_init_bits

lemma bits_left_pos: "br_inv r \<Longrightarrow> (0 < bits_left r) = (br_bits r \<noteq> [])"
  using br_inv_avail [of r 1] by (cases "br_bits r") auto

lemma br_peek_1: "br_inv r \<Longrightarrow> br_bits r \<noteq> [] \<Longrightarrow> (br_peek r 1 = 0) = (\<not> hd (br_bits r))"
  by (cases "br_bits r") (simp_all add: br_peek_spec)

lemma ue_zeros_spec:
  assumes "br_inv r" "br_bits r = replicate z False @ True # t" "z < k"
  shows "fst (ue_zeros k r) = z" "br_bits (snd (ue_zeros k r)) = True # t" "br_inv (snd (ue_zeros k r))"
  using assms
proof (induction k arbitrary: r z)
  case (Suc k)
  have step: "ue_zeros (Suc k) r = (if hd (br_bits r) then (0, r)
      else (Suc (fst (ue_zeros k (br_skip r 1))), snd (ue_zeros k (br_skip r 1))))"
    if "br_inv r" "br_bits r \<noteq> []" for r
    using that by (simp add: bits_left_pos br_peek_1 split_beta del: One_nat_def)
  {
    case 1
    then show ?case using Suc(1) [of "br_skip r 1" "z - 1"] br_skip_spec [of r 1]
      by (cases z) (simp_all add: step del: ue_zeros.simps)
  next
    case 2
    then show ?case using Suc(2) [of "br_skip r 1" "z - 1"] br_skip_spec [of r 1]
      by (cases z) (simp_all add: step del: ue_zeros.simps)
  next
    case 3
    then show ?case using Suc(3) [of "br_skip r 1" "z - 1"] br_skip_spec [of r 1]
      by (cases z) (simp_all add: step del: ue_zeros.simps)
  }
qed simp_all

section \<open>Exp-Golomb codes\<close>

text \<open>The binary digits of a positive number, and its Exp-Golomb code.\<close>

fun nat_bits :: "nat \<Rightarrow> bool list" where
  "nat_bits n = (if n < 2 then [True] else nat_bits (n div 2) @ [odd n])"

declare nat_bits.simps [simp del]

definition ue_code :: "nat \<Rightarrow> bool list" where
  "ue_code v = (let b = nat_bits (v + 1) in replicate (length b - 1) False @ b)"

definition se_code :: "int \<Rightarrow> bool list" where
  "se_code k = ue_code (if k > 0 then nat (2 * k - 1) else nat (- 2 * k))"

lemma nat_bits_val: "0 < n \<Longrightarrow> bits_val (nat_bits n) = n"
proof (induction n rule: nat_bits.induct)
  case (1 n)
  have "n div 2 * 2 + of_bool (odd n) = n"
    by (cases "odd n") (simp_all, presburger)
  with 1 show ?case by (subst nat_bits.simps) auto
qed

lemma nat_bits_True: "\<exists>t. nat_bits n = True # t"
  by (induction n rule: nat_bits.induct) (subst nat_bits.simps, auto)

lemma nat_bits_length: "0 < n \<Longrightarrow> n < 2 ^ k \<Longrightarrow> length (nat_bits n) \<le> k"
proof (induction n arbitrary: k rule: nat_bits.induct)
  case (1 n)
  then show ?case by (cases k; subst nat_bits.simps) auto
qed

lemma br_read_ue_bits:
  assumes "br_inv r" "br_bits r = replicate z False @ True # v @ rest" "length v = z" "z < 31"
  shows "fst (br_read_ue r) = Some (of_nat (2 ^ z - 1 + bits_val v))"
    and "br_bits (snd (br_read_ue r)) = rest" and "br_inv (snd (br_read_ue r))"
proof -
  obtain r1 where u: "ue_zeros 32 r = (z, r1)" "br_bits r1 = True # v @ rest" "br_inv r1"
    using ue_zeros_spec [OF assms(1,2), of 32] assms(4) by (cases "ue_zeros 32 r") simp
  define r2 where "r2 = br_skip r1 1"
  have r2: "br_bits r2 = v @ rest" "br_inv r2"
    using u br_skip_spec [of r1 1] by (simp_all add: r2_def)
  have "br_read_ue r = (Some (push_bit z 1 - 1 + fst (br_read r2 z)), snd (br_read r2 z))"
    using u assms(4) by (simp add: br_read_ue_def bits_left_pos r2_def split_beta Let_def)
  moreover have "fst (br_read r2 z) = of_nat (bits_val v)"
    using r2 assms(3,4) by (simp add: br_read_peek br_peek_spec)
  moreover have "br_bits (snd (br_read r2 z)) = rest" "br_inv (snd (br_read r2 z))"
    using r2 assms(3,4) by (simp_all add: br_read_rest)
  ultimately show "fst (br_read_ue r) = Some (of_nat (2 ^ z - 1 + bits_val v))"
    and "br_bits (snd (br_read_ue r)) = rest" and "br_inv (snd (br_read_ue r))"
    by (simp_all only: of_nat_add, simp_all add: of_nat_diff)
qed

lemma br_read_ue_code:
  assumes "br_inv r" "br_bits r = ue_code v @ rest" "v + 1 < 2 ^ 31"
  shows "fst (br_read_ue r) = Some (of_nat v)"
    and "br_bits (snd (br_read_ue r)) = rest" and "br_inv (snd (br_read_ue r))"
proof -
  obtain t where t: "nat_bits (v + 1) = True # t" using nat_bits_True by blast
  have l: "length t < 31" using nat_bits_length [of "v + 1" 31] assms(3) t by simp
  have "2 ^ length t - 1 + bits_val t = v" using nat_bits_val [of "v + 1"] t by simp
  moreover have "br_bits r = replicate (length t) False @ True # t @ rest"
    using assms(2) t by (simp add: ue_code_def)
  ultimately show "fst (br_read_ue r) = Some (of_nat v)"
    and "br_bits (snd (br_read_ue r)) = rest" and "br_inv (snd (br_read_ue r))"
    using br_read_ue_bits [OF assms(1) _ refl l, of rest] by simp_all
qed

lemma br_read_se_code:
  assumes "br_inv r" "br_bits r = se_code k @ rest" "\<bar>k\<bar> < 2 ^ 30"
  shows "fst (br_read_se r) = Some k"
    and "br_bits (snd (br_read_se r)) = rest" and "br_inv (snd (br_read_se r))"
proof -
  define v where "v = (if k > 0 then nat (2 * k - 1) else nat (- 2 * k))"
  have v: "v + 1 < 2 ^ 31" using assms(3) by (auto simp: v_def)
  note u = br_read_ue_code [OF assms(1) _ v, of rest, folded v_def]
  have c: "br_bits r = ue_code v @ rest" using assms(2) by (simp add: se_code_def v_def)
  have ue: "fst (br_read_ue r) = Some (of_nat v)" by (rule u(1) [OF c])
  have w: "unat (of_nat v :: u32) = v" "unat (of_nat v + 1 :: u32) = v + 1"
    using v by (simp_all add: unat_of_nat_small unat_word_ariths)
  have "fst (br_read_se r) = Some (if even v then - int (v div 2) else int ((v + 1) div 2))"
    using ue v w
    by (cases "br_read_ue r")
      (auto simp: br_read_se_def word_arith_nat_mod sint_small uint_nat unat_div even_iff_mod_2_eq_zero)
  also have "\<dots> = Some k" by (auto simp: v_def even_nat_iff)
  finally show "fst (br_read_se r) = Some k" .
  have "snd (br_read_se r) = snd (br_read_ue r)"
    by (cases "br_read_ue r") (auto simp: br_read_se_def split: option.splits)
  then show "br_bits (snd (br_read_se r)) = rest" and "br_inv (snd (br_read_se r))"
    using u(2,3) [OF c] by simp_all
qed

section \<open>Properties of the reader\<close>

text \<open>
  C30. Reading \<open>n \<le> 32\<close> bits returns the number spelled by the next \<open>n\<close> bits
  of the buffer, most significant first, and moves past exactly these bits;
  when fewer than \<open>n\<close> bits are left it returns 0 and consumes nothing. The
  reader's invariant is kept, and a fresh reader stands for the whole buffer.
\<close>

theorem br_read_refines:
  assumes "br_inv r" "n \<le> 32"
  shows "fst (br_read r n) = (if n \<le> length (br_bits r) then of_nat (bits_val (take n (br_bits r))) else 0) \<and>
    br_bits (snd (br_read r n)) = (if n \<le> length (br_bits r) then drop n (br_bits r) else br_bits r) \<and>
    br_inv (snd (br_read r n)) \<and> br_inv (br_init buf) \<and> br_bits (br_init buf) = buf_bits buf"
  using assms by (simp add: br_read_peek br_peek_spec br_read_rest br_init_bits br_init_inv)

theorem br_read_refines_witness:
  "br_inv (br_init [0xAB, 0xCD, 0xEF]) \<and> fst (br_read (br_init [0xAB, 0xCD, 0xEF]) 12) = 0xABC"
proof -
  have i: "br_inv (br_init [0xAB, 0xCD, 0xEF])" by code_simp
  have "fst (br_read (br_init [0xAB, 0xCD, 0xEF]) 12) = of_nat (bits_val (take 12 (buf_bits [0xAB, 0xCD, 0xEF])))"
    using br_read_refines [OF i, of 12 "[0xAB, 0xCD, 0xEF]"] by simp
  also have "\<dots> = 0xABC" by code_simp
  finally show ?thesis using i by simp
qed

text \<open>
  C29. The Exp-Golomb readers invert the Exp-Golomb code: whatever the reader
  holds, a code word at its front is decoded to the encoded number and
  consumed exactly, for all unsigned values below \<open>2 ^ 31 - 1\<close> and all signed
  values below \<open>2 ^ 30\<close> in size.
\<close>

theorem exp_golomb_roundtrip:
  assumes "br_inv r"
  shows "(br_bits r = ue_code v @ rest \<longrightarrow> v + 1 < 2 ^ 31 \<longrightarrow>
      (\<exists>r'. br_read_ue r = (Some (of_nat v), r') \<and> br_bits r' = rest \<and> br_inv r')) \<and>
    (br_bits r = se_code k @ rest \<longrightarrow> \<bar>k\<bar> < 2 ^ 30 \<longrightarrow>
      (\<exists>r'. br_read_se r = (Some k, r') \<and> br_bits r' = rest \<and> br_inv r'))"
  using br_read_ue_code [OF assms, of v rest] br_read_se_code [OF assms, of k rest]
  by (cases "br_read_ue r"; cases "br_read_se r") simp

theorem exp_golomb_roundtrip_witness:
  "br_inv (br_init [0x28]) \<and> (\<exists>r'. br_read_ue (br_init [0x28]) = (Some 4, r') \<and> br_bits r' = [False, False, False]) \<and>
    (\<exists>r'. br_read_se (br_init [0x28]) = (Some (- 2), r'))"
proof -
  have i: "br_inv (br_init [0x28])" by code_simp
  have "br_bits (br_init [0x28]) = ue_code 4 @ [False, False, False]"
    and "br_bits (br_init [0x28]) = se_code (- 2) @ [False, False, False]" by code_simp+
  with exp_golomb_roundtrip [OF i, of 4 "[False, False, False]" "- 2"] i show ?thesis by auto
qed

section \<open>Program clock references\<close>

definition INVALID_PCR :: u64 where
  "INVALID_PCR = - 1"

lemma unat_INVALID_PCR [simp]: "unat INVALID_PCR = 2 ^ 64 - 1"
  by (simp add: INVALID_PCR_def unsigned_minus_1_eq_mask mask_eq_exp_minus_1)

text \<open>The argument is a transport packet, so the reads up to offset 11 stay inside it.\<close>

definition tsa_pkt_get_pcr :: "bytes \<Rightarrow> u64" where
  "tsa_pkt_get_pcr pkt =
    (if pkt ! 0 \<noteq> 0x47 then INVALID_PCR
     else if pkt ! 3 AND 0x20 = 0 \<or> pkt ! 4 < 2 then INVALID_PCR
     else if pkt ! 5 AND 0x10 = 0 then INVALID_PCR
     else let
       base = push_bit 25 (ucast (pkt ! 6)) OR push_bit 17 (ucast (pkt ! 7)) OR push_bit 9 (ucast (pkt ! 8)) OR
              push_bit 1 (ucast (pkt ! 9)) OR drop_bit 7 (ucast (pkt ! 10)) :: u64;
       ext = push_bit 8 (ucast (pkt ! 10 AND 0x01)) OR ucast (pkt ! 11)
     in base * 300 + ext)"

definition tsa_pcr_to_ns :: "u64 \<Rightarrow> u64" where
  "tsa_pcr_to_ns pcr_ticks = (if pcr_ticks = INVALID_PCR then 0 else (pcr_ticks * 1000) div 27)"

text \<open>
  The syntax of ISO/IEC 13818-1: the 33-bit base starts at bit 48 of the
  packet, six reserved bits follow, then the 9-bit extension.
\<close>

definition pcr_base_bits :: "bytes \<Rightarrow> bool list" where
  "pcr_base_bits pkt = take 33 (drop 48 (buf_bits pkt))"

definition pcr_ext_bits :: "bytes \<Rightarrow> bool list" where
  "pcr_ext_bits pkt = take 9 (drop 87 (buf_bits pkt))"

definition pkt_has_pcr :: "bytes \<Rightarrow> bool" where
  "pkt_has_pcr pkt \<longleftrightarrow> pkt ! 0 = 0x47 \<and> bit (pkt ! 3) 5 \<and> 2 \<le> pkt ! 4 \<and> bit (pkt ! 5) 4"

lemma buf_bits_take: "buf_bits xs = take (8 * n) (buf_bits xs) @ drop (8 * n) (buf_bits xs)"
  by simp

lemma drop_buf_bits: "drop (8 * n) (buf_bits xs) = buf_bits (drop n xs)"
  by (induction n arbitrary: xs) (simp, case_tac xs, simp_all)

lemma drop_Cons_nth: "n < length xs \<Longrightarrow> drop n xs = xs ! n # drop (Suc n) xs"
  by (simp add: Cons_nth_drop_Suc)

lemma pcr_base_bits_eq:
  assumes "12 \<le> length pkt"
  shows "pcr_base_bits pkt = byte_bits (pkt ! 6) @ byte_bits (pkt ! 7) @ byte_bits (pkt ! 8) @
           byte_bits (pkt ! 9) @ take 1 (byte_bits (pkt ! 10))"
  using assms drop_buf_bits [of 6 pkt] by (simp add: pcr_base_bits_def drop_Cons_nth)

lemma pcr_ext_bits_eq:
  assumes "12 \<le> length pkt"
  shows "pcr_ext_bits pkt = drop 7 (byte_bits (pkt ! 10)) @ byte_bits (pkt ! 11)"
proof -
  have "drop 87 (buf_bits pkt) = drop 7 (drop (8 * 10) (buf_bits pkt))" by simp
  with assms show ?thesis
    unfolding pcr_ext_bits_def drop_buf_bits by (simp add: drop_Cons_nth)
qed

lemma pkt_has_pcr_code:
  "pkt_has_pcr pkt \<longleftrightarrow> \<not> (pkt ! 0 \<noteq> 0x47 \<or> pkt ! 3 AND 0x20 = 0 \<or> pkt ! 4 < 2 \<or> pkt ! 5 AND 0x10 = 0)"
  using and_exp_eq_0_iff_not_bit [of "pkt ! 3" 5] and_exp_eq_0_iff_not_bit [of "pkt ! 5" 4]
  by (auto simp: pkt_has_pcr_def)

lemma get_pcr_words:
  assumes "12 \<le> length pkt" "pkt_has_pcr pkt"
  shows "tsa_pkt_get_pcr pkt = bits_word (pcr_base_bits pkt) * 300 + bits_word (pcr_ext_bits pkt)"
proof -
  have "bits_word (pcr_base_bits pkt) = (push_bit 25 (ucast (pkt ! 6)) OR push_bit 17 (ucast (pkt ! 7)) OR
      push_bit 9 (ucast (pkt ! 8)) OR push_bit 1 (ucast (pkt ! 9)) OR drop_bit 7 (ucast (pkt ! 10)) :: u64)"
    using assms(1)
    by (simp add: bits_word_high [of 1, simplified] pcr_base_bits_eq bits_word_append bits_word_byte ucast_drop_bit_eq or.assoc)
  moreover have "bits_word (pcr_ext_bits pkt) = (push_bit 8 (ucast (pkt ! 10 AND 0x01)) OR ucast (pkt ! 11) :: u64)"
    using assms(1)
    by (simp add: pcr_ext_bits_eq bits_word_append bits_word_byte drop_byte_bits bits_word_low_bits
        take_bit_eq_mask mask_eq_exp_minus_1)
  ultimately show ?thesis
    using assms(2) by (simp add: tsa_pkt_get_pcr_def pkt_has_pcr_code)
qed

lemma get_pcr_value:
  assumes "12 \<le> length pkt" "pkt_has_pcr pkt"
  shows "unat (tsa_pkt_get_pcr pkt) = bits_val (pcr_base_bits pkt) * 300 + bits_val (pcr_ext_bits pkt)"
    and "unat (tsa_pkt_get_pcr pkt) < 2 ^ 33 * 300 + 512"
proof -
  have b: "bits_val (pcr_base_bits pkt) < 2 ^ 33" "bits_val (pcr_ext_bits pkt) < 2 ^ 9"
    using bits_val_less [of "pcr_base_bits pkt"] bits_val_less [of "pcr_ext_bits pkt"] assms(1)
    by (simp_all add: pcr_base_bits_eq pcr_ext_bits_eq)
  have "tsa_pkt_get_pcr pkt = of_nat (bits_val (pcr_base_bits pkt) * 300 + bits_val (pcr_ext_bits pkt))"
    using get_pcr_words [OF assms] by (simp add: bits_word_def)
  then show e: "unat (tsa_pkt_get_pcr pkt) = bits_val (pcr_base_bits pkt) * 300 + bits_val (pcr_ext_bits pkt)"
    using b unat_of_nat_small [of "bits_val (pcr_base_bits pkt) * 300 + bits_val (pcr_ext_bits pkt)", where 'a = 64]
    by simp
  show "unat (tsa_pkt_get_pcr pkt) < 2 ^ 33 * 300 + 512"
    unfolding e using b by simp
qed

text \<open>
  On a transport packet, the extracted PCR is \<open>base * 300 + extension\<close>
  of the two fields the standard places in the packet, with no wrap-around,
  and it is \<open>INVALID_PCR\<close> exactly when the packet carries no PCR.
\<close>

theorem get_pcr_fields:
  assumes "length pkt = 188"
  shows "(tsa_pkt_get_pcr pkt = INVALID_PCR) = (\<not> pkt_has_pcr pkt) \<and> (pkt_has_pcr pkt \<longrightarrow>
      unat (tsa_pkt_get_pcr pkt) = bits_val (pcr_base_bits pkt) * 300 + bits_val (pcr_ext_bits pkt))"
proof -
  have l: "12 \<le> length pkt" using assms by simp
  have "tsa_pkt_get_pcr pkt \<noteq> INVALID_PCR" if "pkt_has_pcr pkt"
    using get_pcr_value(2) [OF l that] by auto
  moreover have "tsa_pkt_get_pcr pkt = INVALID_PCR" if "\<not> pkt_has_pcr pkt"
    using that by (auto simp: pkt_has_pcr_code tsa_pkt_get_pcr_def)
  ultimately show ?thesis using get_pcr_value(1) [OF l] by auto
qed

theorem get_pcr_fields_witness:
  "pkt_has_pcr ([0x47, 0, 0, 0x20, 183, 0x10, 0, 0, 0, 0, 0x80, 5] @ replicate 176 0xFF) \<and>
    unat (tsa_pkt_get_pcr ([0x47, 0, 0, 0x20, 183, 0x10, 0, 0, 0, 0, 0x80, 5] @ replicate 176 0xFF)) = 305"
proof -
  let ?p = "[0x47, 0, 0, 0x20, 183, 0x10, 0, 0, 0, 0, 0x80, 5] @ replicate 176 0xFF"
  have "pkt_has_pcr ?p" "bits_val (pcr_base_bits ?p) * 300 + bits_val (pcr_ext_bits ?p) = 305" by code_simp+
  with get_pcr_fields [of ?p] show ?thesis by simp
qed

text \<open>
  Conversion of a PCR to nanoseconds is exact (rounded down) for every
  value a packet can carry.
\<close>

theorem pcr_to_ns_exact:
  assumes "unat pcr < 2 ^ 33 * 300 + 512"
  shows "unat (tsa_pcr_to_ns pcr) = unat pcr * 1000 div 27"
proof -
  have "pcr \<noteq> INVALID_PCR" using assms by auto
  moreover have "unat (pcr * 1000) = unat pcr * 1000" using assms by (simp add: unat_word_ariths)
  ultimately show ?thesis by (simp add: tsa_pcr_to_ns_def unat_div)
qed

theorem pcr_to_ns_exact_witness: "unat (2700 :: u64) < 2 ^ 33 * 300 + 512 \<and> unat (tsa_pcr_to_ns 2700) = 100000"
  using pcr_to_ns_exact [of 2700] by simp

end
