(* ===== verification/Ts_Packet.thy ===== *)
theory Ts_Packet
  imports Bitstream
begin

text \<open>
  The transport packet layer: the fields of a packet header
  (\<open>tsa_decode_packet_pure\<close> of \<open>tsa.c\<close>, up to the PES part that the core
  theory adds), the PES header, and the classification of continuity
  counters (\<open>tsa_utils.c\<close>).
\<close>

section \<open>Decoded packets\<close>

record ts_decode_result =
  r_pid :: u16
  r_pusi :: u8
  r_af_len :: u8
  r_has_payload :: bool
  r_has_pcr :: bool
  r_payload_len :: int
  r_cc :: u8
  r_scrambled :: bool
  r_has_discontinuity :: bool
  r_has_pes_header :: bool
  r_has_pts :: bool
  r_has_dts :: bool
  r_pts :: u64
  r_dts :: u64

record tsa_pes_header =
  ph_stream_id :: u8
  ph_has_pts :: bool
  ph_has_dts :: bool
  ph_pts :: u64
  ph_dts :: u64
  ph_header_len :: int

datatype ts_cc_status = TS_CC_OK | TS_CC_DUPLICATE | TS_CC_LOSS | TS_CC_OUT_OF_ORDER

section \<open>Operations\<close>

definition pkt_pid :: "bytes \<Rightarrow> u16" where
  "pkt_pid p = push_bit 8 (ucast (p ! 1 AND 0x1F)) OR ucast (p ! 2)"

definition pkt_afc :: "bytes \<Rightarrow> u8" where
  "pkt_afc p = drop_bit 4 (p ! 3) AND 0x03"

text \<open>\<open>af_len\<close> is a \<open>uint8_t\<close>: the sum with 1 is taken modulo 256 before the comparison.\<close>

definition pkt_af_len :: "bytes \<Rightarrow> u8" where
  "pkt_af_len p = (if pkt_afc p AND 0x02 \<noteq> 0
     then let a = p ! 4 + 1 in if 184 < a then 184 else a else 0)"

definition decode_header :: "bytes \<Rightarrow> ts_decode_result" where
  "decode_header p = (let
      afc = pkt_afc p;
      af_len = pkt_af_len p;
      pl = (if afc AND 0x01 \<noteq> 0 then 184 - uint af_len else 0);
      payload_len = (if pl < 0 then 0 else pl)
    in \<lparr>r_pid = pkt_pid p, r_pusi = p ! 1 AND 0x40, r_af_len = af_len,
        r_has_payload = 0 < payload_len,
        r_has_pcr = (1 < af_len \<and> p ! 5 AND 0x10 \<noteq> 0),
        r_payload_len = payload_len, r_cc = p ! 3 AND 0x0F,
        r_scrambled = p ! 3 AND 0xC0 \<noteq> 0,
        r_has_discontinuity = (1 < af_len \<and> p ! 5 AND 0x80 \<noteq> 0),
        r_has_pes_header = False, r_has_pts = False, r_has_dts = False, r_pts = 0, r_dts = 0\<rparr>)"

text \<open>The 33-bit time stamp of a PES header, in five bytes with marker bits.\<close>

definition pes_timestamp :: "bytes \<Rightarrow> nat \<Rightarrow> u64" where
  "pes_timestamp p i = push_bit 29 (ucast (p ! i AND 0x0E)) OR push_bit 22 (ucast (p ! (i + 1))) OR
     push_bit 14 (ucast (p ! (i + 2) AND 0xFE)) OR push_bit 7 (ucast (p ! (i + 3))) OR
     drop_bit 1 (ucast (p ! (i + 4)))"

text \<open>
  The header \<open>h\<close> is the caller's memory: what the function does not assign
  keeps its former value. \<open>p\<close> holds at least \<open>len\<close> bytes.
\<close>

definition tsa_parse_pes_header :: "bytes \<Rightarrow> int \<Rightarrow> tsa_pes_header \<Rightarrow> int \<times> tsa_pes_header" where
  "tsa_parse_pes_header p len h =
    (if len < 6 \<or> p ! 0 \<noteq> 0 \<or> p ! 1 \<noteq> 0 \<or> p ! 2 \<noteq> 1 then (- 1, h)
     else let h1 = h\<lparr>ph_stream_id := p ! 3\<rparr> in
       if p ! 3 \<in> {0xBC, 0xBE, 0xBF, 0xF0, 0xF1, 0xFF, 0xF2, 0xF8}
       then (0, h1\<lparr>ph_has_pts := False, ph_has_dts := False, ph_header_len := 6\<rparr>)
       else if len < 9 then (- 1, h1)
       else let
         h2 = h1\<lparr>ph_has_pts := p ! 7 AND 0x80 \<noteq> 0, ph_has_dts := p ! 7 AND 0x40 \<noteq> 0,
                 ph_header_len := 9 + uint (p ! 8)\<rparr>
       in if ph_has_pts h2 \<and> 14 \<le> len
          then let h3 = h2\<lparr>ph_pts := pes_timestamp p 9, ph_dts := pes_timestamp p 9\<rparr>
               in (0, if ph_has_dts h3 \<and> 19 \<le> len then h3\<lparr>ph_dts := pes_timestamp p 14\<rparr> else h3)
          else (0, h2))"

text \<open>The comparisons of the C code are made on \<open>int\<close>, after promotion.\<close>

definition cc_classify_error :: "u8 \<Rightarrow> u8 \<Rightarrow> bool \<Rightarrow> bool \<Rightarrow> ts_cc_status" where
  "cc_classify_error l c p a =
    (if \<not> p \<or> a then TS_CC_OK
     else if c = l then TS_CC_DUPLICATE
     else if uint c = (uint l + 1) mod 16 then TS_CC_OK
     else if (uint c - uint l) mod 16 < 8 then TS_CC_LOSS else TS_CC_OUT_OF_ORDER)"

definition tsa_stream_type_to_str :: "u8 \<Rightarrow> string" where
  "tsa_stream_type_to_str type =
    (if type = 0x01 then ''MPEG1-V'' else if type = 0x02 then ''MPEG2-V''
     else if type = 0x03 then ''MPEG1-A'' else if type = 0x04 then ''MPEG2-A''
     else if type = 0x06 then ''Private'' else if type = 0x56 then ''Teletext''
     else if type = 0x59 then ''Subtitle'' else if type = 0x0f then ''ADTS-AAC''
     else if type = 0x11 then ''AAC-LATM'' else if type = 0x86 then ''SCTE-35''
     else if type = 0x1b then ''H.264'' else if type = 0x24 then ''HEVC''
     else if type = 0x81 then ''AC3'' else ''Unknown'')"

definition tsa_is_h264 :: "u8 \<Rightarrow> bool" where
  "tsa_is_h264 type \<longleftrightarrow> type = 0x1b"

definition tsa_is_hevc :: "u8 \<Rightarrow> bool" where
  "tsa_is_hevc type \<longleftrightarrow> type = 0x24"

definition tsa_is_video :: "u8 \<Rightarrow> bool" where
  "tsa_is_video type \<longleftrightarrow> type = 0x1b \<or> type = 0x24 \<or> type = 0x02"

definition tsa_is_audio :: "u8 \<Rightarrow> bool" where
  "tsa_is_audio type \<longleftrightarrow> type = 0x03 \<or> type = 0x04 \<or> type = 0x0f \<or> type = 0x11 \<or> type = 0x81 \<or> type = 0x82"

section \<open>Fields as bit strings\<close>

lemma pkt_pid_bits: "pkt_pid p = bits_word (drop 3 (byte_bits (p ! 1)) @ byte_bits (p ! 2))"
proof -
  have "p ! 1 AND 0x1F = take_bit 5 (p ! 1)"
    by (simp add: take_bit_eq_mask mask_eq_exp_minus_1)
  then show ?thesis
    by (simp add: pkt_pid_def bits_word_append bits_word_byte drop_byte_bits bits_word_low_bits)
qed

lemma pkt_pid_less: "unat (pkt_pid p) < 8192"
  using bits_val_less [of "drop 3 (byte_bits (p ! 1)) @ byte_bits (p ! 2)"]
  by (simp add: pkt_pid_bits unat_bits_word)

lemma pkt_afc_flags: "(pkt_afc p AND 1 = 0) = (\<not> bit (p ! 3) 4)" "(pkt_afc p AND 2 = 0) = (\<not> bit (p ! 3) 5)"
proof -
  have a: "pkt_afc p = take_bit 2 (drop_bit 4 (p ! 3))"
    by (simp add: pkt_afc_def take_bit_eq_mask mask_eq_exp_minus_1)
  have "(pkt_afc p AND 2 ^ n = 0) = (\<not> bit (p ! 3) (4 + n))" if "n < 2" for n
    using that unfolding and_exp_eq_0_iff_not_bit a by (simp add: bit_take_bit_iff bit_drop_bit_eq)
  from this [of 0] this [of 1]
  show "(pkt_afc p AND 1 = 0) = (\<not> bit (p ! 3) 4)" "(pkt_afc p AND 2 = 0) = (\<not> bit (p ! 3) 5)"
    by simp_all
qed

lemma pkt_af_len_le: "pkt_af_len p \<le> 184"
  by (simp add: pkt_af_len_def Let_def not_less)

lemma uint_pkt_af_len_le: "uint (pkt_af_len p) \<le> 184"
  using pkt_af_len_le [of p] by (simp add: word_le_def)

lemma decode_header_payload:
  "r_payload_len (decode_header p) = (if pkt_afc p AND 1 \<noteq> 0 then 184 - uint (pkt_af_len p) else 0)"
  using uint_pkt_af_len_le [of p] by (simp add: decode_header_def Let_def)

lemma decode_header_simps [simp]:
  "r_pid (decode_header p) = pkt_pid p"
  "r_pusi (decode_header p) = p ! 1 AND 0x40"
  "r_af_len (decode_header p) = pkt_af_len p"
  "r_cc (decode_header p) = p ! 3 AND 0x0F"
  "r_has_pts (decode_header p) = False"
  "r_has_dts (decode_header p) = False"
  "r_has_pes_header (decode_header p) = False"
  "r_scrambled (decode_header p) = (p ! 3 AND 0xC0 \<noteq> 0)"
  "r_has_payload (decode_header p) = (0 < r_payload_len (decode_header p))"
  by (simp_all add: decode_header_def Let_def)

lemma pes_timestamp_bits:
  "pes_timestamp p i = bits_word (take 3 (drop 4 (byte_bits (p ! i))) @ byte_bits (p ! (i + 1)) @
     take 7 (byte_bits (p ! (i + 2))) @ byte_bits (p ! (i + 3)) @ take 7 (byte_bits (p ! (i + 4))))"
proof -
  have a: "push_bit 29 (ucast (b AND 0x0E)) = (push_bit 30 (bits_word (take 3 (drop 4 (byte_bits b)))) :: u64)" for b :: u8
    using field_shift [of 29 b 1 3, where 'a = 64] low_mid_bits [of 4 3 b]
    by (simp add: bits_word_low_bits mask_eq_exp_minus_1)
  have c: "push_bit 14 (ucast (b AND 0xFE)) = (push_bit 15 (bits_word (take 7 (byte_bits b))) :: u64)" for b :: u8
    using field_shift [of 14 b 1 7, where 'a = 64]
    by (simp add: take_byte_bits bits_word_low_bits mask_eq_exp_minus_1)
  show ?thesis
    by (simp add: pes_timestamp_def a c bits_word_append bits_word_byte bits_word_high [of 7, simplified]
        ucast_drop_bit_eq or.assoc)
qed

section \<open>Properties\<close>

text \<open>
  C35. The header decoder reads the 13-bit PID and keeps the payload window
  inside the packet: header, adaptation field and payload add up to at most
  188 bytes, and to exactly 188 when the payload flag is set. The bound on a
  corrupt adaptation field length has one gap: a length byte of 255 wraps to
  0, and the adaptation field is then taken for payload.
\<close>

theorem decode_header_layout:
  "unat (r_pid (decode_header p)) = bits_val (drop 3 (byte_bits (p ! 1)) @ byte_bits (p ! 2)) \<and>
   unat (r_pid (decode_header p)) < 8192 \<and>
   0 \<le> r_payload_len (decode_header p) \<and>
   4 + uint (r_af_len (decode_header p)) + r_payload_len (decode_header p) \<le> 188 \<and>
   (bit (p ! 3) 4 \<longrightarrow> 4 + uint (r_af_len (decode_header p)) + r_payload_len (decode_header p) = 188) \<and>
   (bit (p ! 3) 5 \<and> p ! 4 < 184 \<longrightarrow> r_af_len (decode_header p) = p ! 4 + 1) \<and>
   (bit (p ! 3) 5 \<and> p ! 4 = 255 \<longrightarrow> r_af_len (decode_header p) = 0)"
proof -
  have a: "p ! 4 < 184 \<Longrightarrow> \<not> 184 < p ! 4 + 1"
    by (simp add: word_less_nat_alt unat_word_ariths)
  show ?thesis
    using pkt_pid_less [of p] uint_pkt_af_len_le [of p] a
    by (simp add: pkt_pid_bits unat_bits_word decode_header_payload pkt_afc_flags pkt_af_len_def Let_def)
qed

theorem decode_header_layout_witness:
  "bit ([0x47, 0x41, 0x00, 0x30, 7] ! 3 :: u8) 4 \<and>
   4 + uint (r_af_len (decode_header [0x47, 0x41, 0x00, 0x30, 7])) + r_payload_len (decode_header [0x47, 0x41, 0x00, 0x30, 7]) = 188"
proof -
  have "bit ([0x47, 0x41, 0x00, 0x30, 7] ! 3 :: u8) 4" by code_simp
  with decode_header_layout [of "[0x47, 0x41, 0x00, 0x30, 7]"] show ?thesis by blast
qed

lemma mod_16_once: "0 \<le> k \<Longrightarrow> k < 32 \<Longrightarrow> k mod 16 = (if k < 16 then k else k - 16)" for k :: int
  using mod_pos_pos_trivial [of "k - 16" 16] by simp

lemma cc_same:
  assumes "0 \<le> x" "x < 16" "m < 16"
  shows "((x + 1 + int m) mod 16 = x) = (m = 15)"
  using assms mod_16_once [of "x + 1 + int m"] by (simp split: if_splits)

lemma cc_next:
  assumes "0 \<le> x" "x < 16" "m < 16"
  shows "((x + 1 + int m) mod 16 = (x + 1) mod 16) = (m = 0)"
  using assms mod_16_once [of "x + 1 + int m"] mod_16_once [of "x + 1"] by (simp split: if_splits)

lemma cc_half:
  assumes "m < 16"
  shows "((1 + int m) mod 16 < 8) = (m \<le> 6 \<or> m = 15)"
  using assms mod_16_once [of "1 + int m"] by (auto split: if_splits)

text \<open>
  Continuity classification counts packets: when the last counter was
  \<open>l\<close> and \<open>m\<close> packets of the same PID are missing before the next one
  (modulo 16), the verdict is in sequence for none, loss for 1 to 6, out of
  order for 7 to 14, duplicate for 15. Packets without payload are not judged.
\<close>

theorem cc_classify_counts:
  assumes "unat l < 16" "m < 16"
  shows "cc_classify_error l (of_nat ((unat l + 1 + m) mod 16)) True False =
    (if m = 0 then TS_CC_OK else if m \<le> 6 then TS_CC_LOSS else if m = 15 then TS_CC_DUPLICATE else TS_CC_OUT_OF_ORDER) \<and>
    cc_classify_error l c False a = TS_CC_OK"
proof -
  have u: "uint (of_nat ((unat l + 1 + m) mod 16) :: u8) = (uint l + 1 + int m) mod 16"
    by (subst uint_of_nat_small) (simp_all add: zmod_int algebra_simps)
  have l: "0 \<le> uint l" "uint l < 16" using assms(1) by (simp_all add: unat_less_uint)
  have e: "(of_nat ((unat l + 1 + m) mod 16) = l) = ((uint l + 1 + int m) mod 16 = uint l)"
    unfolding u [symmetric] by (rule word_uint_eq_iff)
  have d: "((uint l + 1 + int m) mod 16 - uint l) mod 16 = (1 + int m) mod 16"
    by (simp add: mod_diff_left_eq)
  show ?thesis
    unfolding cc_classify_error_def e u d
    by (simp add: cc_same [OF l assms(2)] cc_next [OF l assms(2)] cc_half [OF assms(2)])
qed

theorem cc_classify_counts_witness:
  "cc_classify_error 14 (of_nat ((unat (14 :: u8) + 1 + 3) mod 16)) True False = TS_CC_LOSS"
  using cc_classify_counts [of 14 3] by simp

end
