(* ===== verification/Fifo_Spec.thy ===== *)
theory Fifo_Spec
  imports Tsa_Prelude
begin

text \<open>
  The contract that the rings of the code base share: a bounded first-in
  first-out queue, specified by the list of its elements. Clients rely on
  the locale only; each ring interprets it in its own theory.
\<close>

section \<open>The interface\<close>

datatype 'a fifo_op = Push 'a | Pop

text \<open>A run of operations: what was accepted, what came out, and the queue at the end.\<close>

fun fifo_run :: "('a \<Rightarrow> 'q \<Rightarrow> bool \<times> 'q) \<Rightarrow> ('q \<Rightarrow> 'a option \<times> 'q) \<Rightarrow> 'a fifo_op list \<Rightarrow> 'q \<Rightarrow> 'a list \<times> 'a list \<times> 'q" where
  "fifo_run push pop [] q = ([], [], q)"
| "fifo_run push pop (Push x # ops) q = (case push x q of
     (ok, q1) \<Rightarrow> (case fifo_run push pop ops q1 of (ins, outs, q2) \<Rightarrow> (if ok then x # ins else ins, outs, q2)))"
| "fifo_run push pop (Pop # ops) q = (case pop q of
     (None, q1) \<Rightarrow> fifo_run push pop ops q1
   | (Some x, q1) \<Rightarrow> (case fifo_run push pop ops q1 of (ins, outs, q2) \<Rightarrow> (ins, x # outs, q2)))"

locale bounded_fifo =
  fixes push :: "'a \<Rightarrow> 'q \<Rightarrow> bool \<times> 'q"
    and pop :: "'q \<Rightarrow> 'a option \<times> 'q"
    and invar :: "'q \<Rightarrow> bool"
    and contents :: "'q \<Rightarrow> 'a list"
    and cap :: "'q \<Rightarrow> nat"
  assumes push_full: "invar q \<Longrightarrow> cap q \<le> length (contents q) \<Longrightarrow> push x q = (False, q)"
    and push_space: "invar q \<Longrightarrow> length (contents q) < cap q \<Longrightarrow>
      \<exists>q'. push x q = (True, q') \<and> contents q' = contents q @ [x] \<and> invar q' \<and> cap q' = cap q"
    and pop_empty: "invar q \<Longrightarrow> contents q = [] \<Longrightarrow> pop q = (None, q)"
    and pop_some: "invar q \<Longrightarrow> contents q = x # xs \<Longrightarrow>
      \<exists>q'. pop q = (Some x, q') \<and> contents q' = xs \<and> invar q' \<and> cap q' = cap q"
    and contents_bound: "invar q \<Longrightarrow> length (contents q) \<le> cap q"
begin

lemma push_cases:
  assumes "invar q"
  obtains "push x q = (False, q)" "length (contents q) = cap q"
  | q' where "push x q = (True, q')" "contents q' = contents q @ [x]" "invar q'" "cap q' = cap q"
  using push_full [OF assms, of x] push_space [OF assms, of x] contents_bound [OF assms]
  by (metis le_antisym not_le_imp_less)

lemma pop_cases:
  assumes "invar q"
  obtains "pop q = (None, q)" "contents q = []"
  | x q' where "pop q = (Some x, q')" "contents q = x # contents q'" "invar q'" "cap q' = cap q"
  using pop_empty [OF assms] pop_some [OF assms] by (metis neq_Nil_conv)

lemma push_invar: "invar q \<Longrightarrow> invar (snd (push x q))"
  by (cases rule: push_cases [of q x]) simp_all

lemma pop_invar: "invar q \<Longrightarrow> invar (snd (pop q))"
  by (cases rule: pop_cases [of q]) simp_all

lemma run_conserves_all:
  assumes "invar q" "fifo_run push pop ops q = (ins, outs, q')"
  shows "contents q @ ins = outs @ contents q' \<and> invar q' \<and> cap q' = cap q"
  using assms
proof (induction ops arbitrary: q ins outs)
  case (Cons opr ops)
  show ?case
  proof (cases opr)
    case (Push x)
    then show ?thesis
      using Cons by (cases rule: push_cases [OF Cons.prems(1), of x]) (fastforce split: prod.splits)+
  next
    case Pop
    then show ?thesis
      using Cons by (cases rule: pop_cases [OF Cons.prems(1)]) (fastforce split: prod.splits)+
  qed
qed simp

lemmas run_conserves = run_conserves_all [THEN conjunct1] run_conserves_all [THEN conjunct2, THEN conjunct1]
  run_conserves_all [THEN conjunct2, THEN conjunct2]

lemma run_bounded:
  assumes "invar q" "fifo_run push pop ops q = (ins, outs, q')"
  shows "length (contents q') \<le> cap q"
  using run_conserves(2,3) [OF assms] contents_bound by metis

text \<open>What is pushed into free space comes out in the same order.\<close>

lemma run_pushes:
  assumes "invar q" "length (contents q) + length xs \<le> cap q"
  shows "\<exists>q'. fifo_run push pop (map Push xs) q = (xs, [], q') \<and> contents q' = contents q @ xs \<and> invar q' \<and> cap q' = cap q"
  using assms
proof (induction xs arbitrary: q)
  case (Cons x xs)
  then have "length (contents q) < cap q" by simp
  from push_space [OF Cons.prems(1) this, of x] obtain q1 where
    q1: "push x q = (True, q1)" "contents q1 = contents q @ [x]" "invar q1" "cap q1 = cap q" by blast
  with Cons.IH [of q1] Cons.prems(2) show ?case by auto
qed simp

lemma run_pops:
  assumes "invar q" "contents q = xs"
  shows "\<exists>q'. fifo_run push pop (replicate (length xs) Pop) q = ([], xs, q') \<and> contents q' = [] \<and> invar q'"
  using assms
proof (induction xs arbitrary: q)
  case (Cons x xs)
  from pop_some [OF Cons.prems] obtain q1 where
    q1: "pop q = (Some x, q1)" "contents q1 = xs" "invar q1" by blast
  with Cons.IH [of q1] show ?case by auto
qed simp

end

section \<open>Queues that simulate another queue\<close>

text \<open>
  A second implementation whose operations commute with an abstraction onto
  the first one offers the same contract.
\<close>

locale fifo_simulation = bounded_fifo push pop invar contents cap
  for push :: "'a \<Rightarrow> 'q \<Rightarrow> bool \<times> 'q" and pop :: "'q \<Rightarrow> 'a option \<times> 'q" and invar contents cap +
  fixes push' :: "'a \<Rightarrow> 'r \<Rightarrow> bool \<times> 'r" and pop' :: "'r \<Rightarrow> 'a option \<times> 'r"
    and inv' :: "'r \<Rightarrow> bool" and abs_q :: "'r \<Rightarrow> 'q"
  assumes sim_invar: "inv' r \<Longrightarrow> invar (abs_q r)"
    and sim_push: "inv' r \<Longrightarrow> push x (abs_q r) = (True, q) \<Longrightarrow> \<exists>r'. push' x r = (True, r') \<and> abs_q r' = q \<and> inv' r'"
    and sim_push_full: "inv' r \<Longrightarrow> push x (abs_q r) = (False, q) \<Longrightarrow> push' x r = (False, r)"
    and sim_pop: "inv' r \<Longrightarrow> pop (abs_q r) = (Some x, q) \<Longrightarrow> \<exists>r'. pop' r = (Some x, r') \<and> abs_q r' = q \<and> inv' r'"
    and sim_pop_empty: "inv' r \<Longrightarrow> pop (abs_q r) = (None, q) \<Longrightarrow> pop' r = (None, r)"

sublocale fifo_simulation \<subseteq> sim: bounded_fifo push' pop' inv' "\<lambda>r. contents (abs_q r)" "\<lambda>r. cap (abs_q r)"
proof
  fix r x xs assume i: "inv' r"
  note j = sim_invar [OF i]
  show "cap (abs_q r) \<le> length (contents (abs_q r)) \<Longrightarrow> push' x r = (False, r)"
    using push_full [OF j] sim_push_full [OF i] by blast
  show "length (contents (abs_q r)) < cap (abs_q r) \<Longrightarrow>
      \<exists>q'. push' x r = (True, q') \<and> contents (abs_q q') = contents (abs_q r) @ [x] \<and> inv' q' \<and> cap (abs_q q') = cap (abs_q r)"
    using push_space [OF j, of x] sim_push [OF i, of x] by metis
  show "contents (abs_q r) = [] \<Longrightarrow> pop' r = (None, r)"
    using pop_empty [OF j] sim_pop_empty [OF i] by blast
  show "contents (abs_q r) = x # xs \<Longrightarrow>
      \<exists>q'. pop' r = (Some x, q') \<and> contents (abs_q q') = xs \<and> inv' q' \<and> cap (abs_q q') = cap (abs_q r)"
    using pop_some [OF j, of x xs] sim_pop [OF i, of x] by metis
  show "length (contents (abs_q r)) \<le> cap (abs_q r)"
    by (rule contents_bound [OF j])
qed

section \<open>Slices of a ring\<close>

text \<open>The \<open>n\<close> elements of a ring of \<open>sz\<close> slots from position \<open>start\<close> on.\<close>

definition ring_slice :: "'a list \<Rightarrow> nat \<Rightarrow> nat \<Rightarrow> nat \<Rightarrow> 'a list" where
  "ring_slice buf sz start n = map (\<lambda>i. buf ! ((start + i) mod sz)) [0..<n]"

lemma length_ring_slice [simp]: "length (ring_slice buf sz start n) = n"
  by (simp add: ring_slice_def)

lemma ring_slice_0 [simp]: "ring_slice buf sz start 0 = []"
  by (simp add: ring_slice_def)

lemma ring_slice_Nil [simp]: "ring_slice buf sz start n = [] \<longleftrightarrow> n = 0"
  by (simp add: ring_slice_def)

lemma ring_slice_mod [simp]: "ring_slice buf sz (start mod sz) n = ring_slice buf sz start n"
  by (simp add: ring_slice_def mod_add_left_eq)

lemma ring_slice_Suc: "ring_slice buf sz start (Suc n) = buf ! (start mod sz) # ring_slice buf sz (Suc start) n"
  by (simp add: ring_slice_def upt_conv_Cons map_Suc_upt [symmetric] del: upt_Suc)

lemma ring_slot_distinct:
  assumes "i < n" "n < sz"
  shows "(start + i) mod sz \<noteq> (start + n) mod (sz :: nat)"
proof
  assume "(start + i) mod sz = (start + n) mod sz"
  then have "sz dvd (start + n) - (start + i)"
    by (metis mod_eq_dvd_iff_nat assms(1) nat_add_left_cancel_le less_imp_le)
  with assms show False by (auto dest: dvd_imp_le)
qed

lemma ring_slice_update:
  assumes "n < sz" "length buf = sz"
  shows "ring_slice (buf[(start + n) mod sz := x]) sz start (Suc n) = ring_slice buf sz start n @ [x]"
proof -
  have "buf[(start + n) mod sz := x] ! ((start + i) mod sz) = buf ! ((start + i) mod sz)" if "i < n" for i
    using ring_slot_distinct [OF that assms(1), of start] by (simp add: nth_list_update)
  moreover have "(start + n) mod sz < length buf" using assms by simp
  ultimately show ?thesis by (simp add: ring_slice_def)
qed

end
