(* ===== verification/Tsa_Rings.thy ===== *)
theory Tsa_Rings
  imports Fifo_Spec
begin

text \<open>
  The lock-free rings, operation by operation: \<open>spsc_queue\<close> (one slot kept
  free), the forensic packet ring of \<open>tsa_utils.c\<close> and the pacer's
  \<open>spsc_ring\<close> of \<open>tsp.c\<close> (free-running 64-bit counters). Each interprets
  the bounded FIFO of theory Fifo\_Spec. NULL arguments and failing
  allocations are not modelled: a value of the record type is an existing ring.
\<close>

section \<open>spsc\_queue.c\<close>

record ts_packet =
  timestamp_ns :: u64
  pkt_stc_ns :: u64
  pkt_data :: bytes

record spsc_queue =
  sq_head :: nat
  sq_tail :: nat
  sq_size :: nat
  sq_buffer :: "ts_packet list"

definition spsc_queue_create :: "nat \<Rightarrow> spsc_queue option" where
  "spsc_queue_create sz = (if sz = 0 then None
     else Some \<lparr>sq_head = 0, sq_tail = 0, sq_size = sz + 1,
       sq_buffer = replicate (sz + 1) \<lparr>timestamp_ns = 0, pkt_stc_ns = 0, pkt_data = replicate 188 0\<rparr>\<rparr>)"

definition spsc_queue_push :: "ts_packet \<Rightarrow> spsc_queue \<Rightarrow> bool \<times> spsc_queue" where
  "spsc_queue_push pkt q = (let
      head = sq_head q;
      next_head = (head + 1) mod sq_size q;
      tail = sq_tail q
    in if next_head = tail then (False, q)
       else (True, q\<lparr>sq_buffer := (sq_buffer q)[head := pkt], sq_head := next_head\<rparr>))"

definition spsc_queue_pop :: "spsc_queue \<Rightarrow> ts_packet option \<times> spsc_queue" where
  "spsc_queue_pop q = (let
      tail = sq_tail q;
      head = sq_head q
    in if tail = head then (None, q)
       else (Some (sq_buffer q ! tail), q\<lparr>sq_tail := (tail + 1) mod sq_size q\<rparr>))"

definition spsc_queue_count :: "spsc_queue \<Rightarrow> nat" where
  "spsc_queue_count q = (if sq_tail q \<le> sq_head q then sq_head q - sq_tail q
     else sq_size q - (sq_tail q - sq_head q))"

definition spsc_queue_is_full :: "spsc_queue \<Rightarrow> bool" where
  "spsc_queue_is_full q \<longleftrightarrow> (sq_head q + 1) mod sq_size q = sq_tail q"

definition spsc_queue_is_empty :: "spsc_queue \<Rightarrow> bool" where
  "spsc_queue_is_empty q \<longleftrightarrow> sq_head q = sq_tail q"

definition sq_inv :: "spsc_queue \<Rightarrow> bool" where
  "sq_inv q \<longleftrightarrow> 0 < sq_size q \<and> sq_head q < sq_size q \<and> sq_tail q < sq_size q \<and> length (sq_buffer q) = sq_size q"

definition sq_contents :: "spsc_queue \<Rightarrow> ts_packet list" where
  "sq_contents q = ring_slice (sq_buffer q) (sq_size q) (sq_tail q) (spsc_queue_count q)"

definition sq_cap :: "spsc_queue \<Rightarrow> nat" where
  "sq_cap q = sq_size q - 1"

lemma sq_count_less: "sq_inv q \<Longrightarrow> spsc_queue_count q < sq_size q"
  by (auto simp: sq_inv_def spsc_queue_count_def)

lemma sq_head_slot: "sq_inv q \<Longrightarrow> (sq_tail q + spsc_queue_count q) mod sq_size q = sq_head q"
  by (auto simp: sq_inv_def spsc_queue_count_def)

lemma sq_next: "h < n \<Longrightarrow> (h + 1) mod n = (if h + 1 = n then 0 else h + 1)" for h n :: nat
  by auto

lemma sq_full_iff: "sq_inv q \<Longrightarrow> spsc_queue_is_full q = (sq_cap q \<le> spsc_queue_count q)"
  by (auto simp: sq_inv_def spsc_queue_is_full_def spsc_queue_count_def sq_cap_def mod_Suc)

lemma sq_push_spec:
  assumes "sq_inv q" "spsc_queue_count q < sq_cap q"
  shows "\<exists>q'. spsc_queue_push x q = (True, q') \<and> sq_contents q' = sq_contents q @ [x] \<and> sq_inv q' \<and> sq_cap q' = sq_cap q"
proof -
  define q' where "q' = q\<lparr>sq_buffer := (sq_buffer q)[sq_head q := x], sq_head := (sq_head q + 1) mod sq_size q\<rparr>"
  have nf: "\<not> spsc_queue_is_full q" using assms sq_full_iff by simp
  then have p: "spsc_queue_push x q = (True, q')"
    by (simp add: spsc_queue_push_def spsc_queue_is_full_def q'_def Let_def)
  have i: "sq_inv q'" using assms(1) by (simp add: sq_inv_def q'_def)
  have c: "spsc_queue_count q' = Suc (spsc_queue_count q)"
    using assms nf by (auto simp: sq_inv_def q'_def spsc_queue_count_def spsc_queue_is_full_def sq_cap_def mod_Suc)
  have "sq_contents q' = ring_slice ((sq_buffer q)[(sq_tail q + spsc_queue_count q) mod sq_size q := x])
      (sq_size q) (sq_tail q) (Suc (spsc_queue_count q))"
    unfolding sq_contents_def c by (simp add: q'_def sq_head_slot [OF assms(1)])
  also have "\<dots> = sq_contents q @ [x]"
    unfolding sq_contents_def using assms(1) sq_count_less [OF assms(1)]
    by (intro ring_slice_update) (auto simp: sq_inv_def)
  finally show ?thesis using p i by (auto simp: sq_cap_def q'_def)
qed

lemma sq_pop_spec:
  assumes "sq_inv q" "sq_contents q = x # xs"
  shows "\<exists>q'. spsc_queue_pop q = (Some x, q') \<and> sq_contents q' = xs \<and> sq_inv q' \<and> sq_cap q' = sq_cap q"
proof -
  define q' where "q' = q\<lparr>sq_tail := (sq_tail q + 1) mod sq_size q\<rparr>"
  have "length (sq_contents q) = Suc (length xs)" using assms(2) by simp
  then have c: "spsc_queue_count q = Suc (length xs)" by (simp add: sq_contents_def)
  then have ne: "sq_tail q \<noteq> sq_head q" by (auto simp: spsc_queue_count_def)
  have i: "sq_inv q'" using assms(1) by (simp add: sq_inv_def q'_def)
  have c': "spsc_queue_count q' = length xs"
    using assms(1) ne c by (auto simp: sq_inv_def q'_def spsc_queue_count_def mod_Suc)
  from assms have "x # xs = sq_buffer q ! sq_tail q # ring_slice (sq_buffer q) (sq_size q) (Suc (sq_tail q)) (length xs)"
    by (simp add: sq_contents_def c ring_slice_Suc sq_inv_def)
  moreover have "sq_contents q' = ring_slice (sq_buffer q) (sq_size q) (Suc (sq_tail q)) (length xs)"
    unfolding sq_contents_def c' by (simp add: q'_def)
  ultimately show ?thesis
    using i ne by (auto simp: spsc_queue_pop_def q'_def sq_cap_def Let_def)
qed

interpretation sq: bounded_fifo spsc_queue_push spsc_queue_pop sq_inv sq_contents sq_cap
proof
  fix q x xs assume i: "sq_inv q"
  show "sq_cap q \<le> length (sq_contents q) \<Longrightarrow> spsc_queue_push x q = (False, q)"
    using sq_full_iff [OF i] by (simp add: sq_contents_def spsc_queue_push_def spsc_queue_is_full_def)
  show "length (sq_contents q) < sq_cap q \<Longrightarrow>
      \<exists>q'. spsc_queue_push x q = (True, q') \<and> sq_contents q' = sq_contents q @ [x] \<and> sq_inv q' \<and> sq_cap q' = sq_cap q"
    using sq_push_spec [OF i] by (simp add: sq_contents_def)
  show "sq_contents q = [] \<Longrightarrow> spsc_queue_pop q = (None, q)"
    using i sq_head_slot [OF i] by (simp add: sq_contents_def spsc_queue_pop_def sq_inv_def Let_def)
  show "sq_contents q = x # xs \<Longrightarrow>
      \<exists>q'. spsc_queue_pop q = (Some x, q') \<and> sq_contents q' = xs \<and> sq_inv q' \<and> sq_cap q' = sq_cap q"
    by (rule sq_pop_spec [OF i])
  show "length (sq_contents q) \<le> sq_cap q"
    using sq_count_less [OF i] by (simp add: sq_contents_def sq_cap_def)
qed

section \<open>Rings with free-running counters\<close>

text \<open>
  The scheme of the packet ring, the pacer's ring and the event queue:
  \<open>head\<close> and \<open>tail\<close> count elements modulo \<open>2 ^ 64\<close> and are reduced modulo the
  number of slots on access. It is correct through every wrap-around of the
  counters when the number of slots divides \<open>2 ^ 64\<close>.
\<close>

record 'a cring =
  cr_buf :: "'a list"
  cr_sz :: u64
  cr_head :: u64
  cr_tail :: u64

definition cr_push :: "'a \<Rightarrow> 'a cring \<Rightarrow> bool \<times> 'a cring" where
  "cr_push x r = (if cr_sz r \<le> cr_head r - cr_tail r then (False, r)
     else (True, r\<lparr>cr_buf := (cr_buf r)[unat (cr_head r mod cr_sz r) := x], cr_head := cr_head r + 1\<rparr>))"

definition cr_pop :: "'a cring \<Rightarrow> 'a option \<times> 'a cring" where
  "cr_pop r = (if cr_head r = cr_tail r then (None, r)
     else (Some (cr_buf r ! unat (cr_tail r mod cr_sz r)), r\<lparr>cr_tail := cr_tail r + 1\<rparr>))"

definition cr_inv :: "'a cring \<Rightarrow> bool" where
  "cr_inv r \<longleftrightarrow> 0 < cr_sz r \<and> unat (cr_sz r) dvd 2 ^ 64 \<and> cr_head r - cr_tail r \<le> cr_sz r \<and>
     length (cr_buf r) = unat (cr_sz r)"

definition cr_contents :: "'a cring \<Rightarrow> 'a list" where
  "cr_contents r = ring_slice (cr_buf r) (unat (cr_sz r)) (unat (cr_tail r)) (unat (cr_head r - cr_tail r))"

definition cr_cap :: "'a cring \<Rightarrow> nat" where
  "cr_cap r = unat (cr_sz r)"

text \<open>The slot of a counter survives its wrap-around.\<close>

lemma counter_slot:
  fixes h t sz :: u64
  assumes "unat sz dvd 2 ^ 64"
  shows "unat (h mod sz) = (unat t + unat (h - t)) mod unat sz"
proof -
  have "unat h = (unat t + unat (h - t)) mod 2 ^ 64"
    using unat_word_ariths(1) [of t "h - t"] by simp
  then show ?thesis using assms by (simp add: unat_mod mod_mod_cancel)
qed

lemma counter_push:
  fixes h t sz :: u64
  assumes "h - t < sz"
  shows "unat (h + 1 - t) = Suc (unat (h - t))" "h + 1 - t \<le> sz"
proof -
  have "unat (h - t) + 1 < 2 ^ 64"
    using assms unsigned_less [of sz, where 'a = nat] by (simp add: word_less_nat_alt)
  then have "unat (h - t + 1) = Suc (unat (h - t))" by (simp add: unat_word_ariths)
  then show "unat (h + 1 - t) = Suc (unat (h - t))" by (simp add: algebra_simps)
  with assms show "h + 1 - t \<le> sz" by (simp add: word_le_nat_alt word_less_nat_alt)
qed

lemma counter_pop:
  fixes h t :: u64
  assumes "h \<noteq> t"
  shows "unat (h - t) = Suc (unat (h - (t + 1)))"
proof -
  have "h - t \<noteq> 0" using assms by simp
  then have "unat (h - t - 1) = unat (h - t) - 1" "0 < unat (h - t)"
    by (simp_all add: unat_minus_one unat_gt_0)
  then show ?thesis by (simp add: algebra_simps)
qed

lemma ring_slice_next:
  fixes t sz :: u64
  assumes "unat sz dvd 2 ^ 64"
  shows "ring_slice buf (unat sz) (unat (t + 1)) n = ring_slice buf (unat sz) (Suc (unat t)) n"
proof -
  have "unat (t + 1) mod unat sz = Suc (unat t) mod unat sz"
    using assms by (simp add: unat_word_ariths mod_mod_cancel)
  then show ?thesis by (metis ring_slice_mod)
qed

lemma cr_push_spec:
  assumes "cr_inv r" "length (cr_contents r) < cr_cap r"
  shows "\<exists>r'. cr_push x r = (True, r') \<and> cr_contents r' = cr_contents r @ [x] \<and> cr_inv r' \<and> cr_cap r' = cr_cap r"
proof -
  let ?n = "unat (cr_head r - cr_tail r)" and ?sz = "unat (cr_sz r)"
  let ?b = "(cr_buf r)[unat (cr_head r mod cr_sz r) := x]"
  have s: "cr_head r - cr_tail r < cr_sz r"
    using assms(2) by (simp add: cr_cap_def cr_contents_def word_less_nat_alt)
  have d: "?sz dvd 2 ^ 64" and l: "length (cr_buf r) = ?sz" and z: "0 < cr_sz r"
    using assms(1) by (simp_all add: cr_inv_def)
  have "ring_slice ?b ?sz (unat (cr_tail r)) (Suc ?n) = cr_contents r @ [x]"
    unfolding cr_contents_def counter_slot [OF d, of "cr_head r" "cr_tail r"]
    using s l by (intro ring_slice_update) (simp_all add: word_less_nat_alt)
  with s d l z show ?thesis
    by (auto simp: cr_push_def cr_contents_def cr_inv_def cr_cap_def counter_push not_le)
qed

lemma cr_pop_spec:
  assumes "cr_inv r" "cr_contents r = x # xs"
  shows "\<exists>r'. cr_pop r = (Some x, r') \<and> cr_contents r' = xs \<and> cr_inv r' \<and> cr_cap r' = cr_cap r"
proof -
  let ?sz = "unat (cr_sz r)"
  have n: "unat (cr_head r - cr_tail r) = Suc (length xs)"
    using arg_cong [OF assms(2), of length] by (simp add: cr_contents_def)
  then have ne: "cr_head r \<noteq> cr_tail r" by auto
  note c = counter_pop [OF ne]
  have d: "?sz dvd 2 ^ 64" using assms(1) by (simp add: cr_inv_def)
  have "x # xs = cr_buf r ! (unat (cr_tail r) mod ?sz) # ring_slice (cr_buf r) ?sz (Suc (unat (cr_tail r))) (length xs)"
    using assms(2) n by (simp add: cr_contents_def ring_slice_Suc)
  moreover have "cr_inv (r\<lparr>cr_tail := cr_tail r + 1\<rparr>)"
    using assms(1) c by (simp add: cr_inv_def word_le_nat_alt)
  ultimately show ?thesis
    using ne n c by (auto simp: cr_pop_def cr_contents_def ring_slice_next [OF d] cr_cap_def unat_mod)
qed

interpretation cr: bounded_fifo cr_push cr_pop cr_inv cr_contents cr_cap
proof
  fix r :: "'a cring" and x xs assume i: "cr_inv r"
  show "cr_cap r \<le> length (cr_contents r) \<Longrightarrow> cr_push x r = (False, r)"
    by (simp add: cr_push_def cr_cap_def cr_contents_def word_le_nat_alt)
  show "cr_contents r = [] \<Longrightarrow> cr_pop r = (None, r)"
    by (simp add: cr_contents_def cr_pop_def unat_eq_0)
  show "length (cr_contents r) \<le> cr_cap r"
    using i by (simp add: cr_contents_def cr_cap_def cr_inv_def word_le_nat_alt)
qed (fact cr_push_spec cr_pop_spec)+

section \<open>The forensic packet ring of tsa\_utils.c\<close>

text \<open>The buffer is kept as its 188-byte slots.\<close>

record packet_ring =
  pr_buffer :: "bytes list"
  pr_timestamps :: "u64 list"
  pr_sz :: u64
  pr_head :: u64
  pr_tail :: u64

text \<open>The memory that \<open>malloc\<close> returns is the argument \<open>junk\<close>.\<close>

definition tsa_packet_ring_create :: "u64 \<Rightarrow> bytes list \<times> u64 list \<Rightarrow> packet_ring" where
  "tsa_packet_ring_create sz junk = \<lparr>pr_buffer = fst junk, pr_timestamps = snd junk, pr_sz = sz, pr_head = 0, pr_tail = 0\<rparr>"

definition tsa_packet_ring_push :: "packet_ring \<Rightarrow> bytes \<Rightarrow> u64 \<Rightarrow> int \<times> packet_ring" where
  "tsa_packet_ring_push r p n = (let
      h = pr_head r;
      t = pr_tail r
    in if pr_sz r \<le> h - t then (- 1, r)
       else let idx = unat (h mod pr_sz r)
            in (0, r\<lparr>pr_buffer := (pr_buffer r)[idx := p], pr_timestamps := (pr_timestamps r)[idx := n], pr_head := h + 1\<rparr>))"

definition tsa_packet_ring_pop :: "packet_ring \<Rightarrow> int \<times> (bytes \<times> u64) option \<times> packet_ring" where
  "tsa_packet_ring_pop r = (let
      t = pr_tail r;
      h = pr_head r
    in if h = t then (- 1, None, r)
       else let idx = unat (t mod pr_sz r)
            in (0, Some (pr_buffer r ! idx, pr_timestamps r ! idx), r\<lparr>pr_tail := t + 1\<rparr>))"

text \<open>The calls as operations of the FIFO interface: a return code of 0 is success.\<close>

definition pr_push :: "bytes \<times> u64 \<Rightarrow> packet_ring \<Rightarrow> bool \<times> packet_ring" where
  "pr_push x r = (case tsa_packet_ring_push r (fst x) (snd x) of (rc, r') \<Rightarrow> (rc = 0, r'))"

definition pr_pop :: "packet_ring \<Rightarrow> (bytes \<times> u64) option \<times> packet_ring" where
  "pr_pop r = snd (tsa_packet_ring_pop r)"

definition pr_cring :: "packet_ring \<Rightarrow> (bytes \<times> u64) cring" where
  "pr_cring r = \<lparr>cr_buf = zip (pr_buffer r) (pr_timestamps r), cr_sz = pr_sz r, cr_head = pr_head r, cr_tail = pr_tail r\<rparr>"

definition pr_inv :: "packet_ring \<Rightarrow> bool" where
  "pr_inv r \<longleftrightarrow> cr_inv (pr_cring r) \<and> length (pr_buffer r) = unat (pr_sz r) \<and> length (pr_timestamps r) = unat (pr_sz r)"

lemma pr_push_cring:
  assumes "length (pr_buffer r) = length (pr_timestamps r)"
  shows "map_prod id pr_cring (pr_push x r) = cr_push x (pr_cring r)"
  by (simp add: pr_push_def tsa_packet_ring_push_def cr_push_def pr_cring_def Let_def update_zip)

lemma pr_pop_cring:
  assumes "pr_inv r"
  shows "map_prod id pr_cring (pr_pop r) = cr_pop (pr_cring r)"
proof -
  have "unat (pr_tail r mod pr_sz r) < unat (pr_sz r)"
    using assms by (simp add: pr_inv_def cr_inv_def pr_cring_def unat_mod word_less_nat_alt)
  with assms show ?thesis
    by (simp add: pr_pop_def tsa_packet_ring_pop_def cr_pop_def pr_cring_def Let_def pr_inv_def)
qed

lemma pr_op_frame:
  "length (pr_buffer (snd (pr_push x r))) = length (pr_buffer r)"
  "length (pr_timestamps (snd (pr_push x r))) = length (pr_timestamps r)" "pr_sz (snd (pr_push x r)) = pr_sz r"
  "\<not> fst (pr_push x r) \<Longrightarrow> snd (pr_push x r) = r"
  "length (pr_buffer (snd (pr_pop r))) = length (pr_buffer r)"
  "length (pr_timestamps (snd (pr_pop r))) = length (pr_timestamps r)" "pr_sz (snd (pr_pop r)) = pr_sz r"
  "fst (pr_pop r) = None \<Longrightarrow> snd (pr_pop r) = r"
  by (simp_all add: pr_push_def tsa_packet_ring_push_def pr_pop_def tsa_packet_ring_pop_def Let_def split_beta
      split: if_splits)

interpretation pr: fifo_simulation cr_push cr_pop cr_inv cr_contents cr_cap pr_push pr_pop pr_inv pr_cring
proof
  fix r x q assume i: "pr_inv r"
  then have c: "cr_inv (pr_cring r)" and l: "length (pr_buffer r) = length (pr_timestamps r)"
    by (simp_all add: pr_inv_def)
  note pu = pr_push_cring [OF l, of x, symmetric] and po = pr_pop_cring [OF i, symmetric]
  show "cr_inv (pr_cring r)" by (rule c)
  show "cr_push x (pr_cring r) = (True, q) \<Longrightarrow> \<exists>r'. pr_push x r = (True, r') \<and> pr_cring r' = q \<and> pr_inv r'"
    using cr.push_invar [OF c, of x] pr_op_frame(1-3) [of x r] i
    by (cases "pr_push x r") (auto simp: pu pr_inv_def)
  show "cr_push x (pr_cring r) = (False, q) \<Longrightarrow> pr_push x r = (False, r)"
    using pr_op_frame(4) [of x r] by (cases "pr_push x r") (auto simp: pu)
  show "cr_pop (pr_cring r) = (Some x, q) \<Longrightarrow> \<exists>r'. pr_pop r = (Some x, r') \<and> pr_cring r' = q \<and> pr_inv r'"
    using cr.pop_invar [OF c] pr_op_frame(5-7) [of r] i
    by (cases "pr_pop r") (auto simp: po pr_inv_def)
  show "cr_pop (pr_cring r) = (None, q) \<Longrightarrow> pr_pop r = (None, r)"
    using pr_op_frame(8) [of r] by (cases "pr_pop r") (auto simp: po)
qed

section \<open>The 8-byte ring of tsp.c\<close>

record spsc_ring =
  sr_buffer :: "bytes list"
  sr_sz :: u64
  sr_head :: u64
  sr_tail :: u64

definition spsc_ring_create :: "u64 \<Rightarrow> bytes list \<Rightarrow> spsc_ring" where
  "spsc_ring_create sz junk = \<lparr>sr_buffer = junk, sr_sz = sz, sr_head = 0, sr_tail = 0\<rparr>"

definition spsc_ring_push :: "spsc_ring \<Rightarrow> bytes \<Rightarrow> int \<times> spsc_ring" where
  "spsc_ring_push r d = (if sr_sz r \<le> sr_head r - sr_tail r then (- 1, r)
     else (0, r\<lparr>sr_buffer := (sr_buffer r)[unat (sr_head r mod sr_sz r) := take 8 d], sr_head := sr_head r + 1\<rparr>))"

definition spsc_ring_pop :: "spsc_ring \<Rightarrow> int \<times> bytes option \<times> spsc_ring" where
  "spsc_ring_pop r = (if sr_head r = sr_tail r then (- 1, None, r)
     else (0, Some (sr_buffer r ! unat (sr_tail r mod sr_sz r)), r\<lparr>sr_tail := sr_tail r + 1\<rparr>))"

definition sr_push :: "bytes \<Rightarrow> spsc_ring \<Rightarrow> bool \<times> spsc_ring" where
  "sr_push x r = (case spsc_ring_push r x of (rc, r') \<Rightarrow> (rc = 0, r'))"

definition sr_pop :: "spsc_ring \<Rightarrow> bytes option \<times> spsc_ring" where
  "sr_pop r = snd (spsc_ring_pop r)"

definition sr_cring :: "spsc_ring \<Rightarrow> bytes cring" where
  "sr_cring r = \<lparr>cr_buf = sr_buffer r, cr_sz = sr_sz r, cr_head = sr_head r, cr_tail = sr_tail r\<rparr>"

text \<open>
  \<open>memcpy\<close> moves 8 bytes whatever the caller's size, so the ring is a queue of
  the first 8 bytes of each element.
\<close>

lemma sr_push_cring: "map_prod id sr_cring (sr_push x r) = cr_push (take 8 x) (sr_cring r)"
  by (simp add: sr_push_def spsc_ring_push_def cr_push_def sr_cring_def)

lemma sr_pop_cring: "map_prod id sr_cring (sr_pop r) = cr_pop (sr_cring r)"
  by (simp add: sr_pop_def spsc_ring_pop_def cr_pop_def sr_cring_def)

section \<open>Properties\<close>

text \<open>
  Any sequence of pushes and pops on an \<open>spsc_queue\<close> created for \<open>n\<close>
  packets behaves as a FIFO of capacity \<open>n\<close>: the accepted packets are the
  packets popped so far followed by those still queued, in order, at most \<open>n\<close>
  are queued, and \<open>spsc_queue_count\<close> is their number.
\<close>

theorem spsc_queue_fifo:
  assumes "spsc_queue_create n = Some q" "fifo_run spsc_queue_push spsc_queue_pop ops q = (ins, outs, q')"
  shows "ins = outs @ sq_contents q' \<and> length (sq_contents q') \<le> n \<and>
    spsc_queue_count q' = length (sq_contents q') \<and>
    (spsc_queue_is_full q' \<longleftrightarrow> length (sq_contents q') = n) \<and> (spsc_queue_is_empty q' \<longleftrightarrow> sq_contents q' = [])"
proof -
  have i: "sq_inv q" "sq_contents q = []" "sq_cap q = n"
    using assms(1) by (auto simp: spsc_queue_create_def sq_inv_def sq_contents_def spsc_queue_count_def sq_cap_def split: if_splits)
  note r = sq.run_conserves [OF i(1) assms(2)] sq.run_bounded [OF i(1) assms(2)]
  have "spsc_queue_is_empty q' \<longleftrightarrow> sq_contents q' = []"
    using r(2) sq_head_slot [OF r(2)]
    by (auto simp: spsc_queue_is_empty_def sq_contents_def spsc_queue_count_def sq_inv_def)
  moreover have "spsc_queue_is_full q' \<longleftrightarrow> length (sq_contents q') = n"
    using sq_full_iff [OF r(2)] r(3,4) i(3) by (auto simp: sq_contents_def)
  ultimately show ?thesis using r i by (simp add: sq_contents_def)
qed

theorem spsc_queue_fifo_witness:
  "sq_contents (snd (snd (fifo_run spsc_queue_push spsc_queue_pop
       [Push \<lparr>timestamp_ns = 1, pkt_stc_ns = 1, pkt_data = [1]\<rparr>, Push \<lparr>timestamp_ns = 2, pkt_stc_ns = 2, pkt_data = [2]\<rparr>, Pop]
       (the (spsc_queue_create 2))))) = [\<lparr>timestamp_ns = 2, pkt_stc_ns = 2, pkt_data = [2]\<rparr>]"
proof -
  let ?a = "\<lparr>timestamp_ns = 1, pkt_stc_ns = 1, pkt_data = [1]\<rparr> :: ts_packet"
  let ?b = "\<lparr>timestamp_ns = 2, pkt_stc_ns = 2, pkt_data = [2]\<rparr> :: ts_packet"
  let ?x = "fifo_run spsc_queue_push spsc_queue_pop [Push ?a, Push ?b, Pop] (the (spsc_queue_create 2))"
  have q: "spsc_queue_create 2 = Some (the (spsc_queue_create 2))" by (simp add: spsc_queue_create_def)
  have v: "fst ?x = [?a, ?b]" "fst (snd ?x) = [?a]" by code_simp+
  have "?x = (fst ?x, fst (snd ?x), snd (snd ?x))" by (simp only: prod.collapse)
  from spsc_queue_fifo [OF q this] have "fst ?x = fst (snd ?x) @ sq_contents (snd (snd ?x))" by (rule conjunct1)
  then show ?thesis unfolding v by (simp only: append.simps list.inject simp_thms)
qed



end
