(* ===== verification/Spsc_Concurrent.thy ===== *)
theory Spsc_Concurrent
  imports Tsa_Rings
begin

text \<open>
  The \<open>spsc_queue\<close> under its intended concurrency: one producer thread in
  \<open>spsc_queue_push\<close> and one consumer thread in \<open>spsc_queue_pop\<close>, interleaved at
  each access to shared memory. A producer's release store of \<open>head\<close> makes the
  preceding \<open>memcpy\<close> visible to the consumer's acquire load, and likewise for
  \<open>tail\<close>; so the interleavings of the atomic accesses and copies, in program
  order, are all the behaviours.
\<close>

section \<open>Program points and steps\<close>

text \<open>The local variables of a call that are still needed at each point.\<close>

datatype producer_pc =
    P_idle
  | P_loaded ts_packet nat \<comment> \<open>\<open>head\<close> was loaded\<close>
  | P_copy ts_packet nat \<comment> \<open>\<open>tail\<close> was loaded and there is space\<close>
  | P_publish ts_packet nat \<comment> \<open>the packet was copied\<close>

datatype consumer_pc =
    C_idle
  | C_loaded nat \<comment> \<open>\<open>tail\<close> was loaded\<close>
  | C_copy nat \<comment> \<open>\<open>head\<close> was loaded and there is a packet\<close>
  | C_publish ts_packet nat \<comment> \<open>the packet was copied out\<close>

record spsc_state =
  ss_q :: spsc_queue
  ss_prod :: producer_pc
  ss_cons :: consumer_pc
  ss_sent :: "ts_packet list" \<comment> \<open>packets of the pushes that returned true, in order\<close>
  ss_received :: "ts_packet list" \<comment> \<open>packets of the pops that returned true, in order\<close>

inductive spsc_step :: "spsc_state \<Rightarrow> spsc_state \<Rightarrow> bool" where
  load_head: "ss_prod s = P_idle \<Longrightarrow> spsc_step s (s\<lparr>ss_prod := P_loaded pkt (sq_head (ss_q s))\<rparr>)"
| found_full: "ss_prod s = P_loaded pkt head \<Longrightarrow> (head + 1) mod sq_size (ss_q s) = sq_tail (ss_q s) \<Longrightarrow>
    spsc_step s (s\<lparr>ss_prod := P_idle\<rparr>)"
| found_space: "ss_prod s = P_loaded pkt head \<Longrightarrow> (head + 1) mod sq_size (ss_q s) \<noteq> sq_tail (ss_q s) \<Longrightarrow>
    spsc_step s (s\<lparr>ss_prod := P_copy pkt head\<rparr>)"
| copy_in: "ss_prod s = P_copy pkt head \<Longrightarrow>
    spsc_step s (s\<lparr>ss_q := (ss_q s)\<lparr>sq_buffer := (sq_buffer (ss_q s))[head := pkt]\<rparr>, ss_prod := P_publish pkt head\<rparr>)"
| store_head: "ss_prod s = P_publish pkt head \<Longrightarrow>
    spsc_step s (s\<lparr>ss_q := (ss_q s)\<lparr>sq_head := (head + 1) mod sq_size (ss_q s)\<rparr>, ss_prod := P_idle, ss_sent := ss_sent s @ [pkt]\<rparr>)"
| load_tail: "ss_cons s = C_idle \<Longrightarrow> spsc_step s (s\<lparr>ss_cons := C_loaded (sq_tail (ss_q s))\<rparr>)"
| found_empty: "ss_cons s = C_loaded tail \<Longrightarrow> tail = sq_head (ss_q s) \<Longrightarrow> spsc_step s (s\<lparr>ss_cons := C_idle\<rparr>)"
| found_packet: "ss_cons s = C_loaded tail \<Longrightarrow> tail \<noteq> sq_head (ss_q s) \<Longrightarrow> spsc_step s (s\<lparr>ss_cons := C_copy tail\<rparr>)"
| copy_out: "ss_cons s = C_copy tail \<Longrightarrow>
    spsc_step s (s\<lparr>ss_cons := C_publish (sq_buffer (ss_q s) ! tail) tail\<rparr>)"
| store_tail: "ss_cons s = C_publish pkt tail \<Longrightarrow>
    spsc_step s (s\<lparr>ss_q := (ss_q s)\<lparr>sq_tail := (tail + 1) mod sq_size (ss_q s)\<rparr>, ss_cons := C_idle, ss_received := ss_received s @ [pkt]\<rparr>)"

inductive_cases spsc_stepE: "spsc_step s t"

definition spsc_start :: "spsc_queue \<Rightarrow> spsc_state" where
  "spsc_start q = \<lparr>ss_q = q, ss_prod = P_idle, ss_cons = C_idle, ss_sent = [], ss_received = []\<rparr>"

definition spsc_reachable :: "nat \<Rightarrow> spsc_state \<Rightarrow> bool" where
  "spsc_reachable n s \<longleftrightarrow> (\<exists>q. spsc_queue_create n = Some q \<and> spsc_step\<^sup>*\<^sup>* (spsc_start q) s)"

section \<open>The invariant\<close>

text \<open>
  Between the check and the publication each side still owns its end: there
  is space after the producer's \<open>head\<close> and a packet at the consumer's \<open>tail\<close>.
\<close>

definition prod_ok :: "spsc_state \<Rightarrow> bool" where
  "prod_ok s \<longleftrightarrow> (case ss_prod s of
      P_idle \<Rightarrow> True
    | P_loaded _ h \<Rightarrow> h = sq_head (ss_q s)
    | P_copy _ h \<Rightarrow> h = sq_head (ss_q s) \<and> \<not> spsc_queue_is_full (ss_q s)
    | P_publish x h \<Rightarrow> h = sq_head (ss_q s) \<and> \<not> spsc_queue_is_full (ss_q s) \<and> sq_buffer (ss_q s) ! h = x)"

definition cons_ok :: "spsc_state \<Rightarrow> bool" where
  "cons_ok s \<longleftrightarrow> (case ss_cons s of
      C_idle \<Rightarrow> True
    | C_loaded t \<Rightarrow> t = sq_tail (ss_q s)
    | C_copy t \<Rightarrow> t = sq_tail (ss_q s) \<and> t \<noteq> sq_head (ss_q s)
    | C_publish x t \<Rightarrow> t = sq_tail (ss_q s) \<and> t \<noteq> sq_head (ss_q s) \<and> sq_buffer (ss_q s) ! t = x)"

definition spsc_inv :: "spsc_state \<Rightarrow> bool" where
  "spsc_inv s \<longleftrightarrow> sq_inv (ss_q s) \<and> prod_ok s \<and> cons_ok s \<and> ss_sent s = ss_received s @ sq_contents (ss_q s)"

text \<open>The effect of the two publications on the queue's contents.\<close>

lemma publish_head:
  assumes "sq_inv q" "\<not> spsc_queue_is_full q" "sq_buffer q ! sq_head q = x"
  shows "sq_contents (q\<lparr>sq_head := (sq_head q + 1) mod sq_size q\<rparr>) = sq_contents q @ [x]"
proof -
  have "spsc_queue_count q < sq_cap q" using assms sq_full_iff by fastforce
  from sq_push_spec [OF assms(1) this, of x] obtain q' where
    "spsc_queue_push x q = (True, q')" "sq_contents q' = sq_contents q @ [x]" by blast
  moreover have "(sq_buffer q)[sq_head q := x] = sq_buffer q" using assms(3) by auto
  ultimately show ?thesis
    using assms(2) by (auto simp: spsc_queue_push_def spsc_queue_is_full_def Let_def split: if_splits)
qed

lemma publish_tail:
  assumes "sq_inv q" "sq_tail q \<noteq> sq_head q"
  shows "sq_contents q = sq_buffer q ! sq_tail q # sq_contents (q\<lparr>sq_tail := (sq_tail q + 1) mod sq_size q\<rparr>)"
proof -
  have "sq_contents q \<noteq> []" using assms by (auto simp: sq_contents_def spsc_queue_count_def sq_inv_def)
  then obtain x xs where c: "sq_contents q = x # xs" by (cases "sq_contents q") auto
  from sq_pop_spec [OF assms(1) this] obtain q' where
    "spsc_queue_pop q = (Some x, q')" "sq_contents q' = xs" by blast
  with c assms(2) show ?thesis by (auto simp: spsc_queue_pop_def Let_def)
qed

lemma copy_in_contents:
  assumes "sq_inv q" "\<not> spsc_queue_is_full q"
  shows "sq_contents (q\<lparr>sq_buffer := (sq_buffer q)[sq_head q := x]\<rparr>) = sq_contents q"
proof -
  have "spsc_queue_count q < sq_cap q" using assms sq_full_iff by fastforce
  then have "sq_head q \<noteq> (sq_tail q + i) mod sq_size q" if "i < spsc_queue_count q" for i
    using ring_slot_distinct [OF that sq_count_less [OF assms(1)], of "sq_tail q"] sq_head_slot [OF assms(1)]
    by simp
  moreover have "spsc_queue_count (q\<lparr>sq_buffer := b\<rparr>) = spsc_queue_count q" for b
    by (simp add: spsc_queue_count_def)
  ultimately show ?thesis by (simp add: sq_contents_def ring_slice_def nth_list_update_neq)
qed

lemma not_full_advance:
  assumes "sq_inv q" "\<not> spsc_queue_is_full q" "sq_tail q \<noteq> sq_head q"
  shows "\<not> spsc_queue_is_full (q\<lparr>sq_tail := (sq_tail q + 1) mod sq_size q\<rparr>)"
  using assms by (auto simp: sq_inv_def spsc_queue_is_full_def mod_Suc split: if_splits)

lemma not_empty_advance:
  assumes "sq_inv q" "\<not> spsc_queue_is_full q"
  shows "sq_tail q \<noteq> (sq_head q + 1) mod sq_size q"
  using assms by (auto simp: spsc_queue_is_full_def)

lemmas spsc_inv_defs = spsc_inv_def prod_ok_def cons_ok_def

lemma spsc_step_inv: "spsc_step s t \<Longrightarrow> spsc_inv s \<Longrightarrow> spsc_inv t"
proof (induction rule: spsc_step.induct)
  case (copy_in s pkt head)
  then show ?case
    by (auto simp: spsc_inv_defs copy_in_contents sq_inv_def spsc_queue_is_full_def nth_list_update
        split: producer_pc.splits consumer_pc.splits)
next
  case (store_head s pkt head)
  then show ?case
    using not_empty_advance [of "ss_q s"] publish_head [of "ss_q s" pkt]
    by (auto simp: spsc_inv_defs sq_inv_def split: producer_pc.splits consumer_pc.splits)
next
  case (store_tail s pkt tail)
  then show ?case
    using not_full_advance [of "ss_q s"] publish_tail [of "ss_q s"]
    by (auto simp: spsc_inv_defs sq_inv_def split: producer_pc.splits consumer_pc.splits)
qed (auto simp: spsc_inv_defs spsc_queue_is_full_def split: producer_pc.splits consumer_pc.splits)

lemma spsc_start_inv: "spsc_queue_create n = Some q \<Longrightarrow> spsc_inv (spsc_start q)"
  by (auto simp: spsc_inv_defs spsc_start_def spsc_queue_create_def sq_inv_def sq_contents_def spsc_queue_count_def
      split: if_splits)

lemma spsc_step_size: "spsc_step s t \<Longrightarrow> sq_size (ss_q t) = sq_size (ss_q s)"
  by (induction rule: spsc_step.induct) simp_all

lemma spsc_reachable_inv:
  assumes "spsc_reachable n s"
  shows "spsc_inv s" "sq_size (ss_q s) = n + 1"
proof -
  obtain q where q: "spsc_queue_create n = Some q" "spsc_step\<^sup>*\<^sup>* (spsc_start q) s"
    using assms by (auto simp: spsc_reachable_def)
  have "spsc_inv s \<and> sq_size (ss_q s) = sq_size q" using q(2)
    by (induction rule: rtranclp_induct)
      (use spsc_start_inv [OF q(1)] in \<open>auto simp: spsc_start_def spsc_step_size dest: spsc_step_inv\<close>)
  with q(1) show "spsc_inv s" "sq_size (ss_q s) = n + 1"
    by (auto simp: spsc_queue_create_def split: if_splits)
qed

section \<open>Property\<close>

text \<open>
  C3. In every interleaving of one producer with one consumer, the packets
  received are a prefix of the packets sent, in order and without loss or
  duplication; what is missing is exactly what the queue holds, at most its
  capacity; and the two sides never copy to and from the same slot at once.
\<close>

theorem spsc_concurrent_fifo:
  assumes "spsc_reachable n s"
  shows "ss_sent s = ss_received s @ sq_contents (ss_q s) \<and> length (sq_contents (ss_q s)) \<le> n \<and>
    (\<forall>x h t. ss_prod s = P_copy x h \<longrightarrow> ss_cons s = C_copy t \<longrightarrow> h \<noteq> t)"
proof -
  note i = spsc_reachable_inv [OF assms]
  then have "length (sq_contents (ss_q s)) \<le> n"
    using sq_count_less [of "ss_q s"] by (simp add: spsc_inv_def sq_contents_def)
  with i(1) show ?thesis by (auto simp: spsc_inv_defs)
qed

theorem spsc_concurrent_fifo_witness:
  "\<exists>s. spsc_reachable 1 s \<and> ss_sent s = [\<lparr>timestamp_ns = 5, pkt_stc_ns = 5, pkt_data = []\<rparr>] \<and>
     ss_sent s = ss_received s @ sq_contents (ss_q s)"
proof -
  let ?x = "\<lparr>timestamp_ns = 5, pkt_stc_ns = 5, pkt_data = []\<rparr> :: ts_packet"
  obtain q where q: "spsc_queue_create 1 = Some q" by (simp add: spsc_queue_create_def)
  then have h: "sq_head q = 0" "sq_tail q = 0" "sq_size q = 2" by (auto simp: spsc_queue_create_def)
  define s0 where "s0 = spsc_start q"
  define s1 where "s1 = s0\<lparr>ss_prod := P_loaded ?x 0\<rparr>"
  define s2 where "s2 = s1\<lparr>ss_prod := P_copy ?x 0\<rparr>"
  define s3 where "s3 = s2\<lparr>ss_q := q\<lparr>sq_buffer := (sq_buffer q)[0 := ?x]\<rparr>, ss_prod := P_publish ?x 0\<rparr>"
  define s4 where "s4 = s3\<lparr>ss_q := (ss_q s3)\<lparr>sq_head := 1\<rparr>, ss_prod := P_idle, ss_sent := [?x]\<rparr>"
  note d = s4_def s3_def s2_def s1_def s0_def spsc_start_def
  have "spsc_step s0 s1" using load_head [of s0 ?x] h by (simp add: d)
  moreover have "spsc_step s1 s2" using found_space [of s1 ?x 0] h by (simp add: d)
  moreover have "spsc_step s2 s3" using copy_in [of s2 ?x 0] by (simp add: d)
  moreover have "spsc_step s3 s4" using store_head [of s3 ?x 0] h by (simp add: d)
  ultimately have "spsc_reachable 1 s4"
    unfolding spsc_reachable_def s0_def [symmetric] using q s0_def by (meson converse_rtranclp_into_rtranclp rtranclp.rtrancl_refl)
  with spsc_concurrent_fifo [OF this] show ?thesis by (auto simp: d)
qed

end
