(* ===== verification/Packet_Pool.thy ===== *)
theory Packet_Pool
  imports Fifo_Spec
begin

text \<open>
  The index queue \<open>mpmc_queue.c\<close> and the reference-counted packet pool
  \<open>tsa_packet_pool.c\<close> on top of it. The operations are the sequential ones: a
  spin loop that another thread would have to end is the result \<open>None\<close>, and
  the lemmas show that it does not occur. The queue's counters are natural
  numbers: \<open>2 ^ 64\<close> operations are out of reach.
\<close>

section \<open>mpmc\_queue.c\<close>

record mpmc_queue =
  mq_capacity :: nat
  mq_head :: nat
  mq_tail :: nat
  mq_buffer :: "u32 list"

definition UINT32_MAX :: u32 where
  "UINT32_MAX = 0xFFFFFFFF"

text \<open>
  The loop \<open>while (power < capacity && power != 0) power *= 2\<close>. The first
  argument bounds the rounds; 64 doublings of 1 give 0, where the loop ends.
\<close>

fun round_power :: "nat \<Rightarrow> u64 \<Rightarrow> u64 \<Rightarrow> u64" where
  "round_power 0 pw capacity = pw"
| "round_power (Suc k) pw capacity =
    (if pw < capacity \<and> pw \<noteq> 0 then round_power k (pw * 2) capacity else pw)"

definition mpmc_queue_create :: "u64 \<Rightarrow> mpmc_queue" where
  "mpmc_queue_create capacity = (let
      c = unat (if capacity = 0 \<or> capacity AND (capacity - 1) \<noteq> 0 then round_power 64 1 capacity else capacity)
    in \<lparr>mq_capacity = c, mq_head = 0, mq_tail = 0, mq_buffer = replicate c UINT32_MAX\<rparr>)"

definition mpmc_queue_push :: "mpmc_queue \<Rightarrow> u32 \<Rightarrow> (bool \<times> mpmc_queue) option" where
  "mpmc_queue_push q item =
    (if mq_capacity q \<le> mq_head q - mq_tail q then Some (False, q)
     else let idx = mq_head q AND (mq_capacity q - 1) in
       if mq_buffer q ! idx = UINT32_MAX
       then Some (True, q\<lparr>mq_head := mq_head q + 1, mq_buffer := (mq_buffer q)[idx := item]\<rparr>) else None)"

definition mpmc_queue_pop :: "mpmc_queue \<Rightarrow> (u32 option \<times> mpmc_queue) option" where
  "mpmc_queue_pop q =
    (if mq_head q \<le> mq_tail q then Some (None, q)
     else let idx = mq_tail q AND (mq_capacity q - 1) in
       if mq_buffer q ! idx = UINT32_MAX then None
       else Some (Some (mq_buffer q ! idx),
                  q\<lparr>mq_tail := mq_tail q + 1, mq_buffer := (mq_buffer q)[idx := UINT32_MAX]\<rparr>))"

definition mq_contents :: "mpmc_queue \<Rightarrow> u32 list" where
  "mq_contents q = ring_slice (mq_buffer q) (mq_capacity q) (mq_tail q) (mq_head q - mq_tail q)"

text \<open>Occupied slots hold items, free slots hold the empty mark.\<close>

definition mq_inv :: "mpmc_queue \<Rightarrow> bool" where
  "mq_inv q \<longleftrightarrow> (\<exists>k. mq_capacity q = 2 ^ k) \<and> length (mq_buffer q) = mq_capacity q \<and>
     mq_tail q \<le> mq_head q \<and> mq_head q \<le> mq_tail q + mq_capacity q \<and>
     (\<forall>i < mq_capacity q. mq_buffer q ! ((mq_tail q + i) mod mq_capacity q) = UINT32_MAX
        \<longleftrightarrow> mq_head q - mq_tail q \<le> i)"

lemma and_capacity: "c = 2 ^ k \<Longrightarrow> n AND (c - Suc 0) = n mod c" for n c :: nat
  using take_bit_eq_mask [of k n] by (simp add: mask_eq_exp_minus_1 take_bit_eq_mod)

lemma mq_inv_index: "mq_inv q \<Longrightarrow> n AND (mq_capacity q - Suc 0) = n mod mq_capacity q"
  by (auto simp: mq_inv_def and_capacity)

lemma mq_cap_pos: "mq_inv q \<Longrightarrow> 0 < mq_capacity q"
  by (auto simp: mq_inv_def)

lemma mq_slot: "mq_inv q \<Longrightarrow> i < mq_capacity q \<Longrightarrow>
    (mq_buffer q ! ((mq_tail q + i) mod mq_capacity q) = UINT32_MAX) = (mq_head q - mq_tail q \<le> i)"
  by (simp add: mq_inv_def)

lemma mpmc_push_spec:
  assumes "mq_inv q" "x \<noteq> UINT32_MAX" "length (mq_contents q) < mq_capacity q"
  shows "\<exists>q'. mpmc_queue_push q x = Some (True, q') \<and> mq_contents q' = mq_contents q @ [x] \<and> mq_inv q' \<and>
    mq_capacity q' = mq_capacity q"
proof -
  let ?c = "mq_capacity q" and ?t = "mq_tail q" and ?n = "mq_head q - mq_tail q"
  have n: "?n < ?c" "mq_head q = ?t + ?n" using assms by (auto simp: mq_contents_def mq_inv_def)
  define q' where "q' = q\<lparr>mq_head := mq_head q + 1, mq_buffer := (mq_buffer q)[(?t + ?n) mod ?c := x]\<rparr>"
  have "mq_buffer q ! ((?t + ?n) mod ?c) = UINT32_MAX" using mq_slot [OF assms(1) n(1)] by simp
  then have p: "mpmc_queue_push q x = Some (True, q')"
    using n by (simp add: mpmc_queue_push_def mq_inv_index [OF assms(1)] Let_def q'_def)
  have l: "length (mq_buffer q) = ?c" using assms(1) by (simp add: mq_inv_def)
  have "mq_contents q' = mq_contents q @ [x]"
    using n l ring_slice_update [OF n(1) l, of ?t x] assms(1)
    by (simp add: mq_contents_def q'_def mq_inv_def Suc_diff_le)
  moreover have "(mq_buffer q' ! ((?t + i) mod ?c) = UINT32_MAX) = (Suc ?n \<le> i)" if "i < ?c" for i
  proof (cases "i = ?n")
    case True
    then show ?thesis using n l assms(2) mq_cap_pos [OF assms(1)] by (simp add: q'_def)
  next
    case False
    then have "(?t + i) mod ?c \<noteq> (?t + ?n) mod ?c"
      using ring_slot_distinct [of i ?n ?c ?t] ring_slot_distinct [of ?n i ?c ?t] that n(1) by fastforce
    then show ?thesis using mq_slot [OF assms(1) that] False by (auto simp: q'_def)
  qed
  then have "mq_inv q'" using assms(1) n l by (auto simp: mq_inv_def q'_def)
  ultimately show ?thesis using p by (simp add: q'_def)
qed

lemma mpmc_pop_spec:
  assumes "mq_inv q" "mq_contents q = x # xs"
  shows "\<exists>q'. mpmc_queue_pop q = Some (Some x, q') \<and> mq_contents q' = xs \<and> mq_inv q' \<and> mq_capacity q' = mq_capacity q"
proof -
  let ?c = "mq_capacity q" and ?t = "mq_tail q" and ?n = "mq_head q - mq_tail q"
  have n: "?n = Suc (length xs)" using arg_cong [OF assms(2), of length] by (simp add: mq_contents_def)
  have h: "?n \<le> ?c" "0 < ?c" "?t < mq_head q" using assms(1) mq_cap_pos n by (auto simp: mq_inv_def)
  have l: "length (mq_buffer q) = ?c" using assms(1) by (simp add: mq_inv_def)
  define q' where "q' = q\<lparr>mq_tail := ?t + 1, mq_buffer := (mq_buffer q)[?t mod ?c := UINT32_MAX]\<rparr>"
  have x: "mq_buffer q ! (?t mod ?c) = x" "ring_slice (mq_buffer q) ?c (Suc ?t) (length xs) = xs"
    using assms(2) n by (simp_all add: mq_contents_def ring_slice_Suc)
  moreover have "mq_buffer q ! (?t mod ?c) \<noteq> UINT32_MAX"
    using mq_slot [OF assms(1), of 0] h n by simp
  ultimately have p: "mpmc_queue_pop q = Some (Some x, q')"
    using h by (simp add: mpmc_queue_pop_def mq_inv_index [OF assms(1)] Let_def q'_def)
  have d: "(?t + Suc i) mod ?c \<noteq> ?t mod ?c" if "Suc i < ?c" for i
    using ring_slot_distinct [of 0 "Suc i" ?c ?t] that by simp
  have "mq_contents q' = xs"
  proof -
    have "ring_slice ((mq_buffer q)[?t mod ?c := UINT32_MAX]) ?c (Suc ?t) (length xs)
        = ring_slice (mq_buffer q) ?c (Suc ?t) (length xs)"
      unfolding ring_slice_def
    proof (intro map_cong refl nth_list_update_neq)
      fix i assume "i \<in> set [0..<length xs]"
      then show "?t mod ?c \<noteq> (Suc ?t + i) mod ?c" using d [of i] h n by simp
    qed
    moreover have "mq_head q - Suc ?t = length xs" using n by simp
    ultimately show ?thesis using x n by (simp add: mq_contents_def q'_def)
  qed
  moreover have "(mq_buffer q' ! ((Suc ?t + i) mod ?c) = UINT32_MAX) = (mq_head q - Suc ?t \<le> i)" if "i < ?c" for i
  proof (cases "Suc i = ?c")
    case True
    then have "(Suc ?t + i) mod ?c = ?t mod ?c" by (metis add_Suc_shift mod_add_self2)
    then show ?thesis using True l h by (simp add: q'_def)
  next
    case False
    then show ?thesis using mq_slot [OF assms(1), of "Suc i"] d [of i] that by (auto simp: q'_def)
  qed
  then have "mq_inv q'" using assms(1) h by (auto simp: mq_inv_def q'_def)
  ultimately show ?thesis using p by (simp add: q'_def)
qed

lemma mpmc_pop_empty: "mq_contents q = [] \<Longrightarrow> mpmc_queue_pop q = Some (None, q)"
  by (simp add: mq_contents_def mpmc_queue_pop_def)

lemma mq_contents_le: "mq_inv q \<Longrightarrow> length (mq_contents q) \<le> mq_capacity q"
  by (auto simp: mq_inv_def mq_contents_def)


lemma mpmc_full: "mq_capacity q \<le> length (mq_contents q) \<Longrightarrow> mpmc_queue_push q x = Some (False, q)"
  by (simp add: mq_contents_def mpmc_queue_push_def)

subsection \<open>The rounded capacity\<close>

lemma round_power_spec:
  assumes "unat c \<le> 2 ^ 63" "i + k = 64" "i = 0 \<or> 2 ^ (i - 1) < unat c" "i \<le> 63"
  shows "\<exists>j \<le> 63. round_power k (2 ^ i) c = 2 ^ j \<and> unat c \<le> 2 ^ j \<and> (j = 0 \<or> 2 ^ (j - 1) < unat c)"
  using assms
proof (induction k arbitrary: i)
  case 0
  then show ?case by simp
next
  case (Suc k)
  have "(2::nat) ^ i < 2 ^ 64" using Suc.prems by (intro power_strict_increasing) simp_all
  then have u: "unat (2 ^ i :: u64) = 2 ^ i" using Suc.prems unat_of_nat_small [of "2 ^ i", where 'a = 64] by simp
  show ?case
  proof (cases "(2 ^ i :: u64) < c")
    case True
    then have l: "2 ^ i < unat c" using u by (simp add: word_less_nat_alt)
    then have "(2::nat) ^ i < 2 ^ 63" using Suc.prems(1) by linarith
    then have "i < 63" by (rule power_less_imp_less_exp [rotated]) simp
    moreover have "(2 ^ i :: u64) \<noteq> 0" using u by (metis power_not_zero unat_0 zero_neq_numeral)
    moreover have "(2 ^ i :: u64) * 2 = 2 ^ Suc i" by simp
    ultimately show ?thesis using Suc.IH [of "Suc i"] Suc.prems True l by (simp add: mult.commute)
  next
    case False
    then have "unat c \<le> 2 ^ i" using u by (simp add: word_less_nat_alt)
    then show ?thesis using False Suc.prems by (intro exI [of _ i]) simp
  qed
qed

lemma and_pred_zero: "0 < n \<Longrightarrow> n AND (n - Suc 0) = 0 \<Longrightarrow> \<exists>k. n = 2 ^ k" for n :: nat
proof (induction n rule: less_induct)
  case (less n)
  show ?case
  proof (cases "even n")
    case True
    then obtain m where m: "n = 2 * m" by blast
    then have "(n - Suc 0) div 2 = m - Suc 0" "n div 2 = m" using less.prems by auto
    then have "m AND (m - Suc 0) = 0" using less.prems(2) and_nat_rec [of n "n - Suc 0"] by simp
    then obtain k where "m = 2 ^ k" using less.IH [of m] less.prems m by auto
    then show ?thesis using m by (intro exI [of _ "Suc k"]) simp
  next
    case False
    then have "(n - Suc 0) div 2 = n div 2" by (auto elim: oddE)
    then have "n div 2 = 0" using less.prems(2) and_nat_rec [of n "n - Suc 0"] by simp
    then show ?thesis using False by (intro exI [of _ 0]) (auto elim: oddE)
  qed
qed

lemma mpmc_create_spec:
  assumes "unat c \<le> 2 ^ 63"
  shows "mq_inv (mpmc_queue_create c) \<and> mq_contents (mpmc_queue_create c) = [] \<and>
    unat c \<le> mq_capacity (mpmc_queue_create c)"
proof -
  define d where "d = (if c = 0 \<or> c AND (c - 1) \<noteq> 0 then round_power 64 1 c else c)"
  have "(\<exists>k. unat d = 2 ^ k) \<and> unat c \<le> unat d"
  proof (cases "c = 0 \<or> c AND (c - 1) \<noteq> 0")
    case True
    then obtain j where j: "j \<le> 63" "d = 2 ^ j" "unat c \<le> 2 ^ j"
      using round_power_spec [of c 0 64] assms by (auto simp: d_def)
    then have "unat d = 2 ^ j"
      using unat_of_nat_small [of "2 ^ j", where 'a = 64] power_strict_increasing [of j 64 "2::nat"] by simp
    then show ?thesis using j by auto
  next
    case False
    then have "unat c AND (unat c - Suc 0) = unat (0::u64)"
      by (metis One_nat_def unat_minus_one unsigned_and_eq)
    then show ?thesis using False and_pred_zero [of "unat c"] by (simp add: d_def unat_gt_0)
  qed
  then show ?thesis
    by (auto simp: mpmc_queue_create_def Let_def mq_inv_def mq_contents_def d_def [symmetric])
qed

section \<open>tsa\_packet\_pool.c\<close>

record tsa_packet =
  pk_data :: bytes
  ingress_time_ns :: u64
  ref_count :: u32
  metadata :: "nat option"

record tsa_packet_pool =
  pool_packets :: "tsa_packet list"
  pool_capacity :: nat
  free_queue :: mpmc_queue

definition zero_packet :: tsa_packet where
  "zero_packet = \<lparr>pk_data = replicate 188 0, ingress_time_ns = 0, ref_count = 0, metadata = None\<rparr>"

fun pool_fill :: "mpmc_queue \<Rightarrow> nat list \<Rightarrow> mpmc_queue option" where
  "pool_fill q [] = Some q"
| "pool_fill q (i # is) = (case mpmc_queue_push q (of_nat i) of None \<Rightarrow> None | Some (_, q') \<Rightarrow> pool_fill q' is)"

definition tsa_packet_pool_create :: "u64 \<Rightarrow> tsa_packet_pool option" where
  "tsa_packet_pool_create capacity = map_option
     (\<lambda>q. \<lparr>pool_packets = replicate (unat capacity) zero_packet, pool_capacity = unat capacity, free_queue = q\<rparr>)
     (pool_fill (mpmc_queue_create capacity) [0..<unat capacity])"

definition tsa_packet_pool_acquire :: "tsa_packet_pool \<Rightarrow> (nat option \<times> tsa_packet_pool) option" where
  "tsa_packet_pool_acquire pool = (case mpmc_queue_pop (free_queue pool) of
      None \<Rightarrow> None
    | Some (None, q) \<Rightarrow> Some (None, pool\<lparr>free_queue := q\<rparr>)
    | Some (Some x, q) \<Rightarrow> let idx = unat x in Some (Some idx, pool\<lparr>free_queue := q,
        pool_packets := (pool_packets pool)[idx := (pool_packets pool ! idx)\<lparr>ref_count := 1, metadata := None\<rparr>]\<rparr>))"

definition tsa_packet_ref :: "tsa_packet_pool \<Rightarrow> nat \<Rightarrow> tsa_packet_pool" where
  "tsa_packet_ref pool i = pool\<lparr>pool_packets :=
     (pool_packets pool)[i := (pool_packets pool ! i)\<lparr>ref_count := ref_count (pool_packets pool ! i) + 1\<rparr>]\<rparr>"

definition tsa_packet_unref :: "tsa_packet_pool \<Rightarrow> nat \<Rightarrow> tsa_packet_pool option" where
  "tsa_packet_unref pool i = (let
      rc = ref_count (pool_packets pool ! i) - 1;
      pool' = pool\<lparr>pool_packets := (pool_packets pool)[i := (pool_packets pool ! i)\<lparr>ref_count := rc\<rparr>]\<rparr>
    in if rc = 0 then
         (case mpmc_queue_push (free_queue pool) (of_nat i) of None \<Rightarrow> None | Some (_, q) \<Rightarrow> Some (pool'\<lparr>free_queue := q\<rparr>))
       else Some pool')"

subsection \<open>The pool invariant\<close>

text \<open>
  The free queue holds, once each, exactly the packets whose count is zero.
\<close>

definition pool_rc :: "tsa_packet_pool \<Rightarrow> nat \<Rightarrow> nat" where
  "pool_rc p i = unat (ref_count (pool_packets p ! i))"

definition pool_inv :: "tsa_packet_pool \<Rightarrow> bool" where
  "pool_inv p \<longleftrightarrow> mq_inv (free_queue p) \<and> length (pool_packets p) = pool_capacity p \<and>
     pool_capacity p \<le> mq_capacity (free_queue p) \<and> pool_capacity p < 2 ^ 32 \<and>
     distinct (mq_contents (free_queue p)) \<and>
     set (mq_contents (free_queue p)) = of_nat ` {i. i < pool_capacity p \<and> pool_rc p i = 0}"

lemma unat_idx: "i < 2 ^ 32 \<Longrightarrow> unat (of_nat i :: u32) = i"
  by (rule unat_of_nat_small) simp

lemma of_nat_idx_inj: "i < 2 ^ 32 \<Longrightarrow> j < 2 ^ 32 \<Longrightarrow> (of_nat i :: u32) = of_nat j \<longleftrightarrow> i = j"
  by (metis unat_idx)

lemma idx_not_max: "i < n \<Longrightarrow> n < 2 ^ 32 \<Longrightarrow> (of_nat i :: u32) \<noteq> UINT32_MAX"
  using unat_of_nat_small [of i, where 'a = 32] by (auto simp: UINT32_MAX_def)

lemma pool_free_iff: "pool_inv p \<Longrightarrow> i < pool_capacity p \<Longrightarrow>
    of_nat i \<in> set (mq_contents (free_queue p)) \<longleftrightarrow> pool_rc p i = 0"
  using of_nat_idx_inj by (auto simp: pool_inv_def image_iff)

lemma pool_free_length:
  assumes "pool_inv p"
  shows "length (mq_contents (free_queue p)) = card {i. i < pool_capacity p \<and> pool_rc p i = 0}"
proof -
  have "inj_on (of_nat :: nat \<Rightarrow> u32) {i. i < pool_capacity p \<and> pool_rc p i = 0}"
    using assms of_nat_idx_inj by (auto simp: pool_inv_def inj_on_def)
  then show ?thesis using assms by (simp add: pool_inv_def distinct_card [symmetric] card_image)
qed

lemma pool_acquire_spec:
  assumes "pool_inv p"
  shows "\<exists>r p'. tsa_packet_pool_acquire p = Some (r, p') \<and> pool_inv p' \<and> pool_capacity p' = pool_capacity p \<and>
    (case r of None \<Rightarrow> p' = p \<and> (\<forall>i < pool_capacity p. pool_rc p i \<noteq> 0)
     | Some i \<Rightarrow> i < pool_capacity p \<and> pool_rc p i = 0 \<and> pool_rc p' i = 1 \<and> (\<forall>j. j \<noteq> i \<longrightarrow> pool_rc p' j = pool_rc p j))"
proof (cases "mq_contents (free_queue p)")
  case Nil
  then show ?thesis using assms mpmc_pop_empty [OF Nil] by (auto simp: tsa_packet_pool_acquire_def pool_inv_def)
next
  case (Cons x xs)
  have inv: "mq_inv (free_queue p)" using assms by (simp add: pool_inv_def)
  obtain q where q: "mpmc_queue_pop (free_queue p) = Some (Some x, q)" "mq_contents q = xs" "mq_inv q"
    "mq_capacity q = mq_capacity (free_queue p)" using mpmc_pop_spec [OF inv Cons] by blast
  obtain i where i: "i < pool_capacity p" "pool_rc p i = 0" "x = of_nat i"
    using assms Cons by (auto simp: pool_inv_def)
  have u: "unat x = i" using i assms unat_of_nat_small [of i, where 'a = 32] by (simp add: pool_inv_def)
  define p' where "p' = p\<lparr>free_queue := q,
    pool_packets := (pool_packets p)[i := (pool_packets p ! i)\<lparr>ref_count := 1, metadata := None\<rparr>]\<rparr>"
  have a: "tsa_packet_pool_acquire p = Some (Some i, p')" using q u by (simp add: tsa_packet_pool_acquire_def Let_def p'_def)
  have rc: "pool_rc p' j = (if j = i then 1 else pool_rc p j)" for j
    using i assms by (auto simp: pool_rc_def p'_def pool_inv_def nth_list_update)
  have "set xs = set (mq_contents (free_queue p)) - {x}" using assms Cons by (auto simp: pool_inv_def)
  also have "\<dots> = of_nat ` {j. j < pool_capacity p \<and> pool_rc p' j = 0}"
    using assms i of_nat_idx_inj by (auto simp: pool_inv_def rc image_iff)
  finally have "pool_inv p'" using assms q Cons by (simp add: pool_inv_def p'_def)
  then show ?thesis using a i rc by (simp add: p'_def)
qed

lemma pool_rc_set:
  "length (pool_packets p) = pool_capacity p \<Longrightarrow> i < pool_capacity p \<Longrightarrow>
    pool_rc (p\<lparr>pool_packets := (pool_packets p)[i := k]\<rparr>) j = (if j = i then unat (ref_count k) else pool_rc p j)"
  by (auto simp: pool_rc_def nth_list_update)

lemma pool_rc_queue [simp]: "pool_rc (p\<lparr>free_queue := q\<rparr>) = pool_rc p"
  by (simp add: pool_rc_def fun_eq_iff)

lemma pool_free_set:
  "i < n \<Longrightarrow> {j. j < n \<and> (if j = i then r else f j) = 0} =
    (if r = 0 then insert i {j. j < n \<and> f j = 0} else {j. j < n \<and> f j = 0} - {i})" for r :: nat
  by auto

lemma pool_inv_set:
  assumes "pool_inv p" "i < pool_capacity p" "p' = p\<lparr>pool_packets := (pool_packets p)[i := k]\<rparr>" "pool_rc p i \<noteq> 0"
    "ref_count k \<noteq> 0"
  shows "pool_inv p'"
proof -
  have "pool_rc p' j = (if j = i then unat (ref_count k) else pool_rc p j)" for j
    unfolding assms(3) by (rule pool_rc_set) (use assms(1,2) in \<open>auto simp: pool_inv_def\<close>)
  then have "{j. j < pool_capacity p \<and> pool_rc p' j = 0} = {j. j < pool_capacity p \<and> pool_rc p j = 0}"
    using assms(4,5) by (auto simp: unat_eq_zero)
  moreover have "free_queue p' = free_queue p" "pool_capacity p' = pool_capacity p"
    "length (pool_packets p') = length (pool_packets p)" by (simp_all add: assms(3))
  ultimately show ?thesis using assms(1) unfolding pool_inv_def by (simp only:)
qed

lemma pool_inv_free:
  assumes "pool_inv p" "i < pool_capacity p" "p' = p\<lparr>pool_packets := (pool_packets p)[i := k]\<rparr>" "pool_rc p i \<noteq> 0"
    "ref_count k = 0"
  shows "\<exists>q. mpmc_queue_push (free_queue p) (of_nat i) = Some (True, q) \<and> pool_inv (p'\<lparr>free_queue := q\<rparr>)"
proof -
  let ?F = "\<lambda>p. {j. j < pool_capacity p \<and> pool_rc p j = 0}"
  have pi: "mq_inv (free_queue p)" "pool_capacity p < 2 ^ 32" "pool_capacity p \<le> mq_capacity (free_queue p)"
    using assms(1) by (auto simp: pool_inv_def)
  have "?F p \<subseteq> {..<pool_capacity p}" "i \<in> {..<pool_capacity p}" "i \<notin> ?F p" using assms(2,4) by simp_all blast
  then have "?F p \<subset> {..<pool_capacity p}" by blast
  then have "card (?F p) < card {..<pool_capacity p}" by (rule psubset_card_mono [OF finite_lessThan])
  then have "card (?F p) < pool_capacity p" by simp
  then have "length (mq_contents (free_queue p)) < mq_capacity (free_queue p)"
    using pool_free_length [OF assms(1)] pi(3) by simp
  then obtain q where q: "mpmc_queue_push (free_queue p) (of_nat i) = Some (True, q)" "mq_inv q"
    "mq_contents q = mq_contents (free_queue p) @ [of_nat i]" "mq_capacity q = mq_capacity (free_queue p)"
    using mpmc_push_spec [OF pi(1) idx_not_max [OF assms(2) pi(2)]] by blast
  have "pool_rc p' j = (if j = i then unat (ref_count k) else pool_rc p j)" for j
    unfolding assms(3) by (rule pool_rc_set) (use assms(1,2) in \<open>auto simp: pool_inv_def\<close>)
  then have F: "?F (p'\<lparr>free_queue := q\<rparr>) = insert i (?F p)"
    using assms(2,3,5) by auto
  have n: "of_nat i \<notin> set (mq_contents (free_queue p))" using pool_free_iff [OF assms(1,2)] assms(4) by simp
  have p: "set (mq_contents (free_queue p)) = of_nat ` ?F p" "distinct (mq_contents (free_queue p))"
    "length (pool_packets p) = pool_capacity p" using assms(1) by (simp_all add: pool_inv_def)
  have "pool_inv (p'\<lparr>free_queue := q\<rparr>)" unfolding pool_inv_def F
  proof (intro conjI)
    show "set (mq_contents (free_queue (p'\<lparr>free_queue := q\<rparr>))) = of_nat ` insert i (?F p)"
      by (simp add: q(3) p(1))
    show "distinct (mq_contents (free_queue (p'\<lparr>free_queue := q\<rparr>)))" using n p(2) by (simp add: q(3))
  qed (use q(2,4) pi p(3) in \<open>simp_all add: assms(3)\<close>)
  then show ?thesis using q by blast
qed

lemma pool_ref_spec:
  assumes "pool_inv p" "i < pool_capacity p" "0 < pool_rc p i" "pool_rc p i < 2 ^ 32 - 1"
  shows "pool_inv (tsa_packet_ref p i) \<and> pool_capacity (tsa_packet_ref p i) = pool_capacity p \<and>
    (\<forall>j. pool_rc (tsa_packet_ref p i) j = (if j = i then Suc (pool_rc p i) else pool_rc p j))"
proof -
  have u: "unat (ref_count (pool_packets p ! i) + 1) = Suc (pool_rc p i)"
    using assms(4) by (simp add: pool_rc_def unat_word_ariths)
  then have "ref_count (pool_packets p ! i) + 1 \<noteq> 0" by (metis Zero_not_Suc unat_0)
  then have "pool_inv (tsa_packet_ref p i)"
    using pool_inv_set [OF assms(1,2) tsa_packet_ref_def] assms(3) by simp
  moreover have "pool_rc (tsa_packet_ref p i) j = (if j = i then Suc (pool_rc p i) else pool_rc p j)" for j
    unfolding tsa_packet_ref_def using assms(1,2) u by (subst pool_rc_set) (simp_all add: pool_inv_def)
  ultimately show ?thesis by (simp add: tsa_packet_ref_def)
qed

lemma pool_unref_spec:
  assumes "pool_inv p" "i < pool_capacity p" "0 < pool_rc p i"
  shows "\<exists>p'. tsa_packet_unref p i = Some p' \<and> pool_inv p' \<and> pool_capacity p' = pool_capacity p \<and>
    (\<forall>j. pool_rc p' j = (if j = i then pool_rc p i - 1 else pool_rc p j))"
proof -
  let ?rc = "ref_count (pool_packets p ! i) - 1"
  let ?k = "(pool_packets p ! i)\<lparr>ref_count := ?rc\<rparr>"
  define p1 where "p1 = p\<lparr>pool_packets := (pool_packets p)[i := ?k]\<rparr>"
  have "ref_count (pool_packets p ! i) \<noteq> 0" using assms(3) by (auto simp: pool_rc_def)
  then have u: "unat ?rc = pool_rc p i - 1" by (simp add: pool_rc_def unat_minus_one)
  have rc: "pool_rc p1 j = (if j = i then pool_rc p i - 1 else pool_rc p j)" for j
    unfolding p1_def using assms(1,2) u by (subst pool_rc_set) (simp_all add: pool_inv_def)
  show ?thesis
  proof (cases "?rc = 0")
    case False
    then have "tsa_packet_unref p i = Some p1" by (simp add: tsa_packet_unref_def Let_def p1_def)
    moreover have "pool_inv p1" using pool_inv_set [OF assms(1,2) p1_def] assms(3) False by simp
    ultimately show ?thesis using rc by (simp add: p1_def)
  next
    case True
    then obtain q where q: "mpmc_queue_push (free_queue p) (of_nat i) = Some (True, q)" "pool_inv (p1\<lparr>free_queue := q\<rparr>)"
      using pool_inv_free [OF assms(1,2) p1_def] assms(3) by auto
    then have "tsa_packet_unref p i = Some (p1\<lparr>free_queue := q\<rparr>)"
      using True by (simp add: tsa_packet_unref_def Let_def p1_def)
    then show ?thesis using q rc by (simp add: p1_def)
  qed
qed

lemma pool_fill_spec:
  assumes "mq_inv q" "mq_contents q = map of_nat [0..<k]" "k + n \<le> mq_capacity q" "k + n < 2 ^ 32"
  shows "\<exists>q'. pool_fill q [k..<k + n] = Some q' \<and> mq_inv q' \<and> mq_contents q' = map of_nat [0..<k + n] \<and>
    mq_capacity q' = mq_capacity q"
  using assms
proof (induction n arbitrary: q k)
  case (Suc n)
  obtain q1 where q1: "mpmc_queue_push q (of_nat k) = Some (True, q1)"
    "mq_contents q1 = map of_nat [0..<Suc k]" "mq_inv q1" "mq_capacity q1 = mq_capacity q"
    using mpmc_push_spec [OF Suc.prems(1) idx_not_max [of k "k + Suc n"]] Suc.prems by fastforce
  then show ?case using Suc.IH [of q1 "Suc k"] Suc.prems
    by (simp add: upt_conv_Cons [of k] del: upt_Suc)
qed auto

lemma pool_create_spec:
  assumes "unat c < 2 ^ 32"
  shows "\<exists>p. tsa_packet_pool_create c = Some p \<and> pool_inv p \<and> pool_capacity p = unat c \<and> (\<forall>i < unat c. pool_rc p i = 0)"
proof -
  have c: "unat c \<le> 2 ^ 63" using assms by simp
  obtain q where q: "pool_fill (mpmc_queue_create c) [0..<unat c] = Some q" "mq_inv q"
    "mq_contents q = map of_nat [0..<unat c]" "unat c \<le> mq_capacity q"
    using pool_fill_spec [of "mpmc_queue_create c" 0 "unat c"] mpmc_create_spec [OF c] assms by auto
  have "inj_on (of_nat :: nat \<Rightarrow> u32) {0..<unat c}"
    using of_nat_idx_inj assms by (auto simp: inj_on_def)
  then show ?thesis using q assms
    by (auto simp: tsa_packet_pool_create_def pool_inv_def pool_rc_def zero_packet_def distinct_map)
qed

subsection \<open>Clients of the pool\<close>

text \<open>
  A client run over a pool of \<open>c\<close> packets, with the number of references the
  clients hold on each packet. A client takes and drops references only on
  packets on which it holds one.
\<close>

inductive pool_reachable :: "u64 \<Rightarrow> tsa_packet_pool \<Rightarrow> (nat \<Rightarrow> nat) \<Rightarrow> bool" for c where
  create: "tsa_packet_pool_create c = Some p \<Longrightarrow> pool_reachable c p (\<lambda>_. 0)"
| acquire: "pool_reachable c p held \<Longrightarrow> tsa_packet_pool_acquire p = Some (Some i, p') \<Longrightarrow>
    pool_reachable c p' (held(i := Suc (held i)))"
| empty: "pool_reachable c p held \<Longrightarrow> tsa_packet_pool_acquire p = Some (None, p') \<Longrightarrow> pool_reachable c p' held"
| reference: "pool_reachable c p held \<Longrightarrow> 0 < held i \<Longrightarrow> held i < 2 ^ 32 - 1 \<Longrightarrow>
    pool_reachable c (tsa_packet_ref p i) (held(i := Suc (held i)))"
| unref: "pool_reachable c p held \<Longrightarrow> 0 < held i \<Longrightarrow> tsa_packet_unref p i = Some p' \<Longrightarrow>
    pool_reachable c p' (held(i := held i - 1))"

definition pool_matches :: "u64 \<Rightarrow> tsa_packet_pool \<Rightarrow> (nat \<Rightarrow> nat) \<Rightarrow> bool" where
  "pool_matches c p held \<longleftrightarrow> pool_inv p \<and> pool_capacity p = unat c \<and> (\<forall>i < unat c. pool_rc p i = held i) \<and>
     (\<forall>i. unat c \<le> i \<longrightarrow> held i = 0)"

lemma pool_held_bound: "pool_matches c p held \<Longrightarrow> 0 < held i \<Longrightarrow> i < pool_capacity p \<and> pool_rc p i = held i"
  unfolding pool_matches_def by (metis not_less less_numeral_extra(3))

lemma pool_reachable_matches:
  assumes "pool_reachable c p held" "unat c < 2 ^ 32"
  shows "pool_matches c p held"
  using assms(1)
proof (induction rule: pool_reachable.induct)
  case (create p)
  then show ?case using pool_create_spec [OF assms(2)] by (auto simp: pool_matches_def)
next
  case (acquire p held i p')
  then have "pool_inv p" by (simp add: pool_matches_def)
  from pool_acquire_spec [OF this] show ?case using acquire by (auto simp: pool_matches_def)
next
  case (empty p held p')
  then have "pool_inv p" by (simp add: pool_matches_def)
  from pool_acquire_spec [OF this] show ?case using empty by (auto simp: pool_matches_def)
next
  case (reference p held i)
  have b: "i < pool_capacity p" "pool_rc p i = held i" using pool_held_bound [OF reference.IH reference.hyps(2)] by simp_all
  have m: "pool_inv p" "pool_capacity p = unat c" "\<forall>j < unat c. pool_rc p j = held j" "\<forall>j. unat c \<le> j \<longrightarrow> held j = 0"
    using reference.IH by (simp_all add: pool_matches_def)
  show ?case using pool_ref_spec [OF m(1) b(1)] b m reference.hyps by (simp add: pool_matches_def)
next
  case (unref p held i p')
  have b: "i < pool_capacity p" "pool_rc p i = held i" using pool_held_bound [OF unref.IH unref.hyps(2)] by simp_all
  have m: "pool_inv p" "pool_capacity p = unat c" "\<forall>j < unat c. pool_rc p j = held j" "\<forall>j. unat c \<le> j \<longrightarrow> held j = 0"
    using unref.IH by (simp_all add: pool_matches_def)
  obtain p2 where p2: "tsa_packet_unref p i = Some p2" "pool_inv p2" "pool_capacity p2 = pool_capacity p"
    "\<forall>j. pool_rc p2 j = (if j = i then pool_rc p i - 1 else pool_rc p j)"
    using pool_unref_spec [OF m(1) b(1)] b(2) unref.hyps(2) by auto
  then show ?case using b m unref.hyps by (simp add: pool_matches_def)
qed


definition pool_example :: tsa_packet_pool where
  "pool_example = snd (the (tsa_packet_pool_acquire (the (tsa_packet_pool_create 2))))"


end
