(* ===== verification/Tsa_Float.thy ===== *)
theory Tsa_Float
  imports Tsa_Prelude "HOL-Library.Log_Nat"
begin

text \<open>
  Binary floating point as the source's \<open>float\<close> and \<open>double\<close> use it: a value
  is the rational number it denotes, and every operation rounds its exact
  result to the nearest value with \<open>p\<close> significant bits, ties to even.
  Infinities, NaN and the bounds of the exponent are left out; the code works
  with magnitudes far from them.
\<close>

definition round_half_even :: "rat \<Rightarrow> int" where
  "round_half_even x = (let f = \<lfloor>x\<rfloor>; d = x - of_int f in
     if d < 1 / 2 \<or> d = 1 / 2 \<and> even f then f else f + 1)"

text \<open>The exponent \<open>e\<close> of a positive number with \<open>2 powi e \<le> x < 2 powi (e + 1)\<close>.\<close>

definition binexp :: "rat \<Rightarrow> int" where
  "binexp x = (let (a, b) = quotient_of x; e = int (floorlog 2 (nat a)) - int (floorlog 2 (nat b)) in
     if 2 powi e \<le> x then e else e - 1)"

definition fl :: "nat \<Rightarrow> rat \<Rightarrow> rat" where
  "fl p x = (if x = 0 then 0 else let q = binexp \<bar>x\<bar> - int p + 1 in of_int (round_half_even (x / 2 powi q)) * 2 powi q)"

definition dbl :: "rat \<Rightarrow> rat" where "dbl = fl 53"
definition flt :: "rat \<Rightarrow> rat" where "flt = fl 24"

text \<open>Conversions to 64-bit integers truncate; a value out of range is undefined behaviour.\<close>

definition trunc :: "rat \<Rightarrow> int" where
  "trunc x = (if 0 \<le> x then \<lfloor>x\<rfloor> else \<lceil>x\<rceil>)"

definition to_u64 :: "rat \<Rightarrow> u64 option" where
  "to_u64 x = (if - 1 < x \<and> x < 2 ^ 64 then Some (of_int (trunc x)) else None)"

definition to_i64 :: "rat \<Rightarrow> int option" where
  "to_i64 x = (if - (2 ^ 63) - 1 < x \<and> x < 2 ^ 63 then Some (trunc x) else None)"

definition of_u64 :: "u64 \<Rightarrow> rat" where
  "of_u64 w = dbl (of_int (uint w))"

section \<open>Rounding\<close>

lemma round_half_even_near: "\<bar>of_int (round_half_even x) - x\<bar> \<le> 1 / 2"
proof -
  have "of_int \<lfloor>x\<rfloor> \<le> x" "x < of_int \<lfloor>x\<rfloor> + 1" by linarith+
  then show ?thesis by (auto simp: round_half_even_def Let_def)
qed

lemma round_half_even_int [simp]: "round_half_even (of_int n) = n"
  by (simp add: round_half_even_def)

lemma round_half_even_mono:
  assumes "x \<le> y"
  shows "round_half_even x \<le> round_half_even y"
proof (cases "\<lfloor>x\<rfloor> = \<lfloor>y\<rfloor>")
  case True
  then show ?thesis using assms by (auto simp: round_half_even_def Let_def)
next
  case False
  then have "\<lfloor>x\<rfloor> + 1 \<le> \<lfloor>y\<rfloor>" using assms floor_mono [OF assms] by linarith
  then show ?thesis by (auto simp: round_half_even_def Let_def)
qed

lemma flog_bounds:
  assumes "0 < a"
  shows "2 powi (int (floorlog 2 (nat a)) - 1) \<le> (of_int a :: rat)" "of_int a < (2 powi int (floorlog 2 (nat a)) :: rat)"
proof -
  let ?l = "floorlog 2 (nat a)"
  have b: "2 ^ (?l - 1) \<le> nat a" "nat a < 2 ^ ?l" using floorlog_bounds [of "nat a" 2] assms by simp_all
  have "?l \<noteq> 0" using assms by (simp add: floorlog_eq_zero_iff)
  then have e: "int ?l - 1 = int (?l - 1)" by simp
  have n: "(of_nat (nat a) :: rat) = of_int a" using assms by simp
  show "2 powi (int ?l - 1) \<le> (of_int a :: rat)"
    unfolding e using of_nat_mono [OF b(1), where 'a = rat] n by simp
  show "of_int a < (2 powi int ?l :: rat)"
    using b(2) n by (metis of_nat_less_iff of_nat_numeral of_nat_power power_int_of_nat)
qed

lemma powi_pos [simp]: "0 < (2 powi e :: rat)"
  by (simp add: zero_less_power_int)

lemma powi_add2: "(2 powi (a + b) :: rat) = 2 powi a * 2 powi b"
  by (simp add: power_int_add)

lemma powi_Suc: "(2 powi (e + 1) :: rat) = 2 * 2 powi e"
  by (simp add: power_int_add)

lemma powi_less: "(2 powi a :: rat) < 2 powi b \<longleftrightarrow> a < b"
  by (metis linorder_not_less one_less_numeral_iff power_int_increasing power_int_strict_increasing
      less_imp_le semiring_norm(76))

lemma powi_le: "(2 powi a :: rat) \<le> 2 powi b \<longleftrightarrow> a \<le> b"
  by (metis linorder_not_less powi_less)

lemma binexp_bounds:
  assumes "0 < x"
  shows "2 powi binexp x \<le> x" "x < 2 powi (binexp x + 1)"
proof -
  obtain a b where q: "quotient_of x = (a, b)" by (cases "quotient_of x")
  have b: "0 < b" using q by (rule quotient_of_denom_pos)
  have x: "x = of_int a / of_int b" using q by (rule quotient_of_div)
  have a: "0 < a" using assms b x by (simp add: zero_less_divide_iff)
  let ?k = "int (floorlog 2 (nat a))" and ?l = "int (floorlog 2 (nat b))"
  have e: "binexp x = (if 2 powi (?k - ?l) \<le> x then ?k - ?l else ?k - ?l - 1)" by (simp add: binexp_def q)
  have "x * 2 powi ?l \<ge> x * of_int b" using flog_bounds(2) [OF b] assms by simp
  moreover have "x * of_int b = of_int a" using b x by simp
  ultimately have "2 powi (?k - 1) \<le> x * 2 powi ?l" using flog_bounds(1) [OF a] by linarith
  then have "2 powi (?k - 1) / 2 powi ?l \<le> x" by (simp add: pos_divide_le_eq del: power_int_of_nat)
  then have lo: "2 powi (?k - ?l - 1) \<le> x" by (simp add: power_int_diff mult.commute)
  have "x * 2 powi (?l - 1) \<le> x * of_int b" using flog_bounds(1) [OF b] assms by simp
  then have "x * 2 powi (?l - 1) < 2 powi ?k" using flog_bounds(2) [OF a] \<open>x * of_int b = of_int a\<close> by linarith
  then have hi: "x < 2 powi (?k - ?l + 1)" by (simp add: power_int_diff power_int_add field_simps)
  show "2 powi binexp x \<le> x" using lo by (simp add: e)
  show "x < 2 powi (binexp x + 1)" using hi by (simp add: e)
qed

lemma binexp_unique:
  assumes "2 powi e \<le> x" "x < 2 powi (e + 1)"
  shows "binexp x = e"
proof -
  have "0 < x" using assms(1) powi_pos [of e] by linarith
  note b = binexp_bounds [OF this]
  have "(2 powi e :: rat) < 2 powi (binexp x + 1)" "(2 powi binexp x :: rat) < 2 powi (e + 1)"
    using b assms by linarith+
  then show ?thesis by (simp add: powi_less)
qed

lemma binexp_mono: "0 < x \<Longrightarrow> x \<le> y \<Longrightarrow> binexp x \<le> binexp y"
proof -
  assume "0 < x" "x \<le> y"
  then have "(2 powi binexp x :: rat) < 2 powi (binexp y + 1)"
    using binexp_bounds [of x] binexp_bounds [of y] by linarith
  then show ?thesis by (simp add: powi_less)
qed

lemma fl_0 [simp]: "fl p 0 = 0"
  by (simp add: fl_def)

lemma fl_error: "\<bar>fl p x - x\<bar> \<le> \<bar>x\<bar> / 2 ^ p"
proof (cases "x = 0")
  case False
  define q where "q = binexp \<bar>x\<bar> - int p + 1"
  let ?r = "of_int (round_half_even (x / 2 powi q)) :: rat"
  have "fl p x - x = (?r - x / 2 powi q) * 2 powi q" using False by (simp add: fl_def q_def Let_def field_simps)
  then have "\<bar>fl p x - x\<bar> = \<bar>?r - x / 2 powi q\<bar> * 2 powi q" by (simp add: abs_mult)
  also have "\<dots> \<le> 1 / 2 * 2 powi q" using round_half_even_near by (intro mult_right_mono) simp_all
  also have "\<dots> = 2 powi binexp \<bar>x\<bar> / 2 ^ p"
    by (simp add: q_def power_int_add power_int_diff field_simps)
  also have "\<dots> \<le> \<bar>x\<bar> / 2 ^ p" using binexp_bounds(1) [of "\<bar>x\<bar>"] False by (intro divide_right_mono) simp_all
  finally show ?thesis .
qed simp

lemma fl_int:
  assumes "\<bar>n\<bar> < 2 ^ p"
  shows "fl p (of_int n) = of_int n"
proof (cases "n = 0")
  case False
  define q where "q = binexp \<bar>of_int n\<bar> - int p + 1"
  have "(\<bar>of_int n\<bar> :: rat) < of_int (2 ^ p)" using assms by (metis of_int_abs of_int_less_iff)
  then have "(2 powi binexp \<bar>of_int n\<bar> :: rat) < 2 powi int p"
    using binexp_bounds(1) [of "\<bar>of_int n\<bar>"] False by simp
  then have "q \<le> 0" unfolding powi_less by (simp add: q_def)
  then have m: "of_int n / 2 powi q = (of_int (n * 2 ^ nat (- q)) :: rat)"
    by (simp add: power_int_def field_simps)
  then have "fl p (of_int n) = of_int (n * 2 ^ nat (- q)) * 2 powi q"
    using False unfolding fl_def Let_def q_def [symmetric] m round_half_even_int by simp
  then show ?thesis using m [symmetric] by simp
qed simp

lemma fl_nat: "n < 2 ^ p \<Longrightarrow> fl p (of_nat n) = of_nat n"
  using fl_int [of "int n" p] by simp

section \<open>Bounds\<close>

lemma dbl_lower: "0 \<le> x \<Longrightarrow> x * (1 - 1 / 2 ^ 53) \<le> dbl x"
  using fl_error [of 53 x] by (simp add: dbl_def field_simps abs_if split: if_splits)

lemma dbl_upper: "0 \<le> x \<Longrightarrow> dbl x \<le> x * (1 + 1 / 2 ^ 53)"
  using fl_error [of 53 x] by (simp add: dbl_def field_simps abs_if split: if_splits)

lemma dbl_nonneg: "0 \<le> x \<Longrightarrow> 0 \<le> dbl x"
proof -
  assume "0 \<le> x"
  moreover have "0 \<le> x * (1 - 1 / 2 ^ 53)" using \<open>0 \<le> x\<close> by (intro mult_nonneg_nonneg) simp_all
  ultimately show ?thesis using dbl_lower by fastforce
qed

lemma dbl_small_int: "\<bar>n\<bar> < 2 ^ 53 \<Longrightarrow> dbl (of_int n) = of_int n"
  by (simp add: dbl_def fl_int)

lemma dbl_numeral [simp]: "(numeral k :: int) < 2 ^ 53 \<Longrightarrow> dbl (numeral k) = numeral k"
  using dbl_small_int [of "numeral k"] by simp

lemma dbl_0 [simp]: "dbl 0 = 0"
  by (simp add: dbl_def)

lemma dbl_1 [simp]: "dbl 1 = 1"
  using dbl_small_int [of 1] by simp

lemma of_u64_small: "unat w < 2 ^ 53 \<Longrightarrow> of_u64 w = of_nat (unat w)"
proof -
  assume "unat w < 2 ^ 53"
  moreover have "of_int (uint w) = (of_nat (unat w) :: rat)" by (metis of_int_of_nat_eq uint_nat)
  ultimately show ?thesis using fl_nat [of "unat w" 53] by (simp add: of_u64_def dbl_def)
qed

end
