(* ===== verification/Tsa_Types.thy ===== *)
theory Tsa_Types
  imports Ts_Packet Tsa_Float
begin

text \<open>
  The data of the analyser (\<open>tsa_internal.h\<close>, \<open>tsa.h\<close>, \<open>tsa_alert.h\<close>,
  \<open>tsa_es_track.h\<close>) as records with the source's fields. An array indexed by
  PID is a function of the PID, a float or double is the rational number it
  holds. Fields that no modelled operation reads or writes are left out.
\<close>

section \<open>Enumerations\<close>

datatype tsa_op_mode = TSA_MODE_LIVE | TSA_MODE_REPLAY | TSA_MODE_FORENSIC | TSA_MODE_CERTIFICATION

datatype tsa_sync_state = TS_SYNC_HUNTING | TS_SYNC_CONFIRMING | TS_SYNC_LOCKED

datatype tsa_event_type =
    TSA_EVENT_SCTE35 | TSA_EVENT_SYNC_LOSS | TSA_EVENT_CRC_ERROR | TSA_EVENT_PAT_TIMEOUT
  | TSA_EVENT_PMT_TIMEOUT | TSA_EVENT_PID_ERROR | TSA_EVENT_CC_ERROR | TSA_EVENT_TRANSPORT_ERROR
  | TSA_EVENT_PTS_ERROR | TSA_EVENT_PCR_REPETITION | TSA_EVENT_PCR_JITTER | TSA_EVENT_SYNC_RECOVERED
  | TSA_EVENT_TSTD_UNDERFLOW | TSA_EVENT_TSTD_OVERFLOW | TSA_EVENT_TSTD_PREDICTIVE
  | TSA_EVENT_ENTROPY_FREEZE | TSA_EVENT_SDT_TIMEOUT | TSA_EVENT_NIT_TIMEOUT | TSA_EVENT_CC_MISSING
  | TSA_EVENT_CC_PRESENT | TSA_EVENT_SCRAMBLED | TSA_EVENT_PES_ERROR

datatype tsa_alert_id =
    TSA_ALERT_SYNC | TSA_ALERT_PAT | TSA_ALERT_PMT | TSA_ALERT_PID | TSA_ALERT_CC | TSA_ALERT_CRC
  | TSA_ALERT_PCR | TSA_ALERT_TRANSPORT | TSA_ALERT_PTS | TSA_ALERT_TSTD | TSA_ALERT_ENTROPY
  | TSA_ALERT_SDT | TSA_ALERT_NIT | TSA_ALERT_CC_MISSING

datatype tsa_alert_status = TSA_ALERT_STATE_OFF | TSA_ALERT_STATE_FIRING

text \<open>The enumeration order, for loops over all alerts and for the hash.\<close>

definition alert_ids :: "tsa_alert_id list" where
  "alert_ids = [TSA_ALERT_SYNC, TSA_ALERT_PAT, TSA_ALERT_PMT, TSA_ALERT_PID, TSA_ALERT_CC, TSA_ALERT_CRC,
     TSA_ALERT_PCR, TSA_ALERT_TRANSPORT, TSA_ALERT_PTS, TSA_ALERT_TSTD, TSA_ALERT_ENTROPY, TSA_ALERT_SDT,
     TSA_ALERT_NIT, TSA_ALERT_CC_MISSING]"

fun alert_code :: "tsa_alert_id \<Rightarrow> u32" where
  "alert_code TSA_ALERT_SYNC = 0" | "alert_code TSA_ALERT_PAT = 1" | "alert_code TSA_ALERT_PMT = 2"
| "alert_code TSA_ALERT_PID = 3" | "alert_code TSA_ALERT_CC = 4" | "alert_code TSA_ALERT_CRC = 5"
| "alert_code TSA_ALERT_PCR = 6" | "alert_code TSA_ALERT_TRANSPORT = 7" | "alert_code TSA_ALERT_PTS = 8"
| "alert_code TSA_ALERT_TSTD = 9" | "alert_code TSA_ALERT_ENTROPY = 10" | "alert_code TSA_ALERT_SDT = 11"
| "alert_code TSA_ALERT_NIT = 12" | "alert_code TSA_ALERT_CC_MISSING = 13"

section \<open>Structures\<close>

record tsa_alert_state =
  al_status :: tsa_alert_status
  last_occurrence_ns :: u64
  count_in_window :: u32
  needs_resolve_msg :: bool

record tsa_alert_aggregator_entry =
  ae_id :: tsa_alert_id
  ae_pid :: u16
  hit_count :: u32
  last_hit_ns :: u64
  window_start_ns :: u64
  ae_stream_id :: string
  ae_alert_name :: string
  ae_message :: string
  ae_active :: bool

record tsa_event =
  ev_type :: tsa_event_type
  ev_pid :: u16
  ev_timestamp_ns :: u64
  ev_value :: u64
  ev_absolute_byte_offset :: u64

record tsa_stream_info =
  si_pid :: u16
  si_stream_type :: u8

text \<open>\<open>streams[0 .. stream_count - 1]\<close> is the list \<open>pi_streams\<close>.\<close>

record tsa_program_info =
  program_number :: u16
  pmt_pid :: u16
  last_pmt_ns :: u64
  pi_streams :: "tsa_stream_info list"

record tsa_pcr_jitter_histogram =
  bucket_under_500ns :: u64
  bucket_500ns_1us :: u64
  bucket_1us_5us :: u64
  bucket_5us_10us :: u64
  bucket_10us_100us :: u64
  bucket_100us_1ms :: u64
  bucket_1ms_10ms :: u64
  bucket_over_10ms :: u64

record tsa_iat_histogram =
  bucket_under_1ms :: u64
  bucket_1_2ms :: u64
  bucket_2_5ms :: u64
  bucket_5_10ms :: u64
  bucket_10_100ms :: u64
  bucket_over_100ms :: u64

text \<open>The \<open>count\<close> fields of the alarms are the \<open>_alarm\<close> fields.\<close>

record tsa_tr101290_stats =
  sync_loss_alarm :: u64
  pat_error_alarm :: u64
  cc_error_alarm :: u64
  pmt_error_alarm :: u64
  pid_error_alarm :: u64
  crc_error_alarm :: u64
  pcr_repetition_error_alarm :: u64
  pcr_accuracy_error_alarm :: u64
  tstd_underflow_alarm :: u64
  tstd_overflow_alarm :: u64
  entropy_freeze_alarm :: u64
  alarm_sync_loss :: bool
  alarm_cc_error :: bool
  alarm_pcr_repetition_error :: bool
  alarm_pcr_accuracy_error :: bool
  alarm_crc_error :: bool
  physical_bitrate_bps :: u64
  physical_bitrate_peak_bps :: u64
  physical_bitrate_min_bps :: u64
  physical_bitrate_avg_bps :: u64
  pcr_bitrate_bps :: u64
  active_alerts_mask :: u64
  pcr_jitter_hist :: tsa_pcr_jitter_histogram
  sync_loss_count :: u64
  sync_byte_error_count :: u64
  pat_error_count :: u64
  pmt_error_count :: u64
  pid_error_count :: u64
  tei_error_count :: u64
  nit_error_count :: u64
  sdt_error_count :: u64
  pcr_jitter_max_ns :: u64
  pcr_repetition_max_ms :: u64
  iat_hist :: tsa_iat_histogram
  av_sync_ms :: int
  hls_download_errors :: u64
  hls_buffer_ms :: rat
  pid_packet_count :: "u16 \<Rightarrow> u64"
  pid_bitrate_bps :: "u16 \<Rightarrow> u64"
  pid_bitrate_peak_bps :: "u16 \<Rightarrow> u64"
  pid_bitrate_min_bps :: "u16 \<Rightarrow> u64"
  pid_bitrate_avg_bps :: "u16 \<Rightarrow> u64"
  pid_cc_errors :: "u16 \<Rightarrow> u64"
  pid_scrambled_packets :: "u16 \<Rightarrow> u64"
  pid_pes_errors :: "u16 \<Rightarrow> u64"
  pid_is_referenced :: "u16 \<Rightarrow> bool"
  latched_cc_error :: u64
  total_ts_packets :: u64
  alert_suppression_count :: u64
  internal_analyzer_drop :: u64

record tsa_srt_stats =
  rtt_ms :: int
  byte_rcv_buf :: u32
  effective_rcv_latency_ms :: u32
  retransmit_tax :: rat
  bytes_received :: u64
  bytes_lost :: u64

text \<open>\<open>pcr_pid_override\<close> belongs to the nested \<open>analysis\<close>, \<open>suppression_window_ms\<close> to \<open>alert\<close>.\<close>

record tsa_config =
  input_label :: string
  cfg_op_mode :: tsa_op_mode
  pcr_pid_override :: int
  forced_cbr_bitrate :: u64
  alert_filter_mask :: u64
  suppression_window_ms :: u32
  entropy_window_packets :: u32
  cfg_webhook_url :: string
  cfg_url :: string
  cfg_pcr_jitter :: bool
  pcr_ema_alpha :: rat

datatype out_call =
    Webhook_push string string string string  \<comment> \<open>stream, alert name, message, severity\<close>
  | Lua_push string u16 string
  | Lua_section u16 u8 bytes  \<comment> \<open>PID, table id, payload\<close>

section \<open>Elementary stream track\<close>

text \<open>
  A segment of the zero-copy accumulator: index of the packet in the pool,
  \<open>payload_offsets[i]\<close> and \<open>payload_lens[i]\<close>; the list is
  \<open>refs[0 .. ref_count - 1]\<close>.
\<close>

type_synonym pes_segment = "nat \<times> u16 \<times> u8"

record tsa_pes_acc =
  pes_segs :: "pes_segment list"
  pes_total_length :: u32
  last_pts_33 :: u64
  last_dts_33 :: u64
  pending_dts_ns :: u64
  pes_has_pts :: bool
  pes_has_dts :: bool
  current_frame_type :: "char option"

text \<open>Slot contents are pairs of \<open>dts_ns\<close> and \<open>size\<close>.\<close>

record tsa_au_queue =
  au_slots :: "(u64 \<times> u32) list"
  au_head :: u8
  au_tail :: u8

text \<open>\<open>gop_structure[0 .. gop_str_idx - 1]\<close> is the string \<open>gop_structure\<close>.\<close>

record tsa_video =
  v_width :: u16
  v_height :: u16
  v_profile :: u8
  v_level :: u8
  v_is_high_tier :: bool
  v_chroma_format :: u8
  v_bit_depth :: u8
  exact_fps :: rat
  gop_n :: u32
  gop_min :: u32
  gop_max :: u32
  gop_ms :: u32
  i_frames :: u64
  p_frames :: u64
  b_frames :: u64
  closed_gops :: u64
  open_gops :: u64
  v_is_closed_gop :: bool
  v_has_cea708 :: bool
  last_cc_seen_ns :: u64
  entropy_pkts_seen :: u32
  entropy_counts :: "u8 \<Rightarrow> u32"
  last_entropy :: rat
  gop_structure :: string
  i_frame_size_bytes :: u64
  p_frame_size_bytes :: u64
  b_frame_size_bytes :: u64
  encoder_latency_ms :: u64
  network_latency_ms :: u64
  last_sei_utc_ms :: u64

text \<open>\<open>ebur128_state\<close> says whether the pointer of that name is set.\<close>

record tsa_audio =
  sample_rate :: u32
  channels :: u8
  loudness_lufs :: rat
  peak_db :: rat
  ebur128_state :: bool

record tsa_splice =
  target_pts :: u64
  alignment_error_ns :: int
  pending_splice :: bool

text \<open>The \<open>_q64\<close> fill levels are 128-bit fixed point numbers with 64 fraction bits.\<close>

record tsa_tstd =
  eb_fill_q64 :: int
  tb_fill_q64 :: int
  mb_fill_q64 :: int
  last_leak_vstc :: u64
  last_underflow_dts :: u64
  leak_rate_eb :: u64
  leak_rate_rx :: u64
  time_to_underflow_ms :: int
  time_to_overflow_ms :: int

record tsa_es_track =
  es_pid :: u16
  es_stream_type :: u8
  es_pes :: tsa_pes_acc
  es_au_q :: tsa_au_queue
  es_video :: tsa_video
  es_audio :: tsa_audio
  es_scte35 :: tsa_splice
  es_tstd :: tsa_tstd
  last_pts_val :: u64
  last_pts_vstc :: u64
  last_pcr_ns :: u64
  pts_rollover_offset :: u64
  pts_jitter_q64 :: int
  pts_offset_ms_avg :: rat
  pts_offset_ms_max :: rat
  pts_jitter_ms_peak :: rat
  pts_count :: u64
  last_seen_ns :: u64
  last_seen_vstc :: u64
  last_cc :: u8
  ignore_next_cc :: bool

section \<open>Limits\<close>

definition MAX_EVENT_QUEUE :: nat where "MAX_EVENT_QUEUE = 1024"
definition MAX_PROGRAMS :: nat where "MAX_PROGRAMS = 16"
definition MAX_STREAMS_PER_PROG :: nat where "MAX_STREAMS_PER_PROG = 32"
definition MAX_ACTIVE_PIDS :: nat where "MAX_ACTIVE_PIDS = 128"
definition TS_PID_MAX :: nat where "TS_PID_MAX = 8192"
definition TSA_LABEL_MAX :: nat where "TSA_LABEL_MAX = 512"

lemmas tsa_limits = MAX_EVENT_QUEUE_def MAX_PROGRAMS_def MAX_STREAMS_PER_PROG_def MAX_ACTIVE_PIDS_def
  TS_PID_MAX_def TSA_LABEL_MAX_def

section \<open>Zeroed structures\<close>

definition zero_config :: tsa_config where
  "zero_config = \<lparr>input_label = [], cfg_op_mode = TSA_MODE_LIVE, pcr_pid_override = 0,
     forced_cbr_bitrate = 0, alert_filter_mask = 0,
     suppression_window_ms = 0, entropy_window_packets = 0, cfg_webhook_url = [], cfg_url = [], cfg_pcr_jitter = False,
     pcr_ema_alpha = 0\<rparr>"

definition zero_alert :: tsa_alert_state where
  "zero_alert = \<lparr>al_status = TSA_ALERT_STATE_OFF, last_occurrence_ns = 0, count_in_window = 0, needs_resolve_msg = False\<rparr>"

definition zero_entry :: tsa_alert_aggregator_entry where
  "zero_entry = \<lparr>ae_id = TSA_ALERT_SYNC, ae_pid = 0, hit_count = 0, last_hit_ns = 0, window_start_ns = 0,
     ae_stream_id = [], ae_alert_name = [], ae_message = [], ae_active = False\<rparr>"

definition zero_event :: tsa_event where
  "zero_event = \<lparr>ev_type = TSA_EVENT_SCTE35, ev_pid = 0, ev_timestamp_ns = 0, ev_value = 0, ev_absolute_byte_offset = 0\<rparr>"

definition zero_stats :: tsa_tr101290_stats where
  "zero_stats = \<lparr>sync_loss_alarm = 0, pat_error_alarm = 0, cc_error_alarm = 0, pmt_error_alarm = 0, pid_error_alarm = 0,
     crc_error_alarm = 0, pcr_repetition_error_alarm = 0, pcr_accuracy_error_alarm = 0, tstd_underflow_alarm = 0,
     tstd_overflow_alarm = 0, entropy_freeze_alarm = 0, alarm_sync_loss = False, alarm_cc_error = False,
     alarm_pcr_repetition_error = False, alarm_pcr_accuracy_error = False, alarm_crc_error = False,
     physical_bitrate_bps = 0, physical_bitrate_peak_bps = 0, physical_bitrate_min_bps = 0,
     physical_bitrate_avg_bps = 0, pcr_bitrate_bps = 0, active_alerts_mask = 0,
     pcr_jitter_hist = \<lparr>bucket_under_500ns = 0, bucket_500ns_1us = 0, bucket_1us_5us = 0, bucket_5us_10us = 0,
       bucket_10us_100us = 0, bucket_100us_1ms = 0, bucket_1ms_10ms = 0, bucket_over_10ms = 0\<rparr>,
     sync_loss_count = 0, sync_byte_error_count = 0, pat_error_count = 0, pmt_error_count = 0, pid_error_count = 0,
     tei_error_count = 0, nit_error_count = 0, sdt_error_count = 0, pcr_jitter_max_ns = 0, pcr_repetition_max_ms = 0,
     iat_hist = \<lparr>bucket_under_1ms = 0, bucket_1_2ms = 0, bucket_2_5ms = 0, bucket_5_10ms = 0,
       bucket_10_100ms = 0, bucket_over_100ms = 0\<rparr>,
     av_sync_ms = 0, hls_download_errors = 0, hls_buffer_ms = 0,
     pid_packet_count = (\<lambda>_. 0), pid_bitrate_bps = (\<lambda>_. 0), pid_bitrate_peak_bps = (\<lambda>_. 0),
     pid_bitrate_min_bps = (\<lambda>_. 0), pid_bitrate_avg_bps = (\<lambda>_. 0), pid_cc_errors = (\<lambda>_. 0),
     pid_scrambled_packets = (\<lambda>_. 0), pid_pes_errors = (\<lambda>_. 0), pid_is_referenced = (\<lambda>_. False),
     latched_cc_error = 0, total_ts_packets = 0, alert_suppression_count = 0, internal_analyzer_drop = 0\<rparr>"

definition zero_decode :: ts_decode_result where
  "zero_decode = \<lparr>r_pid = 0, r_pusi = 0, r_af_len = 0, r_has_payload = False, r_has_pcr = False, r_payload_len = 0,
     r_cc = 0, r_scrambled = False, r_has_discontinuity = False, r_has_pes_header = False, r_has_pts = False,
     r_has_dts = False, r_pts = 0, r_dts = 0\<rparr>"

definition new_es_track :: "u16 \<Rightarrow> tsa_es_track" where
  "new_es_track i = \<lparr>es_pid = i, es_stream_type = 0,
     es_pes = \<lparr>pes_segs = [], pes_total_length = 0, last_pts_33 = 0x1FFFFFFFF, last_dts_33 = 0, pending_dts_ns = 0,
       pes_has_pts = False, pes_has_dts = False, current_frame_type = None\<rparr>,
     es_au_q = \<lparr>au_slots = replicate 32 (0, 0), au_head = 0, au_tail = 0\<rparr>,
     es_video = \<lparr>v_width = 0, v_height = 0, v_profile = 0, v_level = 0, v_is_high_tier = False, v_chroma_format = 0,
       v_bit_depth = 0, exact_fps = 0, gop_n = 0, gop_min = 0xFFFFFFFF, gop_max = 0, gop_ms = 0, i_frames = 0, p_frames = 0, b_frames = 0, closed_gops = 0, open_gops = 0,
       v_is_closed_gop = False, v_has_cea708 = False, last_cc_seen_ns = 0,
       entropy_pkts_seen = 0, entropy_counts = (\<lambda>_. 0), last_entropy = 0, gop_structure = [],
       i_frame_size_bytes = 0, p_frame_size_bytes = 0, b_frame_size_bytes = 0, encoder_latency_ms = 0,
       network_latency_ms = 0, last_sei_utc_ms = 0\<rparr>,
     es_audio = \<lparr>sample_rate = 0, channels = 0, loudness_lufs = 0, peak_db = 0, ebur128_state = False\<rparr>,
     es_scte35 = \<lparr>target_pts = 0xFFFFFFFFFFFFFFFF, alignment_error_ns = 0, pending_splice = False\<rparr>,
     es_tstd = \<lparr>eb_fill_q64 = 0, tb_fill_q64 = 0, mb_fill_q64 = 0, last_leak_vstc = 0, last_underflow_dts = 0,
       leak_rate_eb = 0, leak_rate_rx = 0, time_to_underflow_ms = 0, time_to_overflow_ms = 0\<rparr>,
     last_pts_val = 0, last_pts_vstc = 0, last_pcr_ns = 0, pts_rollover_offset = 0, pts_jitter_q64 = 0,
     pts_offset_ms_avg = 0, pts_offset_ms_max = 0, pts_jitter_ms_peak = 0, pts_count = 0, last_seen_ns = 0, last_seen_vstc = 0, last_cc = 0x10,
     ignore_next_cc = False\<rparr>"

end
