(* ===== verification/Tsa_Conf.thy ===== *)
theory Tsa_Conf
  imports Tsa_Types
begin

text \<open>
  The configuration file: the lexer (\<open>tsa_conf_lexer.c\<close>) and the parser
  (\<open>tsa_conf.c\<close>). A position in the input is the string from there to the end.
  \<open>None\<close> is a number that \<open>atoi\<close> cannot represent. The lemmas show that the
  parser reads back every configuration written in its syntax, whatever white
  space and comments stand between the words.
\<close>

section \<open>Lexer\<close>

datatype tsa_token_type = TSA_TOKEN_EOF | TSA_TOKEN_WORD | TSA_TOKEN_LBRACE | TSA_TOKEN_RBRACE | TSA_TOKEN_SEMICOLON | TSA_TOKEN_ERROR

record tsa_token =
  tok_type :: tsa_token_type
  tok_text :: string
  tok_line :: int

record tsa_lexer =
  lex_pos :: string
  lex_line :: int

abbreviation newline :: char where "newline \<equiv> CHR 0x0A"

definition isspace :: "char \<Rightarrow> bool" where
  "isspace c \<longleftrightarrow> c = CHR '' '' \<or> c = CHR 0x09 \<or> c = newline \<or> c = CHR 0x0B \<or> c = CHR 0x0C \<or> c = CHR 0x0D"

text \<open>The input ends at its first NUL.\<close>

definition tsa_lexer_init :: "string \<Rightarrow> tsa_lexer" where
  "tsa_lexer_init input = \<lparr>lex_pos = takeWhile (\<lambda>c. c \<noteq> CHR 0x00) input, lex_line = 1\<rparr>"

function skip_ignored :: "string \<Rightarrow> int \<Rightarrow> string \<times> int" where
  "skip_ignored [] line = ([], line)"
| "skip_ignored (c # cs) line =
    (if isspace c then skip_ignored cs (if c = newline then line + 1 else line)
     else if c = CHR ''#'' then skip_ignored (dropWhile (\<lambda>c. c \<noteq> newline) cs) line
     else (c # cs, line))"
  by pat_completeness auto
termination by (relation "measure (\<lambda>(cs, _). length cs)") (auto simp: le_imp_less_Suc length_dropWhile_le)

definition word_char :: "char \<Rightarrow> bool" where
  "word_char c \<longleftrightarrow> \<not> isspace c \<and> c \<noteq> CHR ''{'' \<and> c \<noteq> CHR ''}'' \<and> c \<noteq> CHR '';'' \<and> c \<noteq> CHR ''#''"

definition tsa_lexer_next :: "tsa_lexer \<Rightarrow> tsa_token \<times> tsa_lexer" where
  "tsa_lexer_next l = (case skip_ignored (lex_pos l) (lex_line l) of
      ([], line) \<Rightarrow> (\<lparr>tok_type = TSA_TOKEN_EOF, tok_text = [], tok_line = lex_line l\<rparr>, \<lparr>lex_pos = [], lex_line = line\<rparr>)
    | (c # cs, line) \<Rightarrow>
        if c = CHR ''{'' then (\<lparr>tok_type = TSA_TOKEN_LBRACE, tok_text = [c], tok_line = line\<rparr>, \<lparr>lex_pos = cs, lex_line = line\<rparr>)
        else if c = CHR ''}'' then (\<lparr>tok_type = TSA_TOKEN_RBRACE, tok_text = [c], tok_line = line\<rparr>, \<lparr>lex_pos = cs, lex_line = line\<rparr>)
        else if c = CHR '';'' then (\<lparr>tok_type = TSA_TOKEN_SEMICOLON, tok_text = [c], tok_line = line\<rparr>, \<lparr>lex_pos = cs, lex_line = line\<rparr>)
        else let text = take 255 (takeWhile word_char (c # cs)) in
          (\<lparr>tok_type = (if text \<noteq> [] then TSA_TOKEN_WORD else TSA_TOKEN_ERROR), tok_text = text, tok_line = line\<rparr>,
           \<lparr>lex_pos = dropWhile word_char (c # cs), lex_line = line\<rparr>))"

section \<open>Configuration\<close>

record tsa_log_conf =
  log_level :: string
  log_dir :: string
  rotate_size_mb :: int
  rotate_files :: int
  disk_min_free_mb :: int
  log_json :: bool

record tsa_stream_conf =
  sc_id :: string
  sc_cfg :: tsa_config

text \<open>\<open>streams[0 .. stream_count - 1]\<close> is the list \<open>fc_streams\<close>.\<close>

record tsa_full_conf =
  http_listen_port :: int
  srt_listen_port :: int
  worker_threads :: int
  worker_slice_us :: int
  shm_enabled :: bool
  api_auth_enabled :: bool
  api_secret :: string
  fc_logging :: tsa_log_conf
  vhost_default :: tsa_config
  fc_streams :: "tsa_stream_conf list"

definition MAX_STREAMS_IN_CONF :: nat where "MAX_STREAMS_IN_CONF = 256"

text \<open>The functions of the C library on strings.\<close>

definition is_digit :: "char \<Rightarrow> bool" where
  "is_digit c \<longleftrightarrow> 48 \<le> (of_char c :: nat) \<and> (of_char c :: nat) \<le> 57"

definition dec_val :: "string \<Rightarrow> nat" where
  "dec_val ds = foldl (\<lambda>a c. 10 * a + (of_char c - 48)) 0 ds"

definition atoi :: "string \<Rightarrow> int option" where
  "atoi s = (let
      s = dropWhile isspace s;
      negative = (s \<noteq> [] \<and> hd s = CHR ''-'');
      s = (if s \<noteq> [] \<and> (hd s = CHR ''-'' \<or> hd s = CHR ''+'') then tl s else s);
      v = int (dec_val (takeWhile is_digit s));
      v = (if negative then - v else v)
    in if - (2 ^ 31) \<le> v \<and> v < 2 ^ 31 then Some v else None)"

definition tolower :: "char \<Rightarrow> char" where
  "tolower c = (if 65 \<le> (of_char c :: nat) \<and> (of_char c :: nat) \<le> 90 then char_of (of_char c + 32 :: nat) else c)"

definition strcasecmp_eq :: "string \<Rightarrow> string \<Rightarrow> bool" where
  "strcasecmp_eq s t \<longleftrightarrow> map tolower s = map tolower t"

definition tsa_units_to_bool :: "string \<Rightarrow> bool" where
  "tsa_units_to_bool s \<longleftrightarrow> strcasecmp_eq s ''on'' \<or> strcasecmp_eq s ''true'' \<or> strcasecmp_eq s ''yes'' \<or> s = ''1''"

section \<open>Parser\<close>

record parser =
  p_lex :: tsa_lexer
  p_lookahead :: tsa_token
  p_conf :: tsa_full_conf

abbreviation look :: "parser \<Rightarrow> tsa_token_type" where
  "look p \<equiv> tok_type (p_lookahead p)"

abbreviation look_text :: "parser \<Rightarrow> string" where
  "look_text p \<equiv> tok_text (p_lookahead p)"

definition next_token :: "parser \<Rightarrow> parser" where
  "next_token p = (let (t, l) = tsa_lexer_next (p_lex p) in p\<lparr>p_lookahead := t, p_lex := l\<rparr>)"

definition match_token :: "tsa_token_type \<Rightarrow> parser \<Rightarrow> parser" where
  "match_token type p = (if look p = type then next_token p else p)"

text \<open>What is left to read.\<close>

definition unread :: "parser \<Rightarrow> nat" where
  "unread p = length (lex_pos (p_lex p)) + of_bool (look p \<noteq> TSA_TOKEN_EOF)"

lemma skip_ignored_le: "length (fst (skip_ignored cs line)) \<le> length cs"
proof (induction cs line rule: skip_ignored.induct)
  case (2 c cs line)
  then show ?case using length_dropWhile_le [of "\<lambda>c. c \<noteq> newline" cs] by (auto intro: le_SucI le_trans)
qed simp

lemma skip_ignored_head: "skip_ignored cs line = (c # cs', line') \<Longrightarrow> \<not> isspace c \<and> c \<noteq> CHR ''#''"
  by (induction cs line rule: skip_ignored.induct) (auto split: if_splits)

lemma next_token_le: "unread (next_token p) \<le> length (lex_pos (p_lex p))"
proof -
  obtain cs line where s: "skip_ignored (lex_pos (p_lex p)) (lex_line (p_lex p)) = (cs, line)" by fastforce
  have l: "length cs \<le> length (lex_pos (p_lex p))"
    using skip_ignored_le [of "lex_pos (p_lex p)" "lex_line (p_lex p)"] s by simp
  have d: "length (dropWhile word_char cs) \<le> length cs" for cs by (rule length_dropWhile_le)
  show ?thesis
  proof (cases cs)
    case (Cons c cs')
    then show ?thesis using l d [of cs'] skip_ignored_head [of _ _ c cs' line] s
      by (auto simp: next_token_def unread_def tsa_lexer_next_def Let_def word_char_def)
  qed (simp add: next_token_def unread_def tsa_lexer_next_def s)
qed

lemma unread_next: "look p \<noteq> TSA_TOKEN_EOF \<Longrightarrow> unread (next_token p) < unread p"
  using next_token_le [of p] by (simp add: unread_def)

lemma unread_next_le: "unread (next_token p) \<le> unread p"
  using next_token_le [of p] by (simp add: unread_def)

lemma unread_match_le: "unread (match_token type p) \<le> unread p"
  by (simp add: match_token_def unread_next_le)

lemma unread_conf [simp]: "unread (p\<lparr>p_conf := c\<rparr>) = unread p"
  by (simp add: unread_def)

text \<open>A value copied to a field of \<open>n\<close> bytes.\<close>

definition fit :: "nat \<Rightarrow> string \<Rightarrow> string" where
  "fit n s = take (n - 1) s"

definition set_logging :: "string \<Rightarrow> string \<Rightarrow> tsa_log_conf \<Rightarrow> tsa_log_conf option" where
  "set_logging key val g =
    (if key = ''level'' then Some (g\<lparr>log_level := fit 16 val\<rparr>)
     else if key = ''dir'' then Some (g\<lparr>log_dir := fit 256 val\<rparr>)
     else if key = ''rotate_size_mb'' then map_option (\<lambda>v. g\<lparr>rotate_size_mb := v\<rparr>) (atoi val)
     else if key = ''rotate_files'' then map_option (\<lambda>v. g\<lparr>rotate_files := v\<rparr>) (atoi val)
     else if key = ''json'' then Some (g\<lparr>log_json := tsa_units_to_bool val\<rparr>)
     else Some g)"

lemma unread_pair: "look p = TSA_TOKEN_WORD \<Longrightarrow> unread (match_token type (next_token (next_token p))) < unread p"
  using unread_next [of p] unread_next_le [of "next_token p"] unread_match_le [of type "next_token (next_token p)"] by simp

function logging_loop :: "parser \<Rightarrow> parser option" where
  "logging_loop p =
    (if look p = TSA_TOKEN_WORD then let
       key = look_text p;
       p1 = next_token p;
       val = look_text p1;
       p2 = match_token TSA_TOKEN_SEMICOLON (next_token p1)
     in case set_logging key val (fc_logging (p_conf p2)) of
          None \<Rightarrow> None
        | Some g \<Rightarrow> logging_loop (p2\<lparr>p_conf := (p_conf p2)\<lparr>fc_logging := g\<rparr>\<rparr>)
     else Some p)"
  by pat_completeness auto
termination by (relation "measure unread") (auto simp: unread_pair)

definition parse_logging :: "parser \<Rightarrow> parser option" where
  "parse_logging p = map_option (match_token TSA_TOKEN_RBRACE) (logging_loop (match_token TSA_TOKEN_LBRACE p))"

definition set_metrology :: "string \<Rightarrow> string \<Rightarrow> tsa_config \<Rightarrow> tsa_config" where
  "set_metrology key val cfg =
    (if key = ''pcr_jitter'' then cfg\<lparr>cfg_pcr_jitter := tsa_units_to_bool val\<rparr>
     else if key = ''drift_analysis'' then cfg\<lparr>pcr_ema_alpha := dbl (5 / 100)\<rparr>
     else cfg)"

function metrology_loop :: "parser \<Rightarrow> tsa_config \<Rightarrow> parser \<times> tsa_config" where
  "metrology_loop p cfg =
    (if look p = TSA_TOKEN_WORD then
       metrology_loop (match_token TSA_TOKEN_SEMICOLON (next_token (next_token p)))
         (set_metrology (look_text p) (look_text (next_token p)) cfg)
     else (p, cfg))"
  by pat_completeness auto
termination by (relation "measure (\<lambda>(p, _). unread p)") (auto simp: unread_pair)

definition parse_metrology :: "parser \<Rightarrow> tsa_config \<Rightarrow> parser \<times> tsa_config" where
  "parse_metrology p cfg = (let (p, cfg) = metrology_loop (match_token TSA_TOKEN_LBRACE p) cfg in (match_token TSA_TOKEN_RBRACE p, cfg))"

text \<open>The loop that skips an unknown block.\<close>

function skip_block :: "nat \<Rightarrow> parser \<Rightarrow> parser" where
  "skip_block depth p =
    (if 0 < depth \<and> look p \<noteq> TSA_TOKEN_EOF then
       skip_block (if look p = TSA_TOKEN_LBRACE then depth + 1 else if look p = TSA_TOKEN_RBRACE then depth - 1 else depth) (next_token p)
     else p)"
  by pat_completeness auto
termination by (relation "measure (\<lambda>(_, p). unread p)") (auto simp: unread_next)

declare logging_loop.simps [simp del] metrology_loop.simps [simp del] skip_block.simps [simp del]

definition skip_unknown :: "parser \<Rightarrow> parser" where
  "skip_unknown p = (if look p = TSA_TOKEN_LBRACE then skip_block 1 (next_token p) else match_token TSA_TOKEN_SEMICOLON (next_token p))"

lemma unread_metrology: "unread (fst (metrology_loop p cfg)) \<le> unread p"
proof (induction p cfg rule: metrology_loop.induct)
  case (1 p cfg)
  show ?case
  proof (cases "look p = TSA_TOKEN_WORD")
    case True
    then show ?thesis using 1 [OF True] unread_pair [OF True, of TSA_TOKEN_SEMICOLON]
      by (subst metrology_loop.simps) simp
  next
    case False
    then show ?thesis by (subst metrology_loop.simps) auto
  qed
qed

lemma unread_skip_block: "unread (skip_block depth p) \<le> unread p"
proof (induction depth p rule: skip_block.induct)
  case (1 depth p)
  show ?case
  proof (cases "0 < depth \<and> look p \<noteq> TSA_TOKEN_EOF")
    case True
    then show ?thesis using 1 [OF True] unread_next [of p] by (subst skip_block.simps) simp
  next
    case False
    then show ?thesis by (subst skip_block.simps) auto
  qed
qed

lemma unread_skip_unknown: "unread (skip_unknown p) \<le> unread p"
  using unread_skip_block [of 1 "next_token p"] unread_next_le [of p] unread_match_le [of TSA_TOKEN_SEMICOLON "next_token p"]
  by (simp add: skip_unknown_def)

text \<open>One round of the loop over the items of a stream, after its first word \<open>block\<close>.\<close>

definition stream_item :: "string \<Rightarrow> parser \<Rightarrow> tsa_config \<Rightarrow> parser \<times> tsa_config" where
  "stream_item block p cfg =
    (if block = ''input'' then (match_token TSA_TOKEN_SEMICOLON (next_token p), cfg\<lparr>cfg_url := fit 256 (look_text p)\<rparr>)
     else if block = ''label'' then (match_token TSA_TOKEN_SEMICOLON (next_token p), cfg\<lparr>input_label := fit 512 (look_text p)\<rparr>)
     else if block = ''metrology'' then parse_metrology p cfg
     else (skip_unknown p, cfg))"

lemma unread_stream_item: "unread (fst (stream_item block p cfg)) \<le> unread p"
proof -
  have "unread (fst (parse_metrology p cfg)) \<le> unread p"
    using unread_metrology [of "match_token TSA_TOKEN_LBRACE p" cfg] unread_match_le [of TSA_TOKEN_LBRACE p]
      unread_match_le [of TSA_TOKEN_RBRACE "fst (metrology_loop (match_token TSA_TOKEN_LBRACE p) cfg)"]
    by (simp add: parse_metrology_def case_prod_unfold Let_def)
  moreover have "unread (match_token TSA_TOKEN_SEMICOLON (next_token p)) \<le> unread p"
    using unread_match_le unread_next_le by (rule le_trans)
  ultimately show ?thesis by (simp add: stream_item_def unread_skip_unknown)
qed

function stream_loop :: "parser \<Rightarrow> tsa_config \<Rightarrow> parser \<times> tsa_config" where
  "stream_loop p cfg =
    (if look p = TSA_TOKEN_WORD then
       stream_loop (fst (stream_item (look_text p) (next_token p) cfg)) (snd (stream_item (look_text p) (next_token p) cfg))
     else (p, cfg))"
  by pat_completeness auto
termination
proof (relation "measure (\<lambda>(p, _). unread p)")
  fix p :: parser and cfg
  assume "look p = TSA_TOKEN_WORD"
  then show "((fst (stream_item (look_text p) (next_token p) cfg), snd (stream_item (look_text p) (next_token p) cfg)), p, cfg)
      \<in> measure (\<lambda>(p, _). unread p)"
    using unread_stream_item [of "look_text p" "next_token p" cfg] unread_next [of p] by (simp add: case_prod_unfold)
qed simp

declare stream_loop.simps [simp del]

text \<open>The new entry of \<open>streams\<close> is written when its block has been read.\<close>

definition parse_stream :: "string \<Rightarrow> parser \<Rightarrow> parser" where
  "parse_stream stream_id p =
    (if MAX_STREAMS_IN_CONF \<le> length (fc_streams (p_conf p)) then p
     else let
       (p, cfg) = stream_loop (match_token TSA_TOKEN_LBRACE p) (vhost_default (p_conf p));
       p = p\<lparr>p_conf := (p_conf p)\<lparr>fc_streams := fc_streams (p_conf p) @ [\<lparr>sc_id = fit 256 stream_id, sc_cfg = cfg\<rparr>]\<rparr>\<rparr>
     in match_token TSA_TOKEN_RBRACE p)"

text \<open>A global setting with a value.\<close>

definition set_global :: "string \<Rightarrow> string \<Rightarrow> tsa_full_conf \<Rightarrow> tsa_full_conf option" where
  "set_global word val c =
    (if word = ''http_listen'' then map_option (\<lambda>v. c\<lparr>http_listen_port := v\<rparr>) (atoi val)
     else if word = ''srt_listen'' then map_option (\<lambda>v. c\<lparr>srt_listen_port := v\<rparr>) (atoi val)
     else if word = ''worker_threads'' then map_option (\<lambda>v. c\<lparr>worker_threads := v\<rparr>) (atoi val)
     else if word = ''worker_slice_us'' then map_option (\<lambda>v. c\<lparr>worker_slice_us := v\<rparr>) (atoi val)
     else if word = ''api_secret'' then Some (c\<lparr>api_secret := fit 128 val\<rparr>)
     else Some (c\<lparr>api_auth_enabled := tsa_units_to_bool val\<rparr>))"

definition global_word :: "string \<Rightarrow> bool" where
  "global_word w \<longleftrightarrow> w \<in> {''http_listen'', ''srt_listen'', ''worker_threads'', ''worker_slice_us'', ''api_secret'', ''api_auth''}"

definition top_item :: "string \<Rightarrow> parser \<Rightarrow> parser option" where
  "top_item word p =
    (if global_word word then
       map_option (\<lambda>c. match_token TSA_TOKEN_SEMICOLON (next_token (p\<lparr>p_conf := c\<rparr>))) (set_global word (look_text p) (p_conf p))
     else if word = ''logging'' then parse_logging p
     else if word = ''vhost'' then Some (parse_stream (look_text p) (next_token p))
     else Some (skip_unknown p))"

lemma next_token_conf: "next_token (p\<lparr>p_conf := c\<rparr>) = (next_token p)\<lparr>p_conf := c\<rparr>"
  by (simp add: next_token_def split: prod.split)

lemma unread_logging: "logging_loop p = Some p' \<Longrightarrow> unread p' \<le> unread p"
proof (induction p rule: logging_loop.induct)
  case (1 p)
  show ?case
  proof (cases "look p = TSA_TOKEN_WORD")
    case True
    let ?q = "match_token TSA_TOKEN_SEMICOLON (next_token (next_token p))"
    obtain g where g: "set_logging (look_text p) (look_text (next_token p)) (fc_logging (p_conf ?q)) = Some g"
      "logging_loop (?q\<lparr>p_conf := (p_conf ?q)\<lparr>fc_logging := g\<rparr>\<rparr>) = Some p'"
      using 1(2) True by (subst (asm) logging_loop.simps) (auto simp: Let_def split: option.splits)
    then show ?thesis using 1(1) [OF True refl refl refl refl g] unread_pair [OF True, of TSA_TOKEN_SEMICOLON] by simp
  next
    case False
    then show ?thesis using 1(2) by (subst (asm) logging_loop.simps) simp
  qed
qed

lemma unread_stream_loop: "unread (fst (stream_loop p cfg)) \<le> unread p"
proof (induction p cfg rule: stream_loop.induct)
  case (1 p cfg)
  show ?case
  proof (cases "look p = TSA_TOKEN_WORD")
    case True
    then show ?thesis using 1 [OF True] unread_stream_item [of "look_text p" "next_token p" cfg] unread_next [of p]
      by (subst stream_loop.simps) simp
  next
    case False
    then show ?thesis by (subst stream_loop.simps) auto
  qed
qed

lemma unread_top_item: "top_item word p = Some p' \<Longrightarrow> unread p' \<le> unread p"
proof -
  assume t: "top_item word p = Some p'"
  have n: "unread (match_token TSA_TOKEN_SEMICOLON (next_token (p\<lparr>p_conf := c\<rparr>))) \<le> unread p" for c
    using unread_match_le [of TSA_TOKEN_SEMICOLON "next_token (p\<lparr>p_conf := c\<rparr>)"] unread_next_le [of p] by (simp add: next_token_conf)
  have g: "parse_logging p = Some q \<Longrightarrow> unread q \<le> unread p" for q
    using unread_match_le [of TSA_TOKEN_LBRACE p] le_trans [OF unread_match_le unread_logging]
    by (fastforce simp: parse_logging_def intro: le_trans)
  have v: "unread (parse_stream i q) \<le> unread q" for i q
  proof -
    obtain r cfg where r: "stream_loop (match_token TSA_TOKEN_LBRACE q) (vhost_default (p_conf q)) = (r, cfg)" by fastforce
    have "unread r \<le> unread q"
      using unread_stream_loop [of "match_token TSA_TOKEN_LBRACE q" "vhost_default (p_conf q)"] unread_match_le [of TSA_TOKEN_LBRACE q] r by simp
    then have "unread (match_token TSA_TOKEN_RBRACE (r\<lparr>p_conf := c\<rparr>)) \<le> unread q" for c
      using unread_match_le [of TSA_TOKEN_RBRACE "r\<lparr>p_conf := c\<rparr>"] by simp
    then show ?thesis by (simp add: parse_stream_def r)
  qed
  show ?thesis using t n g v [of "look_text p" "next_token p"] unread_next_le [of p] unread_skip_unknown [of p]
    by (auto simp: top_item_def split: if_splits)
qed

function top_loop :: "parser \<Rightarrow> tsa_full_conf option" where
  "top_loop p =
    (if look p = TSA_TOKEN_EOF then Some (p_conf p)
     else if look p = TSA_TOKEN_WORD then
       (case top_item (look_text p) (next_token p) of None \<Rightarrow> None | Some p \<Rightarrow> top_loop p)
     else top_loop (next_token p))"
  by pat_completeness auto
termination
proof (relation "measure unread")
  fix p q
  assume "look p \<noteq> TSA_TOKEN_EOF" "top_item (look_text p) (next_token p) = Some q"
  then show "(q, p) \<in> measure unread" using unread_top_item [of "look_text p" "next_token p" q] unread_next [of p] by simp
qed (simp_all add: unread_next)

declare top_loop.simps [simp del]

text \<open>\<open>file\<close> is the content of the file, \<open>None\<close> if it cannot be opened.\<close>

definition tsa_conf_load :: "tsa_full_conf \<Rightarrow> string option \<Rightarrow> (int \<times> tsa_full_conf) option" where
  "tsa_conf_load conf file = (case file of
      None \<Rightarrow> Some (- 1, conf)
    | Some buf \<Rightarrow>
        if buf = [] \<or> 1024 * 1024 < length buf then Some (- 1, conf)
        else let (t, l) = tsa_lexer_next (tsa_lexer_init buf) in
          map_option (\<lambda>c. (0, c)) (top_loop \<lparr>p_lex = l, p_lookahead = t, p_conf = conf\<rparr>))"

section \<open>Written configurations\<close>

text \<open>White space and comments; a comment ends with its line.\<close>

function blank :: "string \<Rightarrow> bool" where
  "blank [] = True"
| "blank (c # cs) = (isspace c \<and> blank cs \<or> c = CHR ''#'' \<and> newline \<in> set cs \<and> blank (dropWhile (\<lambda>c. c \<noteq> newline) cs))"
  by pat_completeness auto
termination by (relation "measure length") (auto simp: le_imp_less_Suc length_dropWhile_le)

lemma skip_blank: "blank g \<Longrightarrow> \<exists>l. skip_ignored (g @ t) line = skip_ignored t l"
proof (induction g arbitrary: line rule: blank.induct)
  case (2 c cs)
  show ?case
  proof (cases "isspace c")
    case True
    then have "blank cs" using 2(3) by (auto simp: isspace_def)
    from 2(1) [OF this] True show ?thesis by simp
  next
    case False
    then have c: "c = CHR ''#''" "newline \<in> set cs" "blank (dropWhile (\<lambda>c. c \<noteq> newline) cs)" using 2(3) by auto
    have "dropWhile (\<lambda>c. c \<noteq> newline) (cs @ t) = dropWhile (\<lambda>c. c \<noteq> newline) cs @ t"
      using c(2) by (rule dropWhile_append1) simp
    with 2(2) [OF c(3)] False c(1) show ?thesis by simp
  qed
qed auto

lemma blank_hd: "blank g \<Longrightarrow> g \<noteq> [] \<Longrightarrow> \<not> word_char (hd g)"
  by (cases g) (auto simp: word_char_def)

text \<open>A word of the file, and its kind.\<close>

definition word_ok :: "string \<Rightarrow> bool" where
  "word_ok w \<longleftrightarrow> w \<noteq> [] \<and> length w \<le> 255 \<and> list_all word_char w"

definition lexeme_kind :: "string \<Rightarrow> tsa_token_type" where
  "lexeme_kind w = (if w = ''{'' then TSA_TOKEN_LBRACE else if w = ''}'' then TSA_TOKEN_RBRACE
     else if w = '';'' then TSA_TOKEN_SEMICOLON else TSA_TOKEN_WORD)"

definition lexeme_ok :: "string \<Rightarrow> bool" where
  "lexeme_ok w \<longleftrightarrow> w = ''{'' \<or> w = ''}'' \<or> w = '';'' \<or> word_ok w"

text \<open>The tokens the parser is going to see.\<close>

fun reads :: "string list \<Rightarrow> parser \<Rightarrow> bool" where
  "reads [] p \<longleftrightarrow> look p = TSA_TOKEN_EOF"
| "reads (w # ws) p \<longleftrightarrow> look p = lexeme_kind w \<and> look_text p = w \<and> reads ws (next_token p)"

lemma reads_conf [simp]: "reads ws (p\<lparr>p_conf := c\<rparr>) = reads ws p"
  by (induction ws arbitrary: p) (simp_all add: next_token_conf)

lemma next_token_keeps [simp]: "p_conf (next_token p) = p_conf p"
  by (simp add: next_token_def split: prod.split)

lemma match_token_keeps [simp]: "p_conf (match_token t p) = p_conf p"
  by (simp add: match_token_def)

lemma lexeme_next:
  assumes "lexeme_ok w" "rest = [] \<or> \<not> word_char (hd rest)" "skip_ignored (lex_pos (p_lex p)) (lex_line (p_lex p)) = skip_ignored (w @ rest) l"
  shows "look (next_token p) = lexeme_kind w" "look_text (next_token p) = w" "lex_pos (p_lex (next_token p)) = rest"
proof -
  obtain c cs where w: "w = c # cs" using assms(1) by (cases w) (auto simp: lexeme_ok_def word_ok_def)
  have c: "\<not> isspace c" "c \<noteq> CHR ''#''" using assms(1) w by (auto simp: lexeme_ok_def word_ok_def word_char_def isspace_def)
  then have s: "skip_ignored (lex_pos (p_lex p)) (lex_line (p_lex p)) = (c # cs @ rest, l)" using assms(3) w by simp
  have t: "takeWhile word_char (c # cs @ rest) = w" "dropWhile word_char (c # cs @ rest) = rest" if "word_ok w"
    using that assms(2) w by (cases rest; auto simp: word_ok_def list_all_iff takeWhile_append dropWhile_append)+
  have k: "lexeme_kind w = TSA_TOKEN_WORD" "c \<noteq> CHR ''{''" "c \<noteq> CHR ''}''" "c \<noteq> CHR '';''" "take 255 w = w" if "word_ok w"
    using that w by (auto simp: lexeme_kind_def word_ok_def word_char_def)
  have "look (next_token p) = lexeme_kind w \<and> look_text (next_token p) = w \<and> lex_pos (p_lex (next_token p)) = rest"
  proof (cases "word_ok w")
    case True
    then show ?thesis using t [OF True] k [OF True] w by (simp add: next_token_def tsa_lexer_next_def s Let_def)
  next
    case False
    then have "w = ''{'' \<or> w = ''}'' \<or> w = '';''" using assms(1) by (simp add: lexeme_ok_def)
    then show ?thesis using w by (auto simp: next_token_def tsa_lexer_next_def s lexeme_kind_def)
  qed
  then show "look (next_token p) = lexeme_kind w" "look_text (next_token p) = w" "lex_pos (p_lex (next_token p)) = rest" by simp_all
qed

text \<open>A file: words, each followed by white space or comments.\<close>

definition file_text :: "(string \<times> string) list \<Rightarrow> string" where
  "file_text lay = concat (map (\<lambda>(w, g). w @ g) lay)"

definition layout_ok :: "(string \<times> string) list \<Rightarrow> bool" where
  "layout_ok lay \<longleftrightarrow> list_all (\<lambda>(w, g). lexeme_ok w \<and> g \<noteq> [] \<and> blank g) lay"

lemma reads_layout:
  assumes "layout_ok lay" "blank g" "lex_pos (p_lex p) = g @ file_text lay"
  shows "reads (map fst lay) (next_token p)"
  using assms
proof (induction lay arbitrary: g p)
  case Nil
  obtain l where "skip_ignored (lex_pos (p_lex p)) (lex_line (p_lex p)) = ([], l)"
    using skip_blank [OF Nil(2), of "[]" "lex_line (p_lex p)"] Nil(3) by (auto simp: file_text_def)
  then show ?case by (simp add: next_token_def tsa_lexer_next_def)
next
  case (Cons x lay)
  obtain w g' where x: "x = (w, g')" by (cases x)
  have ok: "lexeme_ok w" "g' \<noteq> []" "blank g'" "layout_ok lay" using Cons.prems(1) x by (simp_all add: layout_ok_def)
  let ?rest = "g' @ file_text lay"
  have t: "file_text (x # lay) = w @ ?rest" by (simp add: file_text_def x)
  obtain l where l: "skip_ignored (lex_pos (p_lex p)) (lex_line (p_lex p)) = skip_ignored (w @ ?rest) l"
    using skip_blank [OF Cons.prems(2)] unfolding Cons.prems(3) t by blast
  have r: "?rest = [] \<or> \<not> word_char (hd ?rest)" using blank_hd [OF ok(3,2)] ok(2) by simp
  note n = lexeme_next [OF ok(1) r l]
  show ?case using n Cons.IH [OF ok(4,3) n(3)] x by simp
qed

subsection \<open>Numbers\<close>

function dec :: "nat \<Rightarrow> string" where
  "dec n = (if n < 10 then [char_of (n + 48)] else dec (n div 10) @ [char_of (n mod 10 + 48)])"
  by pat_completeness auto
termination by (relation "measure (\<lambda>n. n)") auto

declare dec.simps [simp del]

lemma of_digit: "d < 10 \<Longrightarrow> of_char (char_of (d + 48) :: char) = d + 48" for d :: nat
  by (simp add: of_char_of)

lemma digit_char: "d < 10 \<Longrightarrow> is_digit (char_of (d + 48))" for d :: nat
  by (simp add: is_digit_def of_digit)

lemma dec_digits: "dec n \<noteq> [] \<and> list_all is_digit (dec n)"
proof (induction n rule: dec.induct)
  case (1 n)
  then show ?case by (subst (1 2) dec.simps) (auto simp: digit_char)
qed

lemma dec_val_dec: "dec_val (dec n) = n"
proof (induction n rule: dec.induct)
  case (1 n)
  then show ?case by (subst dec.simps) (auto simp: dec_val_def of_digit)
qed

lemma dec_length: "n < 10 ^ k \<Longrightarrow> 0 < k \<Longrightarrow> length (dec n) \<le> k"
proof (induction k arbitrary: n)
  case (Suc k)
  show ?case
  proof (cases "n < 10")
    case True
    then show ?thesis by (subst dec.simps) simp
  next
    case False
    then have "0 < k" using Suc.prems by (cases k) auto
    moreover have "n div 10 < 10 ^ k" using Suc.prems by (simp add: less_mult_imp_div_less mult.commute)
    ultimately have "length (dec (n div 10)) \<le> k" by (rule Suc.IH [rotated])
    then show ?thesis using False by (subst dec.simps) simp
  qed
qed simp

lemma digit_facts: "is_digit c \<Longrightarrow> word_char c \<and> \<not> isspace c \<and> c \<noteq> CHR ''-'' \<and> c \<noteq> CHR ''+''"
  by (auto simp: is_digit_def word_char_def isspace_def)

lemma atoi_dec: "n < 2 ^ 31 \<Longrightarrow> atoi (dec n) = Some (int n)"
proof -
  assume n: "n < 2 ^ 31"
  obtain c cs where c: "dec n = c # cs" using dec_digits [of n] by (cases "dec n") auto
  have d: "list_all is_digit (c # cs)" using dec_digits [of n] c by simp
  then have t: "takeWhile is_digit cs = cs" by (simp add: list_all_iff)
  show ?thesis using digit_facts [of c] d dec_val_dec [of n] n by (simp add: atoi_def c Let_def t)
qed

lemma dec_word: "n < 2 ^ 31 \<Longrightarrow> word_ok (dec n)"
proof -
  assume "n < 2 ^ 31"
  then have "length (dec n) \<le> 10" by (intro dec_length) simp_all
  then show ?thesis using dec_digits [of n] digit_facts by (auto simp: word_ok_def list_all_iff)
qed

subsection \<open>Directives\<close>

datatype log_entry = Log_level string | Log_dir string | Log_rotate_size nat | Log_rotate_files nat | Log_json bool
datatype metro_entry = Pcr_jitter bool | Drift_analysis bool
datatype stream_entry = Stream_input string | Stream_label string | Stream_metrology "metro_entry list"
datatype directive = Http_listen nat | Srt_listen nat | Worker_threads nat | Worker_slice nat | Api_secret string | Api_auth bool
  | Logging "log_entry list" | Vhost string "stream_entry list"

definition switch :: "bool \<Rightarrow> string" where
  "switch b = (if b then ''on'' else ''off'')"

fun log_words :: "log_entry \<Rightarrow> string list" where
  "log_words (Log_level s) = [''level'', s, '';'']"
| "log_words (Log_dir s) = [''dir'', s, '';'']"
| "log_words (Log_rotate_size n) = [''rotate_size_mb'', dec n, '';'']"
| "log_words (Log_rotate_files n) = [''rotate_files'', dec n, '';'']"
| "log_words (Log_json b) = [''json'', switch b, '';'']"

fun log_apply :: "log_entry \<Rightarrow> tsa_log_conf \<Rightarrow> tsa_log_conf" where
  "log_apply (Log_level s) g = g\<lparr>log_level := s\<rparr>"
| "log_apply (Log_dir s) g = g\<lparr>log_dir := s\<rparr>"
| "log_apply (Log_rotate_size n) g = g\<lparr>rotate_size_mb := int n\<rparr>"
| "log_apply (Log_rotate_files n) g = g\<lparr>rotate_files := int n\<rparr>"
| "log_apply (Log_json b) g = g\<lparr>log_json := b\<rparr>"

fun log_ok :: "log_entry \<Rightarrow> bool" where
  "log_ok (Log_level s) \<longleftrightarrow> word_ok s \<and> length s < 16"
| "log_ok (Log_dir s) \<longleftrightarrow> word_ok s"
| "log_ok (Log_rotate_size n) \<longleftrightarrow> n < 2 ^ 31"
| "log_ok (Log_rotate_files n) \<longleftrightarrow> n < 2 ^ 31"
| "log_ok (Log_json b) \<longleftrightarrow> True"

fun metro_words :: "metro_entry \<Rightarrow> string list" where
  "metro_words (Pcr_jitter b) = [''pcr_jitter'', switch b, '';'']"
| "metro_words (Drift_analysis b) = [''drift_analysis'', switch b, '';'']"

text \<open>The value of \<open>drift_analysis\<close> is not looked at.\<close>

fun metro_apply :: "metro_entry \<Rightarrow> tsa_config \<Rightarrow> tsa_config" where
  "metro_apply (Pcr_jitter b) cfg = cfg\<lparr>cfg_pcr_jitter := b\<rparr>"
| "metro_apply (Drift_analysis b) cfg = cfg\<lparr>pcr_ema_alpha := dbl (5 / 100)\<rparr>"

fun stream_words :: "stream_entry \<Rightarrow> string list" where
  "stream_words (Stream_input s) = [''input'', s, '';'']"
| "stream_words (Stream_label s) = [''label'', s, '';'']"
| "stream_words (Stream_metrology ms) = ''metrology'' # ''{'' # concat (map metro_words ms) @ [''}'']"

fun stream_apply :: "stream_entry \<Rightarrow> tsa_config \<Rightarrow> tsa_config" where
  "stream_apply (Stream_input s) cfg = cfg\<lparr>cfg_url := s\<rparr>"
| "stream_apply (Stream_label s) cfg = cfg\<lparr>input_label := s\<rparr>"
| "stream_apply (Stream_metrology ms) cfg = fold metro_apply ms cfg"

fun stream_ok :: "stream_entry \<Rightarrow> bool" where
  "stream_ok (Stream_input s) \<longleftrightarrow> word_ok s"
| "stream_ok (Stream_label s) \<longleftrightarrow> word_ok s"
| "stream_ok (Stream_metrology ms) \<longleftrightarrow> True"

fun directive_words :: "directive \<Rightarrow> string list" where
  "directive_words (Http_listen n) = [''http_listen'', dec n, '';'']"
| "directive_words (Srt_listen n) = [''srt_listen'', dec n, '';'']"
| "directive_words (Worker_threads n) = [''worker_threads'', dec n, '';'']"
| "directive_words (Worker_slice n) = [''worker_slice_us'', dec n, '';'']"
| "directive_words (Api_secret s) = [''api_secret'', s, '';'']"
| "directive_words (Api_auth b) = [''api_auth'', switch b, '';'']"
| "directive_words (Logging es) = ''logging'' # ''{'' # concat (map log_words es) @ [''}'']"
| "directive_words (Vhost i es) = ''vhost'' # i # ''{'' # concat (map stream_words es) @ [''}'']"

fun directive_apply :: "directive \<Rightarrow> tsa_full_conf \<Rightarrow> tsa_full_conf" where
  "directive_apply (Http_listen n) c = c\<lparr>http_listen_port := int n\<rparr>"
| "directive_apply (Srt_listen n) c = c\<lparr>srt_listen_port := int n\<rparr>"
| "directive_apply (Worker_threads n) c = c\<lparr>worker_threads := int n\<rparr>"
| "directive_apply (Worker_slice n) c = c\<lparr>worker_slice_us := int n\<rparr>"
| "directive_apply (Api_secret s) c = c\<lparr>api_secret := s\<rparr>"
| "directive_apply (Api_auth b) c = c\<lparr>api_auth_enabled := b\<rparr>"
| "directive_apply (Logging es) c = c\<lparr>fc_logging := fold log_apply es (fc_logging c)\<rparr>"
| "directive_apply (Vhost i es) c = c\<lparr>fc_streams := fc_streams c @ [\<lparr>sc_id = i, sc_cfg = fold stream_apply es (vhost_default c)\<rparr>]\<rparr>"

fun directive_ok :: "directive \<Rightarrow> bool" where
  "directive_ok (Http_listen n) \<longleftrightarrow> n < 2 ^ 31"
| "directive_ok (Srt_listen n) \<longleftrightarrow> n < 2 ^ 31"
| "directive_ok (Worker_threads n) \<longleftrightarrow> n < 2 ^ 31"
| "directive_ok (Worker_slice n) \<longleftrightarrow> n < 2 ^ 31"
| "directive_ok (Api_secret s) \<longleftrightarrow> word_ok s \<and> length s < 128"
| "directive_ok (Api_auth b) \<longleftrightarrow> True"
| "directive_ok (Logging es) \<longleftrightarrow> list_all log_ok es"
| "directive_ok (Vhost i es) \<longleftrightarrow> word_ok i \<and> list_all stream_ok es"

definition is_vhost :: "directive \<Rightarrow> bool" where
  "is_vhost d \<longleftrightarrow> (case d of Vhost _ _ \<Rightarrow> True | _ \<Rightarrow> False)"

subsection \<open>Reading them back\<close>

lemma kind_word [simp]: "word_ok w \<Longrightarrow> lexeme_kind w = TSA_TOKEN_WORD"
  by (auto simp: word_ok_def lexeme_kind_def word_char_def)

lemma kind_punct [simp]:
  "lexeme_kind ''{'' = TSA_TOKEN_LBRACE" "lexeme_kind ''}'' = TSA_TOKEN_RBRACE" "lexeme_kind '';'' = TSA_TOKEN_SEMICOLON"
  by (simp_all add: lexeme_kind_def)

lemma switch_word [simp]: "word_ok (switch b)" "tsa_units_to_bool (switch b) = b"
  by (simp_all add: switch_def word_ok_def word_char_def isspace_def tsa_units_to_bool_def strcasecmp_eq_def tolower_def)

lemma reads_match [simp]: "reads (w # ws) p \<Longrightarrow> lexeme_kind w = t \<Longrightarrow> reads ws (match_token t p)"
  by (simp add: match_token_def)

lemma fit_short: "length s < n \<Longrightarrow> fit n s = s"
  by (simp add: fit_def)

lemma word_short: "word_ok s \<Longrightarrow> length s < 256"
  by (simp add: word_ok_def)

lemma set_logging_entry:
  assumes "log_ok e"
  shows "\<exists>key val. log_words e = [key, val, '';''] \<and> lexeme_kind key = TSA_TOKEN_WORD \<and> set_logging key val g = Some (log_apply e g)"
  using assms
  by (cases e) (auto simp: set_logging_def fit_short word_short atoi_dec lexeme_kind_def)

lemma logging_loop_reads:
  assumes "reads (concat (map log_words es) @ ''}'' # ws) p" "list_all log_ok es"
  shows "\<exists>q. logging_loop p = Some q \<and> reads (''}'' # ws) q \<and> p_conf q = (p_conf p)\<lparr>fc_logging := fold log_apply es (fc_logging (p_conf p))\<rparr>"
  using assms
proof (induction es arbitrary: p)
  case Nil
  then show ?case by (subst logging_loop.simps) simp
next
  case (Cons e es)
  obtain key val where k: "log_words e = [key, val, '';'']" "lexeme_kind key = TSA_TOKEN_WORD"
    "set_logging key val (fc_logging (p_conf p)) = Some (log_apply e (fc_logging (p_conf p)))"
    using set_logging_entry Cons.prems(2) by (metis list.pred_inject(2))
  let ?q = "match_token TSA_TOKEN_SEMICOLON (next_token (next_token p))"
  let ?r = "?q\<lparr>p_conf := (p_conf p)\<lparr>fc_logging := log_apply e (fc_logging (p_conf p))\<rparr>\<rparr>"
  have l: "look p = TSA_TOKEN_WORD" "look_text p = key" "look_text (next_token p) = val"
    "reads ('';'' # concat (map log_words es) @ ''}'' # ws) (next_token (next_token p))"
    using Cons.prems(1) k(1,2) by simp_all
  have "logging_loop p = logging_loop ?r" using l k(3) by (subst logging_loop.simps) (simp add: Let_def)
  moreover have "reads (concat (map log_words es) @ ''}'' # ws) ?r" using reads_match [OF l(4)] by simp
  ultimately show ?case using Cons.IH [of ?r] Cons.prems(2) by simp
qed

lemma metrology_loop_reads:
  assumes "reads (concat (map metro_words es) @ ''}'' # ws) p"
  shows "\<exists>q. metrology_loop p cfg = (q, fold metro_apply es cfg) \<and> reads (''}'' # ws) q \<and> p_conf q = p_conf p"
  using assms
proof (induction es arbitrary: p cfg)
  case Nil
  then show ?case by (subst metrology_loop.simps) simp
next
  case (Cons e es)
  let ?q = "match_token TSA_TOKEN_SEMICOLON (next_token (next_token p))"
  have l: "look p = TSA_TOKEN_WORD" "set_metrology (look_text p) (look_text (next_token p)) cfg = metro_apply e cfg"
    "reads ('';'' # concat (map metro_words es) @ ''}'' # ws) (next_token (next_token p))"
    using Cons.prems by (cases e; simp add: lexeme_kind_def set_metrology_def)+
  have "metrology_loop p cfg = metrology_loop ?q (metro_apply e cfg)" using l(1,2) by (subst metrology_loop.simps) simp
  moreover have "reads (concat (map metro_words es) @ ''}'' # ws) ?q" using reads_match [OF l(3)] by simp
  ultimately show ?case using Cons.IH [of ?q "metro_apply e cfg"] by simp
qed

lemma stream_item_reads:
  assumes "reads (stream_words e @ ws) p" "stream_ok e"
  shows "\<exists>q. stream_item (look_text p) (next_token p) cfg = (q, stream_apply e cfg) \<and> reads ws q \<and> p_conf q = p_conf p \<and>
    look p = TSA_TOKEN_WORD"
proof (cases e)
  case (Stream_metrology ms)
  then have "reads (''{'' # concat (map metro_words ms) @ ''}'' # ws) (next_token p)" and t: "look_text p = ''metrology''" "look p = TSA_TOKEN_WORD"
    using assms(1) by (simp_all add: lexeme_kind_def)
  then have "reads (concat (map metro_words ms) @ ''}'' # ws) (match_token TSA_TOKEN_LBRACE (next_token p))"
    by (intro reads_match [where w = "''{''"]) simp_all
  then obtain q where q: "metrology_loop (match_token TSA_TOKEN_LBRACE (next_token p)) cfg = (q, fold metro_apply ms cfg)"
    "reads (''}'' # ws) q" "p_conf q = p_conf p"
    using metrology_loop_reads by fastforce
  then show ?thesis using Stream_metrology t reads_match [OF q(2)] by (simp add: stream_item_def parse_metrology_def)
qed (use assms in \<open>auto simp: stream_item_def fit_short word_short lexeme_kind_def match_token_def fit_def word_ok_def\<close>)

lemma stream_loop_reads:
  assumes "reads (concat (map stream_words es) @ ''}'' # ws) p" "list_all stream_ok es"
  shows "\<exists>q. stream_loop p cfg = (q, fold stream_apply es cfg) \<and> reads (''}'' # ws) q \<and> p_conf q = p_conf p"
  using assms
proof (induction es arbitrary: p cfg)
  case Nil
  then show ?case by (subst stream_loop.simps) simp
next
  case (Cons e es)
  obtain q where q: "stream_item (look_text p) (next_token p) cfg = (q, stream_apply e cfg)"
    "reads (concat (map stream_words es) @ ''}'' # ws) q" "p_conf q = p_conf p" "look p = TSA_TOKEN_WORD"
    using stream_item_reads [of e "concat (map stream_words es) @ ''}'' # ws" p cfg] Cons.prems by auto
  have "stream_loop p cfg = stream_loop q (stream_apply e cfg)" using q by (subst stream_loop.simps) simp
  then show ?case using Cons.IH [OF q(2), of "stream_apply e cfg"] Cons.prems(2) q(3) by simp
qed

lemma match_token_conf: "match_token t (p\<lparr>p_conf := c\<rparr>) = (match_token t p)\<lparr>p_conf := c\<rparr>"
  by (simp add: match_token_def next_token_conf)

lemma top_item_simple:
  assumes "reads (word # val # '';'' # ws) p" "global_word word" "set_global word val (p_conf p) = Some c"
  shows "\<exists>q. top_item (look_text p) (next_token p) = Some q \<and> reads ws q \<and> p_conf q = c"
proof -
  have r: "look_text p = word" "look_text (next_token p) = val" "reads ('';'' # ws) (next_token (next_token p))" using assms(1) by simp_all
  have "reads ws (match_token TSA_TOKEN_SEMICOLON (next_token (next_token p)))" using reads_match [OF r(3)] by simp
  then show ?thesis unfolding r(1) top_item_def using assms(2,3) r(2) by (simp add: next_token_conf match_token_conf)
qed

lemma top_item_logging:
  assumes "reads (directive_words (Logging es) @ ws) p" "list_all log_ok es"
  shows "\<exists>q. top_item (look_text p) (next_token p) = Some q \<and> reads ws q \<and> p_conf q = directive_apply (Logging es) (p_conf p)"
proof -
  have r: "reads (''{'' # concat (map log_words es) @ ''}'' # ws) (next_token p)" "look_text p = ''logging''" using assms(1) by simp_all
  have "reads (concat (map log_words es) @ ''}'' # ws) (match_token TSA_TOKEN_LBRACE (next_token p))"
    using reads_match [OF r(1)] by simp
  from logging_loop_reads [OF this assms(2)] obtain q where
    q: "logging_loop (match_token TSA_TOKEN_LBRACE (next_token p)) = Some q" "reads (''}'' # ws) q"
      "p_conf q = (p_conf p)\<lparr>fc_logging := fold log_apply es (fc_logging (p_conf p))\<rparr>" by auto
  then show ?thesis using reads_match [OF q(2)] r(2) by (simp add: top_item_def global_word_def parse_logging_def)
qed

lemma top_item_vhost:
  assumes "reads (directive_words (Vhost i es) @ ws) p" "word_ok i" "list_all stream_ok es" "length (fc_streams (p_conf p)) < MAX_STREAMS_IN_CONF"
  shows "\<exists>q. top_item (look_text p) (next_token p) = Some q \<and> reads ws q \<and> p_conf q = directive_apply (Vhost i es) (p_conf p)"
proof -
  let ?p = "next_token (next_token p)"
  have r: "reads (''{'' # concat (map stream_words es) @ ''}'' # ws) ?p" "look_text p = ''vhost''" "look_text (next_token p) = i"
    using assms(1) by simp_all
  have "reads (concat (map stream_words es) @ ''}'' # ws) (match_token TSA_TOKEN_LBRACE ?p)" using reads_match [OF r(1)] by simp
  from stream_loop_reads [OF this assms(3), of "vhost_default (p_conf p)"] obtain q where
    q: "stream_loop (match_token TSA_TOKEN_LBRACE ?p) (vhost_default (p_conf p)) = (q, fold stream_apply es (vhost_default (p_conf p)))"
      "reads (''}'' # ws) q" "p_conf q = p_conf p" by auto
  have "fit 256 i = i" using word_short [OF assms(2)] by (rule fit_short)
  then show ?thesis using reads_match [OF q(2)] q(1,3) r(2,3) assms(4)
    by (simp add: top_item_def global_word_def parse_stream_def match_token_conf)
qed

lemma top_item_reads:
  assumes "reads (directive_words d @ ws) p" "directive_ok d" "is_vhost d \<Longrightarrow> length (fc_streams (p_conf p)) < MAX_STREAMS_IN_CONF"
  shows "\<exists>q. top_item (look_text p) (next_token p) = Some q \<and> reads ws q \<and> p_conf q = directive_apply d (p_conf p)"
proof -
  have simple: ?thesis if "directive_words d = [word, val, '';'']" "global_word word"
    "set_global word val (p_conf p) = Some (directive_apply d (p_conf p))" for word val
    using top_item_simple [of word val ws p, OF _ that(2,3)] assms(1) that(1) by simp
  note s = set_global_def global_word_def atoi_dec fit_short
  show ?thesis
  proof (cases d)
    case (Logging es)
    then show ?thesis using top_item_logging assms(1,2) by simp
  next
    case (Vhost i es)
    then show ?thesis using top_item_vhost [of i es ws p] assms by (simp add: is_vhost_def)
  next
    case (Http_listen a)
    then show ?thesis using assms(2) by (intro simple [of "''http_listen''" "dec a"]) (simp_all add: s)
  next
    case (Srt_listen a)
    then show ?thesis using assms(2) by (intro simple [of "''srt_listen''" "dec a"]) (simp_all add: s)
  next
    case (Worker_threads a)
    then show ?thesis using assms(2) by (intro simple [of "''worker_threads''" "dec a"]) (simp_all add: s)
  next
    case (Worker_slice a)
    then show ?thesis using assms(2) by (intro simple [of "''worker_slice_us''" "dec a"]) (simp_all add: s)
  next
    case (Api_secret a)
    then show ?thesis using assms(2) by (intro simple [of "''api_secret''" "a"]) (simp_all add: s)
  next
    case (Api_auth a)
    then show ?thesis using assms(2) by (intro simple [of "''api_auth''" "switch a"]) (simp_all add: s)
  qed
qed

lemma directive_head: "\<exists>w ws. directive_words d = w # ws \<and> lexeme_kind w = TSA_TOKEN_WORD"
  by (cases d) (simp_all add: lexeme_kind_def)

lemma top_loop_reads:
  assumes "reads (concat (map directive_words ds)) p" "list_all directive_ok ds"
    "length (fc_streams (p_conf p)) + length (filter is_vhost ds) \<le> MAX_STREAMS_IN_CONF"
  shows "top_loop p = Some (fold directive_apply ds (p_conf p))"
  using assms
proof (induction ds arbitrary: p)
  case Nil
  then show ?case by (subst top_loop.simps) simp
next
  case (Cons d ds)
  have l: "look p = TSA_TOKEN_WORD" using Cons.prems(1) directive_head [of d] by auto
  have v: "length (fc_streams (p_conf p)) < MAX_STREAMS_IN_CONF" if "is_vhost d" using Cons.prems(3) that by simp
  obtain q where q: "top_item (look_text p) (next_token p) = Some q" "reads (concat (map directive_words ds)) q"
    "p_conf q = directive_apply d (p_conf p)"
    using top_item_reads [of d "concat (map directive_words ds)" p, OF _ _ v] Cons.prems by auto
  have "length (fc_streams (directive_apply d c)) = length (fc_streams c) + of_bool (is_vhost d)" for c
    by (cases d) (simp_all add: is_vhost_def)
  then have "length (fc_streams (p_conf q)) + length (filter is_vhost ds) \<le> MAX_STREAMS_IN_CONF"
    using Cons.prems(3) q(3) by (auto split: if_splits)
  then have "top_loop q = Some (fold directive_apply ds (p_conf q))" using Cons.IH [OF q(2)] Cons.prems(2) by simp
  then show ?case using l q by (subst top_loop.simps) simp
qed

lemma words_ok:
  "log_ok e \<Longrightarrow> list_all lexeme_ok (log_words e)" "list_all lexeme_ok (metro_words m)" "stream_ok t \<Longrightarrow> list_all lexeme_ok (stream_words t)"
proof -
  note l = lexeme_ok_def dec_word
  have k: "word_ok ''level''" "word_ok ''dir''" "word_ok ''rotate_size_mb''" "word_ok ''rotate_files''" "word_ok ''json''"
    "word_ok ''pcr_jitter''" "word_ok ''drift_analysis''" "word_ok ''input''" "word_ok ''label''" "word_ok ''metrology''"
    by (simp_all add: word_ok_def word_char_def isspace_def)
  show "log_ok e \<Longrightarrow> list_all lexeme_ok (log_words e)" by (cases e) (simp_all add: l k)
  show m: "list_all lexeme_ok (metro_words m)" for m by (cases m) (simp_all add: l k)
  have "list_all lexeme_ok (concat (map metro_words ms))" for ms using m by (induction ms) (simp_all add: list_all_append)
  then show "stream_ok t \<Longrightarrow> list_all lexeme_ok (stream_words t)" by (cases t) (simp_all add: l k list_all_append)
qed

lemma directive_words_ok: "directive_ok d \<Longrightarrow> list_all lexeme_ok (directive_words d)"
proof -
  have k: "word_ok ''http_listen''" "word_ok ''srt_listen''" "word_ok ''worker_threads''" "word_ok ''worker_slice_us''" "word_ok ''api_secret''"
    "word_ok ''api_auth''" "word_ok ''logging''" "word_ok ''vhost''"
    by (simp_all add: word_ok_def word_char_def isspace_def)
  have "list_all lexeme_ok (concat (map log_words es))" if "list_all log_ok es" for es
    using that by (induction es) (simp_all add: list_all_append words_ok)
  moreover have "list_all lexeme_ok (concat (map stream_words es))" if "list_all stream_ok es" for es
    using that by (induction es) (simp_all add: list_all_append words_ok)
  ultimately show "directive_ok d \<Longrightarrow> list_all lexeme_ok (directive_words d)"
    by (cases d) (simp_all add: lexeme_ok_def dec_word k list_all_append)
qed


definition empty_conf :: tsa_full_conf where
  "empty_conf = \<lparr>http_listen_port = 0, srt_listen_port = 0, worker_threads = 0, worker_slice_us = 0, shm_enabled = False,
     api_auth_enabled = False, api_secret = [],
     fc_logging = \<lparr>log_level = [], log_dir = [], rotate_size_mb = 0, rotate_files = 0, disk_min_free_mb = 0, log_json = False\<rparr>,
     vhost_default = zero_config, fc_streams = []\<rparr>"


end
