(* ===== verification/Tsa_Stream.thy ===== *)
theory Tsa_Stream
  imports Tsa_Prelude "HOL-Library.Monad_Syntax"
begin

text \<open>
  The tree of stream nodes (\<open>tsa_stream.c\<close>), the pipeline of stages
  (\<open>tsa_pipeline.c\<close>) and the model of a transport stream
  (\<open>tsa_stream_model.c\<close>). Nodes and stages refer to each other by address, so
  that the state is a store. The callbacks belong to the owners of the nodes:
  every call is recorded in its order, and a callback is taken not to change
  the tree. A parameter that may be NULL is left out.
\<close>

section \<open>Stream nodes\<close>

record tsa_stream =
  st_parent :: "nat option"
  st_on_ts :: bool  \<comment> \<open>whether the callback is set\<close>
  st_children :: "nat list"  \<comment> \<open>\<open>children[0 .. child_count - 1]\<close>\<close>
  st_join_pid :: bool
  st_leave_pid :: bool
  pid_list :: "u16 \<Rightarrow> u16"

datatype stream_call = On_ts nat bytes | Join_pid nat u16 | Leave_pid nat u16

record streams =
  node :: "nat \<Rightarrow> tsa_stream"
  calls_made :: "stream_call list"

definition TSA_MAX_PID :: nat where "TSA_MAX_PID = 8192"
definition TSA_MAX_STREAM_CHILDREN :: nat where "TSA_MAX_STREAM_CHILDREN = 16"

abbreviation set_node :: "nat \<Rightarrow> (tsa_stream \<Rightarrow> tsa_stream) \<Rightarrow> streams \<Rightarrow> streams" where
  "set_node a f e \<equiv> e\<lparr>node := (node e)(a := f (node e a))\<rparr>"

abbreviation call :: "stream_call list \<Rightarrow> streams \<Rightarrow> streams" where
  "call cs e \<equiv> e\<lparr>calls_made := calls_made e @ cs\<rparr>"

definition tsa_stream_init :: "nat \<Rightarrow> bool \<Rightarrow> streams \<Rightarrow> streams" where
  "tsa_stream_init a on_ts e = set_node a (\<lambda>_. \<lparr>st_parent = None, st_on_ts = on_ts, st_children = [], st_join_pid = False,
     st_leave_pid = False, pid_list = (\<lambda>_. 0)\<rparr>) e"

definition tsa_stream_demux_set_callbacks :: "nat \<Rightarrow> bool \<Rightarrow> bool \<Rightarrow> streams \<Rightarrow> streams" where
  "tsa_stream_demux_set_callbacks a join leave e = set_node a (\<lambda>s. s\<lparr>st_join_pid := join, st_leave_pid := leave\<rparr>) e"

definition tsa_stream_demux_join_pid :: "nat \<Rightarrow> u16 \<Rightarrow> streams \<Rightarrow> streams" where
  "tsa_stream_demux_join_pid a pid e =
    (if TSA_MAX_PID \<le> unat pid then e
     else let e = set_node a (\<lambda>s. s\<lparr>pid_list := (pid_list s)(pid := pid_list s pid + 1)\<rparr>) e in
       if pid_list (node e a) pid = 1 then
         (case st_parent (node e a) of
            Some p \<Rightarrow> if st_join_pid (node e p) then call [Join_pid p pid] e else e
          | None \<Rightarrow> e)
       else e)"

definition tsa_stream_demux_leave_pid :: "nat \<Rightarrow> u16 \<Rightarrow> streams \<Rightarrow> streams" where
  "tsa_stream_demux_leave_pid a pid e =
    (if TSA_MAX_PID \<le> unat pid \<or> pid_list (node e a) pid = 0 then e
     else let e = set_node a (\<lambda>s. s\<lparr>pid_list := (pid_list s)(pid := pid_list s pid - 1)\<rparr>) e in
       if pid_list (node e a) pid = 0 then
         (case st_parent (node e a) of
            Some p \<Rightarrow> if st_leave_pid (node e p) then call [Leave_pid p pid] e else e
          | None \<Rightarrow> e)
       else e)"

definition tsa_stream_demux_check_pid :: "nat \<Rightarrow> u16 \<Rightarrow> streams \<Rightarrow> bool" where
  "tsa_stream_demux_check_pid a pid e \<longleftrightarrow> unat pid < TSA_MAX_PID \<and> 0 < pid_list (node e a) pid"

text \<open>The PIDs of a node with a subscription, in the order of the loops.\<close>

definition joined :: "tsa_stream \<Rightarrow> u16 list" where
  "joined s = filter (\<lambda>pid. 0 < pid_list s pid) (map of_nat [0..<TSA_MAX_PID])"

definition tsa_stream_attach :: "nat \<Rightarrow> nat \<Rightarrow> streams \<Rightarrow> int \<times> streams" where
  "tsa_stream_attach parent child e =
    (if TSA_MAX_STREAM_CHILDREN \<le> length (st_children (node e parent)) then (- 1, e)
     else let
       e = set_node parent (\<lambda>s. s\<lparr>st_children := st_children s @ [child]\<rparr>) e;
       e = set_node child (\<lambda>s. s\<lparr>st_parent := Some parent\<rparr>) e
     in (0, if st_join_pid (node e parent) then call (map (Join_pid parent) (joined (node e child))) e else e))"

definition tsa_stream_detach :: "nat \<Rightarrow> nat \<Rightarrow> streams \<Rightarrow> int \<times> streams" where
  "tsa_stream_detach parent child e =
    (if child \<in> set (st_children (node e parent)) then let
       e = (if st_leave_pid (node e parent) then call (map (Leave_pid parent) (joined (node e child))) e else e);
       e = set_node parent (\<lambda>s. s\<lparr>st_children := remove1 child (st_children s)\<rparr>) e
     in (0, set_node child (\<lambda>s. s\<lparr>st_parent := None\<rparr>) e)
     else (- 1, e))"

definition tsa_stream_destroy :: "nat \<Rightarrow> streams \<Rightarrow> streams" where
  "tsa_stream_destroy a e = fold (\<lambda>pid e. if 0 < pid_list (node e a) pid then tsa_stream_demux_leave_pid a pid e else e)
     (map of_nat [0..<TSA_MAX_PID]) e"

text \<open>The recursion of \<open>tsa_stream_send\<close> follows the child pointers; the first argument bounds its depth.\<close>

fun tsa_stream_send :: "nat \<Rightarrow> bytes \<Rightarrow> nat \<Rightarrow> streams \<Rightarrow> streams option"
  and send_children :: "nat \<Rightarrow> bytes \<Rightarrow> nat list \<Rightarrow> streams \<Rightarrow> streams option" where
  "tsa_stream_send 0 ts a e = None"
| "tsa_stream_send (Suc k) ts a e = send_children k ts (st_children (node e a)) (if st_on_ts (node e a) then call [On_ts a ts] e else e)"
| "send_children k ts [] e = Some e"
| "send_children k ts (c # cs) e = do { e \<leftarrow> tsa_stream_send k ts c e; send_children k ts cs e }"

section \<open>Delivery\<close>

text \<open>The tree that hangs below a node.\<close>

datatype tree = Tree nat "tree list"

fun root :: "tree \<Rightarrow> nat" where
  "root (Tree a ts) = a"

fun hangs :: "streams \<Rightarrow> tree \<Rightarrow> bool" where
  "hangs e (Tree a ts) \<longleftrightarrow> st_children (node e a) = map root ts \<and> list_all (hangs e) ts"

fun height :: "tree \<Rightarrow> nat" where
  "height (Tree a ts) = Suc (foldr (\<lambda>t. max (height t)) ts 0)"

fun preorder :: "tree \<Rightarrow> nat list" where
  "preorder (Tree a ts) = a # concat (map preorder ts)"

abbreviation deliveries :: "streams \<Rightarrow> bytes \<Rightarrow> nat list \<Rightarrow> stream_call list" where
  "deliveries e ts as \<equiv> map (\<lambda>a. On_ts a ts) (filter (\<lambda>a. st_on_ts (node e a)) as)"

lemma hangs_call [simp]: "hangs (call cs e) = hangs e"
proof
  show "hangs (call cs e) t = hangs e t" for t by (induction t) (auto simp: list_all_iff)
qed

lemma height_children: "t \<in> set ts \<Longrightarrow> height t < height (Tree a ts)"
proof (induction ts)
  case (Cons x ts)
  then show ?case by (auto simp: less_Suc_eq_le)
qed simp

lemma send_tree:
  "hangs e t \<Longrightarrow> height t \<le> k \<Longrightarrow> tsa_stream_send k ts (root t) e = Some (call (deliveries e ts (preorder t)) e)"
proof (induction t arbitrary: e k)
  case (Tree a us)
  obtain k' where k: "k = Suc k'" using Tree.prems(2) by (cases k) auto
  have h: "height u \<le> k'" if "u \<in> set us" for u using height_children [OF that, of a] Tree.prems(2) k by simp
  have children: "list_all (hangs e) vs \<Longrightarrow> set vs \<subseteq> set us \<Longrightarrow>
      send_children k' ts (map root vs) e = Some (call (deliveries e ts (concat (map preorder vs))) e)" for vs e
  proof (induction vs arbitrary: e)
    case (Cons v vs)
    have "tsa_stream_send k' ts (root v) e = Some (call (deliveries e ts (preorder v)) e)"
      using Cons.prems h by (intro Tree.IH) auto
    then show ?case using Cons.IH [of "call (deliveries e ts (preorder v)) e"] Cons.prems by simp
  qed simp
  let ?e = "if st_on_ts (node e a) then call [On_ts a ts] e else e"
  have "list_all (hangs ?e) us" using Tree.prems(1) by (simp add: list_all_iff)
  then show ?case using children [of ?e us] Tree.prems(1) by (simp add: k)
qed

section \<open>Subscriptions\<close>

text \<open>Each child knows its parent, and each parent lists its children once.\<close>

definition linked :: "streams \<Rightarrow> bool" where
  "linked e \<longleftrightarrow> (\<forall>p. distinct (st_children (node e p)) \<and> (\<forall>c. c \<in> set (st_children (node e p)) \<longleftrightarrow> st_parent (node e c) = Some p))"

text \<open>How many more joins than leaves of a PID the owner of a node has been told.\<close>

definition balance :: "streams \<Rightarrow> nat \<Rightarrow> u16 \<Rightarrow> int" where
  "balance e p pid = int (count_list (calls_made e) (Join_pid p pid)) - int (count_list (calls_made e) (Leave_pid p pid))"

definition subscribed :: "streams \<Rightarrow> nat \<Rightarrow> u16 \<Rightarrow> nat" where
  "subscribed e p pid = length (filter (\<lambda>c. 0 < pid_list (node e c) pid) (st_children (node e p)))"

definition streams_inv :: "streams \<Rightarrow> bool" where
  "streams_inv e \<longleftrightarrow> linked e \<and> (\<forall>p. st_join_pid (node e p) \<and> st_leave_pid (node e p)) \<and>
     (\<forall>p pid. unat pid < TSA_MAX_PID \<longrightarrow> balance e p pid = int (subscribed e p pid)) \<and>
     (\<forall>a pid. TSA_MAX_PID \<le> unat pid \<longrightarrow> pid_list (node e a) pid = 0)"

lemma streams_inv_node:
  assumes "streams_inv e"
  shows "linked e" "st_join_pid (node e p)" "st_leave_pid (node e p)" "TSA_MAX_PID \<le> unat pid \<Longrightarrow> pid_list (node e a) pid = 0"
    "unat pid < TSA_MAX_PID \<Longrightarrow> balance e p pid = int (subscribed e p pid)"
  using assms by (simp_all add: streams_inv_def)

text \<open>A node whose subscriptions change counts only for its own parent.\<close>

definition counts :: "streams \<Rightarrow> nat \<Rightarrow> u16 \<Rightarrow> int" where
  "counts e c pid = of_bool (0 < pid_list (node e c) pid)"

lemma subscribed_sum: "linked e \<Longrightarrow> int (subscribed e p pid) = (\<Sum>c \<in> set (st_children (node e p)). counts e c pid)"
proof -
  assume "linked e"
  then have d: "distinct (st_children (node e p))" by (simp add: linked_def)
  have "distinct xs \<Longrightarrow> int (length (filter P xs)) = (\<Sum>c \<in> set xs. of_bool (P c))" for P and xs :: "nat list"
    by (induction xs) simp_all
  from this [OF d] show ?thesis by (simp add: subscribed_def counts_def)
qed

lemma recount:
  assumes "streams_inv e" "unat pid < TSA_MAX_PID" "of_bool (0 < m) = of_bool (0 < pid_list (node e a) pid) + (d :: int)"
    "\<And>p q. balance (call new e) p q = balance e p q + (if st_parent (node e a) = Some p \<and> q = pid then d else 0)"
  shows "streams_inv (call new (set_node a (\<lambda>s. s\<lparr>pid_list := (pid_list s)(pid := m)\<rparr>) e))" (is "streams_inv ?e")
proof -
  have l: "linked e" "linked ?e" using streams_inv_node(1) [OF assms(1)] by (simp_all add: linked_def)
  have c: "counts ?e c q = counts e c q + (if c = a \<and> q = pid then d else 0)" for c q using assms(3) by (simp add: counts_def)
  have "int (subscribed ?e p q) = int (subscribed e p q) + (if st_parent (node e a) = Some p \<and> q = pid then d else 0)" for p q
  proof -
    have ch: "st_children (node ?e p) = st_children (node e p)" by simp
    have "(\<Sum>c \<in> set (st_children (node e p)). if c = a \<and> q = pid then d else 0) =
        (if a \<in> set (st_children (node e p)) \<and> q = pid then d else 0)"
      by (cases "q = pid") (simp_all add: sum.delta)
    moreover have "a \<in> set (st_children (node e p)) \<longleftrightarrow> st_parent (node e a) = Some p" using l(1) by (simp add: linked_def)
    ultimately show ?thesis unfolding subscribed_sum [OF l(2)] subscribed_sum [OF l(1)] ch c by (simp add: sum.distrib)
  qed
  moreover have "balance ?e p q = balance (call new e) p q" for p q by (simp add: balance_def)
  ultimately have "\<forall>p q. unat q < TSA_MAX_PID \<longrightarrow> balance ?e p q = int (subscribed ?e p q)"
    using assms(4) streams_inv_node(5) [OF assms(1)] by simp
  then show ?thesis using assms(1,2) l(2) by (auto simp: streams_inv_def)
qed

lemma join_step:
  assumes "streams_inv e" "pid_list (node e a) pid \<noteq> 65535"
  shows "streams_inv (tsa_stream_demux_join_pid a pid e)"
proof (cases "TSA_MAX_PID \<le> unat pid")
  case True
  then show ?thesis using assms(1) by (simp add: tsa_stream_demux_join_pid_def)
next
  case False
  let ?n = "pid_list (node e a) pid"
  let ?new = "case st_parent (node e a) of Some p \<Rightarrow> if ?n = 0 then [Join_pid p pid] else [] | None \<Rightarrow> []"
  have e': "tsa_stream_demux_join_pid a pid e = call ?new (set_node a (\<lambda>s. s\<lparr>pid_list := (pid_list s)(pid := ?n + 1)\<rparr>) e)"
    using False assms(1) by (simp add: tsa_stream_demux_join_pid_def Let_def streams_inv_node split: option.split)
  have "(65535 :: u16) = - 1" by simp
  then have "?n + 1 \<noteq> 0" using assms(2) by (metis eq_neg_iff_add_eq_0)
  then show ?thesis unfolding e' using assms(1) False
    by (intro recount [where d = "of_bool (?n = 0)"]) (auto simp: balance_def word_neq_0_conv split: option.split)
qed

lemma leave_step:
  assumes "streams_inv e"
  shows "streams_inv (tsa_stream_demux_leave_pid a pid e)"
proof (cases "TSA_MAX_PID \<le> unat pid \<or> pid_list (node e a) pid = 0")
  case True
  then show ?thesis using assms by (simp add: tsa_stream_demux_leave_pid_def)
next
  case False
  let ?n = "pid_list (node e a) pid"
  let ?new = "case st_parent (node e a) of Some p \<Rightarrow> if ?n - 1 = 0 then [Leave_pid p pid] else [] | None \<Rightarrow> []"
  have e': "tsa_stream_demux_leave_pid a pid e = call ?new (set_node a (\<lambda>s. s\<lparr>pid_list := (pid_list s)(pid := ?n - 1)\<rparr>) e)"
    using False assms by (simp add: tsa_stream_demux_leave_pid_def Let_def streams_inv_node split: option.split)
  have z: "0 < ?n - 1 \<longleftrightarrow> ?n \<noteq> 1" by (metis word_neq_0_conv eq_iff_diff_eq_0)
  show ?thesis unfolding e' using assms False
    by (intro recount [where d = "- of_bool (?n = 1)"]) (auto simp: z balance_def word_neq_0_conv split: option.split)
qed

lemma joined_set: "unat pid < TSA_MAX_PID \<Longrightarrow> count_list (joined s) pid = of_bool (0 < pid_list s pid)"
proof -
  assume p: "unat pid < TSA_MAX_PID"
  have "inj_on (of_nat :: nat \<Rightarrow> u16) (set [0..<TSA_MAX_PID])"
    by (rule inj_onI) (simp add: TSA_MAX_PID_def word_of_nat_eq_iff take_bit_nat_eq_self)
  then have "distinct (joined s)" by (simp add: joined_def distinct_map)
  moreover have "pid = of_nat (unat pid)" by simp
  then have "pid \<in> (of_nat :: nat \<Rightarrow> u16) ` {0..<TSA_MAX_PID}" using p by (intro image_eqI) simp_all
  then have "pid \<in> set (joined s) \<longleftrightarrow> 0 < pid_list s pid" by (simp add: joined_def)
  ultimately show ?thesis by (simp add: count_list_eq_length_filter distinct_length_filter Int_absorb1 del: set_filter) 
qed

lemma count_calls [simp]:
  "count_list (map (Join_pid p) ps) (Join_pid q pid) = (if q = p then count_list ps pid else 0)"
  "count_list (map (Leave_pid p) ps) (Leave_pid q pid) = (if q = p then count_list ps pid else 0)"
  "count_list (map (Join_pid p) ps) (Leave_pid q pid) = 0" "count_list (map (Leave_pid p) ps) (Join_pid q pid) = 0"
  by (induction ps) auto

lemma attach_step:
  assumes "streams_inv e" "st_parent (node e c) = None"
  shows "streams_inv (snd (tsa_stream_attach p c e))"
proof (cases "TSA_MAX_STREAM_CHILDREN \<le> length (st_children (node e p))")
  case True
  then show ?thesis using assms(1) by (simp add: tsa_stream_attach_def)
next
  case False
  let ?t = "set_node c (\<lambda>s. s\<lparr>st_parent := Some p\<rparr>) (set_node p (\<lambda>s. s\<lparr>st_children := st_children s @ [c]\<rparr>) e)"
  let ?e = "call (map (Join_pid p) (joined (node e c))) ?t"
  have j: "joined (node ?t c) = joined (node e c)" by (simp add: joined_def)
  have e: "snd (tsa_stream_attach p c e) = ?e"
    using False assms(1) j by (simp add: tsa_stream_attach_def Let_def streams_inv_node)
  have l: "linked e" "linked ?e" using streams_inv_node(1) [OF assms(1)] assms(2) by (auto simp: linked_def split: if_splits)
  have ch: "st_children (node ?e q) = st_children (node e q) @ (if q = p then [c] else [])" for q by simp
  have "pid_list (node ?e a) q = pid_list (node e a) q" for a q by simp
  then have "subscribed ?e q pid = subscribed e q pid + of_bool (q = p \<and> 0 < pid_list (node e c) pid)" for q pid
    unfolding subscribed_def ch by simp
  moreover have "unat pid < TSA_MAX_PID \<Longrightarrow> balance ?e q pid = balance e q pid + of_bool (q = p \<and> 0 < pid_list (node e c) pid)" for q pid
    using joined_set [of pid "node e c"] by (simp add: balance_def)
  ultimately have "\<forall>q pid. unat pid < TSA_MAX_PID \<longrightarrow> balance ?e q pid = int (subscribed ?e q pid)"
    using streams_inv_node(5) [OF assms(1)] by simp
  then show ?thesis unfolding e using assms(1) l(2) by (simp add: streams_inv_def)
qed

lemma detach_step:
  assumes "streams_inv e"
  shows "streams_inv (snd (tsa_stream_detach p c e))"
proof (cases "c \<in> set (st_children (node e p))")
  case False
  then show ?thesis using assms by (simp add: tsa_stream_detach_def)
next
  case True
  let ?t = "set_node c (\<lambda>s. s\<lparr>st_parent := None\<rparr>) (set_node p (\<lambda>s. s\<lparr>st_children := remove1 c (st_children s)\<rparr>) e)"
  let ?e = "call (map (Leave_pid p) (joined (node e c))) ?t"
  have e: "snd (tsa_stream_detach p c e) = ?e" using True assms by (simp add: tsa_stream_detach_def Let_def streams_inv_node)
  have lk: "linked e" by (rule streams_inv_node(1) [OF assms])
  then have d: "distinct (st_children (node e q))" "x \<in> set (st_children (node e q)) \<longleftrightarrow> st_parent (node e x) = Some q" for q x
    by (simp_all add: linked_def)
  have ch: "set (st_children (node ?e q)) = set (st_children (node e q)) - (if q = p then {c} else {})" for q
    using d(1) [of p] by simp
  have l: "linked ?e" using d True by (auto simp: linked_def)
  have c: "counts ?e x q = counts e x q" for x q by (simp add: counts_def)
  have "int (subscribed ?e q pid) = int (subscribed e q pid) - of_bool (q = p \<and> 0 < pid_list (node e c) pid)" for q pid
    using True counts_def [of e c pid] unfolding subscribed_sum [OF l] subscribed_sum [OF lk] ch c by (simp add: sum_diff1)
  moreover have "unat pid < TSA_MAX_PID \<Longrightarrow> balance ?e q pid = balance e q pid - of_bool (q = p \<and> 0 < pid_list (node e c) pid)" for q pid
    using joined_set [of pid "node e c"] by (simp add: balance_def)
  ultimately have "\<forall>q pid. unat pid < TSA_MAX_PID \<longrightarrow> balance ?e q pid = int (subscribed ?e q pid)"
    using streams_inv_node(5) [OF assms] by simp
  then show ?thesis unfolding e using assms l by (simp add: streams_inv_def)
qed

text \<open>
  Runs of the tree: a node is attached only while it has no parent, and no
  counter of a subscription is at its greatest value.
\<close>

inductive stream_step :: "streams \<Rightarrow> streams \<Rightarrow> bool" where
  "pid_list (node e a) pid \<noteq> 65535 \<Longrightarrow> stream_step e (tsa_stream_demux_join_pid a pid e)"
| "stream_step e (tsa_stream_demux_leave_pid a pid e)"
| "st_parent (node e c) = None \<Longrightarrow> stream_step e (snd (tsa_stream_attach p c e))"
| "stream_step e (snd (tsa_stream_detach p c e))"
| "stream_step e (tsa_stream_destroy a e)"

lemma destroy_step: "streams_inv e \<Longrightarrow> streams_inv (tsa_stream_destroy a e)"
proof -
  have "streams_inv e \<Longrightarrow> streams_inv (fold (\<lambda>pid e. if 0 < pid_list (node e a) pid then tsa_stream_demux_leave_pid a pid e else e) ps e)" for ps e
    by (induction ps arbitrary: e) (simp_all add: leave_step)
  then show "streams_inv e \<Longrightarrow> streams_inv (tsa_stream_destroy a e)" by (simp only: tsa_stream_destroy_def)
qed

lemma stream_step_inv: "stream_step e e' \<Longrightarrow> streams_inv e \<Longrightarrow> streams_inv e'"
  by (induction rule: stream_step.induct) (auto intro: join_step leave_step attach_step detach_step destroy_step)

text \<open>Nodes just set up, with both callbacks.\<close>

definition fresh_streams :: "streams \<Rightarrow> bool" where
  "fresh_streams e \<longleftrightarrow> calls_made e = [] \<and> (\<forall>a. st_parent (node e a) = None \<and> st_children (node e a) = [] \<and> st_join_pid (node e a) \<and>
     st_leave_pid (node e a) \<and> pid_list (node e a) = (\<lambda>_. 0))"

text \<open>
  C15. The subscriptions of the stream tree are balanced: whatever nodes join
  and leave PIDs, are attached, detached and destroyed in whatever order, the
  owner of every node has been told of exactly as many joins more than leaves of
  a PID as the node has children that subscribe to it. So it can close a PID
  when the two are equal.
\<close>

theorem subscriptions_balanced:
  assumes "fresh_streams e" "stream_step\<^sup>*\<^sup>* e e'" "unat pid < TSA_MAX_PID"
  shows "balance e' p pid = int (length (filter (\<lambda>c. tsa_stream_demux_check_pid c pid e') (st_children (node e' p))))"
proof -
  have "streams_inv e" using assms(1) by (simp add: fresh_streams_def streams_inv_def linked_def balance_def subscribed_def)
  with assms(2) have "streams_inv e'" by (induction rule: rtranclp_induct) (auto intro: stream_step_inv)
  then show ?thesis using assms(3) by (simp add: streams_inv_node subscribed_def tsa_stream_demux_check_pid_def)
qed

definition three_nodes :: streams where
  "three_nodes = \<lparr>node = (\<lambda>_. \<lparr>st_parent = None, st_on_ts = True, st_children = [], st_join_pid = True, st_leave_pid = True,
     pid_list = (\<lambda>_. 0)\<rparr>), calls_made = []\<rparr>"

theorem subscriptions_balanced_witness:
  "\<exists>e. stream_step\<^sup>*\<^sup>* three_nodes e \<and> balance e 0 100 = 1"
proof -
  let ?e = "tsa_stream_demux_join_pid 1 100 (snd (tsa_stream_attach 0 1 three_nodes))"
  have "stream_step three_nodes (snd (tsa_stream_attach 0 1 three_nodes))" by (intro stream_step.intros) (simp add: three_nodes_def)
  moreover have "stream_step (snd (tsa_stream_attach 0 1 three_nodes)) ?e"
    by (intro stream_step.intros) (simp add: three_nodes_def tsa_stream_attach_def Let_def)
  ultimately have s: "stream_step\<^sup>*\<^sup>* three_nodes ?e" by (meson converse_rtranclp_into_rtranclp rtranclp.rtrancl_refl)
  have "fresh_streams three_nodes" by (simp add: fresh_streams_def three_nodes_def)
  from subscriptions_balanced [OF this s, of 100 0]
  have "balance ?e 0 100 = 1"
    by (simp add: three_nodes_def tsa_stream_attach_def tsa_stream_demux_join_pid_def tsa_stream_demux_check_pid_def Let_def TSA_MAX_PID_def
        TSA_MAX_STREAM_CHILDREN_def)
  then show ?thesis using s by blast
qed

text \<open>
  Delivery: a packet sent to a node reaches the callback of every node of the
  tree below it exactly once, parents before their children, and the send
  returns.
\<close>

lemma send_reaches_all:
  "hangs e t \<Longrightarrow> \<exists>k. tsa_stream_send k ts (root t) e = Some (call (deliveries e ts (preorder t)) e)"
  using send_tree by blast

section \<open>Pipeline\<close>

record tsa_stage =
  has_process :: bool
  stage_next :: "nat option"

record tsa_pipeline =
  pl_head :: "nat option"
  pl_tail :: "nat option"

definition tsa_pipeline_init :: tsa_pipeline where
  "tsa_pipeline_init = \<lparr>pl_head = None, pl_tail = None\<rparr>"

definition tsa_pipeline_add_stage :: "nat \<Rightarrow> tsa_pipeline \<times> (nat \<Rightarrow> tsa_stage) \<Rightarrow> tsa_pipeline \<times> (nat \<Rightarrow> tsa_stage)" where
  "tsa_pipeline_add_stage stage ps = (let (p, st) = ps; st = st(stage := (st stage)\<lparr>stage_next := None\<rparr>) in
    case (pl_head p, pl_tail p) of
      (Some _, Some t) \<Rightarrow> (p\<lparr>pl_tail := Some stage\<rparr>, st(t := (st t)\<lparr>stage_next := Some stage\<rparr>))
    | _ \<Rightarrow> (\<lparr>pl_head = Some stage, pl_tail = Some stage\<rparr>, st))"

text \<open>The stages whose \<open>process\<close> is called, in order; \<open>None\<close> if the loop does not end.\<close>

partial_function (option) pipeline_walk :: "(nat \<Rightarrow> tsa_stage) \<Rightarrow> nat option \<Rightarrow> nat list option" where
  "pipeline_walk st cur = (case cur of
      None \<Rightarrow> Some []
    | Some s \<Rightarrow> do { rest \<leftarrow> pipeline_walk st (stage_next (st s)); Some (if has_process (st s) then s # rest else rest) })"

definition tsa_pipeline_dispatch :: "tsa_pipeline \<times> (nat \<Rightarrow> tsa_stage) \<Rightarrow> nat list option" where
  "tsa_pipeline_dispatch ps = pipeline_walk (snd ps) (pl_head (fst ps))"

fun chain :: "(nat \<Rightarrow> tsa_stage) \<Rightarrow> nat list \<Rightarrow> bool" where
  "chain st [] \<longleftrightarrow> True"
| "chain st [s] \<longleftrightarrow> stage_next (st s) = None"
| "chain st (s # t # ss) \<longleftrightarrow> stage_next (st s) = Some t \<and> chain st (t # ss)"

lemma chain_walk: "chain st ss \<Longrightarrow> pipeline_walk st (if ss = [] then None else Some (hd ss)) = Some (filter (\<lambda>s. has_process (st s)) ss)"
proof (induction st ss rule: chain.induct)
  case (3 st s t ss)
  then show ?case by (subst pipeline_walk.simps) simp
qed (simp_all add: pipeline_walk.simps)

lemma chain_cong: "(\<And>s. s \<in> set ss \<Longrightarrow> st' s = st s) \<Longrightarrow> chain st' ss = chain st ss"
  by (induction st ss rule: chain.induct) auto

lemma chain_extend: "chain st (ss @ [t]) \<Longrightarrow> x \<notin> set (ss @ [t]) \<Longrightarrow> distinct (ss @ [t]) \<Longrightarrow> stage_next (st x) = None \<Longrightarrow>
    chain (st(t := (st t)\<lparr>stage_next := Some x\<rparr>)) (ss @ [t, x])"
proof (induction ss)
  case (Cons s ss)
  then show ?case by (cases ss) auto
qed auto

definition pipeline_of :: "nat list \<Rightarrow> tsa_pipeline \<times> (nat \<Rightarrow> tsa_stage) \<Rightarrow> bool" where
  "pipeline_of ss ps \<longleftrightarrow> distinct ss \<and> chain (snd ps) ss \<and>
     fst ps = (if ss = [] then tsa_pipeline_init else \<lparr>pl_head = Some (hd ss), pl_tail = Some (last ss)\<rparr>)"

lemma add_stage: "pipeline_of ss ps \<Longrightarrow> x \<notin> set ss \<Longrightarrow> pipeline_of (ss @ [x]) (tsa_pipeline_add_stage x ps)"
proof -
  assume ok: "pipeline_of ss ps" and x: "x \<notin> set ss"
  obtain p st where ps: "ps = (p, st)" by fastforce
  let ?st = "st(x := (st x)\<lparr>stage_next := None\<rparr>)"
  show ?thesis
  proof (cases "ss = []")
    case True
    then show ?thesis using ok by (simp add: pipeline_of_def tsa_pipeline_add_stage_def tsa_pipeline_init_def ps)
  next
    case False
    let ?b = "butlast ss" and ?t = "last ss"
    have s: "ss = ?b @ [?t]" using False by simp
    have "chain ?st ss = chain st ss" by (rule chain_cong) (use x in auto)
    then have "chain ?st (?b @ [?t])" using ok s by (simp add: pipeline_of_def ps)
    moreover have "x \<notin> set (?b @ [?t])" "distinct (?b @ [?t])" using ok x s by (simp_all add: pipeline_of_def)
    ultimately have "chain (?st(?t := (?st ?t)\<lparr>stage_next := Some x\<rparr>)) (?b @ [?t, x])" by (intro chain_extend) simp_all
    moreover have "?b @ [?t, x] = ss @ [x]" using s by (metis append_Cons append_Nil append_assoc)
    ultimately have "chain (?st(?t := (?st ?t)\<lparr>stage_next := Some x\<rparr>)) (ss @ [x])" by simp
    then show ?thesis using ok x False by (simp add: pipeline_of_def tsa_pipeline_add_stage_def ps)
  qed
qed

lemma add_stages: "pipeline_of ss ps \<Longrightarrow> distinct (ss @ xs) \<Longrightarrow> pipeline_of (ss @ xs) (fold tsa_pipeline_add_stage xs ps)"
proof (induction xs arbitrary: ss ps)
  case (Cons x xs)
  then show ?case using Cons.IH [OF add_stage, of ss ps x] by simp
qed simp

text \<open>Distinct stages are processed once each, in the order in which they were added.\<close>

lemma pipeline_order:
  assumes "distinct xs"
  shows "tsa_pipeline_dispatch (fold tsa_pipeline_add_stage xs (tsa_pipeline_init, st)) = Some (filter (\<lambda>s. has_process (st s)) xs)"
proof -
  define ps where "ps = fold tsa_pipeline_add_stage xs (tsa_pipeline_init, st)"
  have "pipeline_of [] (tsa_pipeline_init, st)" by (simp add: pipeline_of_def)
  from add_stages [OF this, of xs] assms have p: "pipeline_of xs ps" by (simp add: ps_def)
  have "\<forall>x. has_process (snd (fold tsa_pipeline_add_stage ys qs) x) = has_process (snd qs x)" for ys qs
    by (induction ys arbitrary: qs) (auto simp: tsa_pipeline_add_stage_def Let_def split: prod.splits option.splits)
  then have h: "has_process (snd ps x) = has_process (st x)" for x by (simp add: ps_def)
  have "tsa_pipeline_dispatch ps = Some (filter (\<lambda>s. has_process (snd ps s)) xs)"
    using chain_walk [of "snd ps" xs] p by (simp add: pipeline_of_def tsa_pipeline_dispatch_def tsa_pipeline_init_def split: if_splits)
  then show ?thesis by (simp add: ps_def [symmetric] h)
qed

text \<open>A stage that is added twice in a row points to itself, and the dispatch does not end.\<close>

lemma walk_no_self: "pipeline_walk st cur = Some r \<Longrightarrow> \<forall>s. cur = Some s \<longrightarrow> stage_next (st s) \<noteq> Some s"
proof (rule pipeline_walk.raw_induct [where P = "\<lambda>st cur r. \<forall>s. cur = Some s \<longrightarrow> stage_next (st s) \<noteq> Some s"])
  fix walk :: "(nat \<Rightarrow> tsa_stage) \<Rightarrow> nat option \<Rightarrow> nat list option" and st :: "nat \<Rightarrow> tsa_stage" and cur r
  assume ih: "\<And>st cur r. walk st cur = Some r \<Longrightarrow> \<forall>s. cur = Some s \<longrightarrow> stage_next (st s) \<noteq> Some s"
    and w: "(case cur of None \<Rightarrow> Some [] | Some s \<Rightarrow> do { rest \<leftarrow> walk st (stage_next (st s)); Some (if has_process (st s) then s # rest else rest) }) = Some r"
  have False if c: "cur = Some s" "stage_next (st s) = Some s" for s
  proof -
    obtain rest where "walk st (Some s) = Some rest" using w c by (auto simp: bind_eq_Some_conv)
    then show False using ih c(2) by blast
  qed
  then show "\<forall>s. cur = Some s \<longrightarrow> stage_next (st s) \<noteq> Some s" by blast
qed simp

lemma added_twice: "tsa_pipeline_dispatch (tsa_pipeline_add_stage s (tsa_pipeline_add_stage s (tsa_pipeline_init, st))) = None"
proof -
  define ps where "ps = tsa_pipeline_add_stage s (tsa_pipeline_add_stage s (tsa_pipeline_init, st))"
  have "stage_next (snd ps s) = Some s" "pl_head (fst ps) = Some s"
    by (simp_all add: ps_def tsa_pipeline_add_stage_def tsa_pipeline_init_def)
  then have "tsa_pipeline_dispatch ps = None" using walk_no_self [of "snd ps" "Some s"]
    by (cases "pipeline_walk (snd ps) (Some s)") (auto simp: tsa_pipeline_dispatch_def)
  then show ?thesis by (simp only: ps_def)
qed

section \<open>Model of the transport stream\<close>

record tsa_es_model =
  em_pid :: u16
  em_stream_type :: u8

record tsa_program_model =
  pm_program_number :: u16
  pm_pmt_pid :: u16
  pm_es :: "tsa_es_model list"  \<comment> \<open>\<open>es[0 .. es_count - 1]\<close>\<close>
  pm_active :: bool

record tsa_ts_model =
  tm_programs :: "tsa_program_model list"
  pid_to_program_idx :: "u16 \<Rightarrow> int"

definition MAX_ES_PER_PROGRAM :: nat where "MAX_ES_PER_PROGRAM = 32"
definition MAX_PROGRAMS_PER_TS :: nat where "MAX_PROGRAMS_PER_TS = 64"

definition tsa_stream_model_init :: tsa_ts_model where
  "tsa_stream_model_init = \<lparr>tm_programs = [], pid_to_program_idx = (\<lambda>_. - 1)\<rparr>"

text \<open>The index of the first element with a property, as the search loops find it.\<close>

fun find_index :: "('a \<Rightarrow> bool) \<Rightarrow> 'a list \<Rightarrow> nat option" where
  "find_index P [] = None"
| "find_index P (x # xs) = (if P x then Some 0 else map_option Suc (find_index P xs))"

lemma find_index_Some: "find_index P xs = Some i \<Longrightarrow> i < length xs \<and> P (xs ! i) \<and> (\<forall>j < i. \<not> P (xs ! j))"
proof (induction xs arbitrary: i)
  case (Cons x xs)
  then show ?case by (auto split: if_splits simp: nth_Cons' less_Suc_eq_0_disj)
qed simp

lemma find_index_None: "find_index P xs = None \<longleftrightarrow> (\<forall>x \<in> set xs. \<not> P x)"
  by (induction xs) auto

definition put_program :: "u16 \<Rightarrow> nat \<Rightarrow> tsa_program_model list \<Rightarrow> tsa_ts_model \<Rightarrow> tsa_ts_model" where
  "put_program pmt_pid idx ps m =
    m\<lparr>tm_programs := ps[idx := (ps ! idx)\<lparr>pm_pmt_pid := pmt_pid, pm_active := True\<rparr>],
      pid_to_program_idx := (if unat pmt_pid < 8192 then (pid_to_program_idx m)(pmt_pid := int idx) else pid_to_program_idx m)\<rparr>"

definition tsa_stream_model_update_program :: "u16 \<Rightarrow> u16 \<Rightarrow> tsa_ts_model \<Rightarrow> tsa_ts_model" where
  "tsa_stream_model_update_program prog_num pmt_pid m = (let ps = tm_programs m in
    case find_index (\<lambda>p. pm_program_number p = prog_num) ps of
      Some idx \<Rightarrow> put_program pmt_pid idx ps m
    | None \<Rightarrow> if MAX_PROGRAMS_PER_TS \<le> length ps then m
        else put_program pmt_pid (length ps) (ps @ [\<lparr>pm_program_number = prog_num, pm_pmt_pid = 0, pm_es = [], pm_active = False\<rparr>]) m)"

definition update_es_list :: "u16 \<Rightarrow> u8 \<Rightarrow> tsa_es_model list \<Rightarrow> tsa_es_model list" where
  "update_es_list es_pid type es = (case find_index (\<lambda>x. em_pid x = es_pid) es of
      Some i \<Rightarrow> es[i := (es ! i)\<lparr>em_stream_type := type\<rparr>]
    | None \<Rightarrow> if MAX_ES_PER_PROGRAM \<le> length es then es else es @ [\<lparr>em_pid = es_pid, em_stream_type = type\<rparr>])"

definition tsa_stream_model_update_es :: "u16 \<Rightarrow> u16 \<Rightarrow> u8 \<Rightarrow> tsa_ts_model \<Rightarrow> tsa_ts_model" where
  "tsa_stream_model_update_es pmt_pid es_pid type m = (let idx = pid_to_program_idx m pmt_pid; i = nat idx; p = tm_programs m ! i in
    if 8192 \<le> unat pmt_pid \<or> idx = - 1 then m
    else m\<lparr>tm_programs := (tm_programs m)[i := p\<lparr>pm_es := update_es_list es_pid type (pm_es p)\<rparr>]\<rparr>)"

text \<open>
  The tables stay within their arrays and have no duplicate keys, and every
  index of the map is that of a program or -1, so that the access in
  \<open>tsa_stream_model_update_es\<close> is always inside the array.
\<close>

definition model_inv :: "tsa_ts_model \<Rightarrow> bool" where
  "model_inv m \<longleftrightarrow> length (tm_programs m) \<le> MAX_PROGRAMS_PER_TS \<and> distinct (map pm_program_number (tm_programs m)) \<and>
     (\<forall>p \<in> set (tm_programs m). length (pm_es p) \<le> MAX_ES_PER_PROGRAM \<and> distinct (map em_pid (pm_es p))) \<and>
     (\<forall>pid. pid_to_program_idx m pid = - 1 \<or> 0 \<le> pid_to_program_idx m pid \<and> pid_to_program_idx m pid < int (length (tm_programs m)))"

lemma map_update_same: "i < length xs \<Longrightarrow> f y = f (xs ! i) \<Longrightarrow> map f (xs[i := y]) = map f xs"
  by (metis list_update_id map_update nth_map)

lemma update_es_list_inv:
  assumes "length es \<le> MAX_ES_PER_PROGRAM" "distinct (map em_pid es)"
  shows "length (update_es_list pid t es) \<le> MAX_ES_PER_PROGRAM \<and> distinct (map em_pid (update_es_list pid t es))"
proof (cases "find_index (\<lambda>x. em_pid x = pid) es")
  case None
  then have "pid \<notin> em_pid ` set es" by (auto simp: find_index_None)
  then show ?thesis using None assms by (auto simp: update_es_list_def)
next
  case (Some i)
  have "map em_pid (es[i := (es ! i)\<lparr>em_stream_type := t\<rparr>]) = map em_pid es"
    using find_index_Some [OF Some] by (intro map_update_same) simp_all
  then show ?thesis using Some assms by (simp add: update_es_list_def)
qed

lemma update_program_inv: "model_inv m \<Longrightarrow> model_inv (tsa_stream_model_update_program n pid m)"
proof -
  assume ok: "model_inv m"
  let ?ps = "tm_programs m"
  let ?new = "\<lparr>pm_program_number = n, pm_pmt_pid = 0, pm_es = [], pm_active = False\<rparr>"
  have store: "model_inv (put_program pid idx ps m)"
    if "idx < length ps" "model_inv (m\<lparr>tm_programs := ps\<rparr>)" for ps idx
  proof -
    let ?p = "(ps ! idx)\<lparr>pm_pmt_pid := pid, pm_active := True\<rparr>"
    have "map pm_program_number (ps[idx := ?p]) = map pm_program_number ps" using that(1) by (intro map_update_same) simp_all
    moreover have "\<forall>p \<in> set (ps[idx := ?p]). length (pm_es p) \<le> MAX_ES_PER_PROGRAM \<and> distinct (map em_pid (pm_es p))"
      using that by (auto simp: model_inv_def dest!: set_update_subset_insert [THEN subsetD])
    ultimately show ?thesis using that by (auto simp: model_inv_def put_program_def)
  qed
  show "model_inv (tsa_stream_model_update_program n pid m)"
  proof (cases "find_index (\<lambda>p. pm_program_number p = n) ?ps")
    case (Some idx)
    then show ?thesis using store [of idx ?ps] find_index_Some [OF Some] ok by (simp add: tsa_stream_model_update_program_def Let_def)
  next
    case None
    then have "n \<notin> pm_program_number ` set ?ps" by (auto simp: find_index_None)
    then have "model_inv (m\<lparr>tm_programs := ?ps @ [?new]\<rparr>)" if "length ?ps < MAX_PROGRAMS_PER_TS"
      using ok that by (auto simp: model_inv_def less_imp_le)
    then show ?thesis using store [of "length ?ps" "?ps @ [?new]"] ok None
      by (cases "length ?ps < MAX_PROGRAMS_PER_TS") (simp_all add: tsa_stream_model_update_program_def Let_def not_less)
  qed
qed

lemma update_es_inv: "model_inv m \<Longrightarrow> model_inv (tsa_stream_model_update_es pmt pid t m)"
proof -
  assume ok: "model_inv m"
  show ?thesis
  proof (cases "8192 \<le> unat pmt \<or> pid_to_program_idx m pmt = - 1")
    case True
    then show ?thesis using ok by (simp add: tsa_stream_model_update_es_def Let_def)
  next
    case False
    let ?i = "nat (pid_to_program_idx m pmt)"
    let ?p = "tm_programs m ! ?i" and ?q = "(tm_programs m ! ?i)\<lparr>pm_es := update_es_list pid t (pm_es (tm_programs m ! ?i))\<rparr>"
    have i: "?i < length (tm_programs m)" using ok False by (auto simp: model_inv_def dest: spec [of _ pmt])
    then have "?p \<in> set (tm_programs m)" by simp
    then have "length (pm_es ?q) \<le> MAX_ES_PER_PROGRAM \<and> distinct (map em_pid (pm_es ?q))"
      using ok update_es_list_inv by (simp add: model_inv_def)
    moreover have "map pm_program_number ((tm_programs m)[?i := ?q]) = map pm_program_number (tm_programs m)"
      using i by (intro map_update_same) simp_all
    ultimately have "model_inv (m\<lparr>tm_programs := (tm_programs m)[?i := ?q]\<rparr>)"
      using ok by (auto simp: model_inv_def dest!: set_update_subset_insert [THEN subsetD])
    then show ?thesis using False by (simp add: tsa_stream_model_update_es_def Let_def)
  qed
qed

end
