(* ===== verification/Tss_Fifo.thy ===== *)
theory Tss_Fifo
  imports Fifo_Spec "HOL-Library.Monad_Syntax"
begin

text \<open>
  The byte ring of the shaper library (\<open>tss_fifo.c\<close>). A pointer to a ring is an
  option, \<open>None\<close> the null pointer. Sizes are natural numbers: a ring is an object
  in memory, so that no sum of two of them exceeds \<open>size_t\<close>. The result of an
  operation is \<open>None\<close> where the code copies past the end of the buffer or
  divides by a capacity of 0. Every sequence of operations gives the results
  of the same operations on a bounded list of bytes.
\<close>

section \<open>The ring\<close>

record tss_fifo =
  f_buffer :: bytes
  f_head :: nat
  f_tail :: nat
  f_size :: nat
  f_capacity :: nat

text \<open>The bytes a copy of \<open>src\<close> to offset \<open>at\<close> leaves, and the \<open>n\<close> bytes from \<open>at\<close> on.\<close>

definition copy_to :: "bytes \<Rightarrow> nat \<Rightarrow> bytes \<Rightarrow> bytes option" where
  "copy_to buf at src =
    (if at + length src \<le> length buf then Some (take at buf @ src @ drop (at + length src) buf) else None)"

definition copy_from :: "bytes \<Rightarrow> nat \<Rightarrow> nat \<Rightarrow> bytes option" where
  "copy_from buf at n = (if at + n \<le> length buf then Some (take n (drop at buf)) else None)"

text \<open>The argument is the memory that \<open>malloc\<close> returns, whose content is arbitrary.\<close>

definition tss_fifo_alloc :: "bytes \<Rightarrow> tss_fifo option" where
  "tss_fifo_alloc mem = Some \<lparr>f_buffer = mem, f_head = 0, f_tail = 0, f_size = 0, f_capacity = length mem\<rparr>"

definition tss_fifo_size :: "tss_fifo option \<Rightarrow> nat" where
  "tss_fifo_size f = (case f of None \<Rightarrow> 0 | Some f \<Rightarrow> f_size f)"

definition tss_fifo_reset :: "tss_fifo option \<Rightarrow> tss_fifo option" where
  "tss_fifo_reset f = map_option (\<lambda>f. f\<lparr>f_head := 0, f_tail := 0, f_size := 0\<rparr>) f"

definition tss_fifo_write :: "bytes \<Rightarrow> tss_fifo option \<Rightarrow> (int \<times> tss_fifo option) option" where
  "tss_fifo_write buf p = (case p of None \<Rightarrow> Some (-1, None) | Some f \<Rightarrow>
    if f_capacity f < f_size f + length buf then Some (-1, p)
    else let to_end = f_capacity f - f_tail f in do {
      b \<leftarrow> if length buf \<le> to_end then copy_to (f_buffer f) (f_tail f) buf
          else do {
            b \<leftarrow> copy_to (f_buffer f) (f_tail f) (take to_end buf);
            copy_to b 0 (drop to_end buf)
          };
      if f_capacity f = 0 then None
      else Some (0, Some (f\<lparr>f_buffer := b, f_tail := (f_tail f + length buf) mod f_capacity f, f_size := f_size f + length buf\<rparr>))
    })"

text \<open>The \<open>len\<close> bytes from position \<open>start\<close> on, in one copy or in two.\<close>

definition fifo_copy :: "tss_fifo \<Rightarrow> nat \<Rightarrow> nat \<Rightarrow> bytes option" where
  "fifo_copy f start len =
    (let to_end = f_capacity f - start in
     if len \<le> to_end then copy_from (f_buffer f) start len
     else do {
       x \<leftarrow> copy_from (f_buffer f) start to_end;
       y \<leftarrow> copy_from (f_buffer f) 0 (len - to_end);
       Some (x @ y)
     })"

text \<open>Moves the head over \<open>len\<close> bytes.\<close>

definition fifo_skip :: "nat \<Rightarrow> tss_fifo \<Rightarrow> tss_fifo option" where
  "fifo_skip len f =
    (if f_capacity f = 0 then None
     else Some (f\<lparr>f_head := (f_head f + len) mod f_capacity f, f_size := f_size f - len\<rparr>))"

text \<open>A read without a destination buffer only moves the head; \<open>wanted\<close> tells whether there is one.\<close>

definition tss_fifo_read :: "bool \<Rightarrow> nat \<Rightarrow> tss_fifo option \<Rightarrow> (int \<times> bytes \<times> tss_fifo option) option" where
  "tss_fifo_read wanted len p = (case p of None \<Rightarrow> Some (-1, [], None) | Some f \<Rightarrow>
    if f_size f < len then Some (-1, [], p)
    else do {
      out \<leftarrow> if wanted then fifo_copy f (f_head f) len else Some [];
      f \<leftarrow> fifo_skip len f;
      Some (0, out, Some f)
    })"

definition tss_fifo_peek :: "nat \<Rightarrow> nat \<Rightarrow> tss_fifo option \<Rightarrow> (int \<times> bytes) option" where
  "tss_fifo_peek len offset p = (case p of None \<Rightarrow> Some (-1, []) | Some f \<Rightarrow>
    if f_size f < offset + len then Some (-1, [])
    else if f_capacity f = 0 then None
    else do {
      out \<leftarrow> fifo_copy f ((f_head f + offset) mod f_capacity f) len;
      Some (0, out)
    })"

definition tss_fifo_drain :: "nat \<Rightarrow> tss_fifo option \<Rightarrow> tss_fifo option option" where
  "tss_fifo_drain len p = (case p of None \<Rightarrow> Some None | Some f \<Rightarrow>
    do { f \<leftarrow> fifo_skip (if f_size f < len then f_size f else len) f; Some (Some f) })"

section \<open>Its content\<close>

definition fifo_ok :: "tss_fifo \<Rightarrow> bool" where
  "fifo_ok f \<longleftrightarrow> length (f_buffer f) = f_capacity f \<and> f_head f < f_capacity f \<and> f_size f \<le> f_capacity f \<and>
    f_tail f = (f_head f + f_size f) mod f_capacity f"

definition fifo_bytes :: "tss_fifo \<Rightarrow> bytes" where
  "fifo_bytes f = ring_slice (f_buffer f) (f_capacity f) (f_head f) (f_size f)"

lemma length_fifo_bytes [simp]: "length (fifo_bytes f) = f_size f"
  by (simp add: fifo_bytes_def)

lemma wrap_once: "a < c \<Longrightarrow> k \<le> c \<Longrightarrow> (a + k) mod c = (if a + k < c then a + k else a + k - c)" for a :: nat
  by (auto simp: mod_if)

lemma ring_slice_nth: "i < n \<Longrightarrow> ring_slice buf sz start n ! i = buf ! ((start + i) mod sz)"
  by (simp add: ring_slice_def)

lemma ring_slice_eqI:
  assumes "length xs = n" "\<And>i. i < n \<Longrightarrow> buf ! ((start + i) mod sz) = xs ! i"
  shows "ring_slice buf sz start n = xs"
  using assms by (intro nth_equalityI) (auto simp: ring_slice_nth)

lemma ring_slice_append:
  "ring_slice buf sz start (m + n) = ring_slice buf sz start m @ ring_slice buf sz (start + m) n"
  by (rule ring_slice_eqI) (auto simp: nth_append ring_slice_nth)

lemma take_ring_slice: "m \<le> n \<Longrightarrow> take m (ring_slice buf sz start n) = ring_slice buf sz start m"
  by (intro nth_equalityI) (auto simp: ring_slice_nth)

lemma drop_ring_slice: "drop m (ring_slice buf sz start n) = ring_slice buf sz (start + m) (n - m)"
  by (intro nth_equalityI) (auto simp: ring_slice_nth add.assoc)

lemma copy_to_nth:
  assumes "copy_to buf at src = Some b" "j < length buf"
  shows "b ! j = (if at \<le> j \<and> j < at + length src then src ! (j - at) else buf ! j)"
  using assms by (auto simp: copy_to_def nth_append split: if_splits)

lemma copy_to_length: "copy_to buf at src = Some b \<Longrightarrow> length b = length buf"
  by (auto simp: copy_to_def split: if_splits)

text \<open>Copying a slice of the ring, in one piece or in two.\<close>

lemma fifo_copy_slice:
  assumes "length (f_buffer f) = f_capacity f" "start < f_capacity f" "len \<le> f_capacity f"
  shows "fifo_copy f start len = Some (ring_slice (f_buffer f) (f_capacity f) start len)"
proof -
  have "ring_slice (f_buffer f) (f_capacity f) start len =
      (if len \<le> f_capacity f - start then take len (drop start (f_buffer f))
       else drop start (f_buffer f) @ take (len - (f_capacity f - start)) (f_buffer f))"
    using assms by (intro ring_slice_eqI) (auto simp: wrap_once nth_append add.commute)
  then show ?thesis using assms by (auto simp: fifo_copy_def copy_from_def Let_def)
qed

text \<open>Writing behind the content of the ring, in one piece or in two.\<close>

lemma write_slot:
  assumes f: "length b0 = c" "t < c" "length buf \<le> c"
    and b: "(if length buf \<le> c - t then copy_to b0 t buf
        else do { b \<leftarrow> copy_to b0 t (take (c - t) buf); copy_to b 0 (drop (c - t) buf) }) = Some b"
    and j: "j < c"
  shows "length b = c \<and> b ! j = (if t \<le> j \<and> j < t + length buf then buf ! (j - t)
      else if j + c < t + length buf then buf ! (j + c - t) else b0 ! j)"
proof (cases "length buf \<le> c - t")
  case True
  then show ?thesis using copy_to_nth [of b0 t buf b j] copy_to_length [of b0 t buf b] f b j by auto
next
  case False
  then obtain b1 where b1: "copy_to b0 t (take (c - t) buf) = Some b1" "copy_to b1 0 (drop (c - t) buf) = Some b"
    using b by (auto simp: bind_eq_Some_conv)
  note l = copy_to_length [OF b1(1)] copy_to_length [OF b1(2)]
  show ?thesis
    using copy_to_nth [OF b1(1), of j] copy_to_nth [OF b1(2), of j] l f j False by (auto simp: nth_append add.commute)
qed

lemma fifo_write_ok:
  assumes f: "fifo_ok f" and fits: "f_size f + length buf \<le> f_capacity f"
  shows "\<exists>f'. tss_fifo_write buf (Some f) = Some (0, Some f') \<and> fifo_ok f' \<and>
    fifo_bytes f' = fifo_bytes f @ buf \<and> f_capacity f' = f_capacity f"
proof -
  let ?c = "f_capacity f" let ?t = "f_tail f" let ?n = "length buf"
  have t: "?t < ?c" and l: "length (f_buffer f) = ?c" using f by (auto simp: fifo_ok_def)
  have "\<exists>b. (if ?n \<le> ?c - ?t then copy_to (f_buffer f) ?t buf
      else do { b \<leftarrow> copy_to (f_buffer f) ?t (take (?c - ?t) buf); copy_to b 0 (drop (?c - ?t) buf) }) = Some b"
    using t l fits by (auto simp: copy_to_def)
  then obtain b where b: "(if ?n \<le> ?c - ?t then copy_to (f_buffer f) ?t buf
      else do { b \<leftarrow> copy_to (f_buffer f) ?t (take (?c - ?t) buf); copy_to b 0 (drop (?c - ?t) buf) }) = Some b" ..
  let ?f = "f\<lparr>f_buffer := b, f_tail := (?t + ?n) mod ?c, f_size := f_size f + ?n\<rparr>"
  note s = write_slot [OF l t _ b]
  have lb: "length b = ?c" using s [of 0] fits t by simp
  have "ring_slice b ?c (f_head f) (f_size f + ?n) = fifo_bytes f @ buf"
  proof (rule ring_slice_eqI)
    fix i assume i: "i < f_size f + ?n"
    let ?j = "(f_head f + i) mod ?c"
    have h: "f_head f < ?c" "?t = (if f_head f + f_size f < ?c then f_head f + f_size f else f_head f + f_size f - ?c)"
      "?j = (if f_head f + i < ?c then f_head f + i else f_head f + i - ?c)"
      using f i fits by (auto simp: fifo_ok_def wrap_once)
    have "b ! ?j = (if i < f_size f then f_buffer f ! ?j else buf ! (i - f_size f))"
      using s [of ?j] h i fits by (auto intro!: arg_cong [where f = "(!) buf"])
    then show "b ! ?j = (fifo_bytes f @ buf) ! i" by (auto simp: nth_append fifo_bytes_def ring_slice_nth)
  qed simp
  moreover have "tss_fifo_write buf (Some f) = Some (0, Some ?f)"
    using b fits t by (auto simp: tss_fifo_write_def Let_def)
  moreover have "fifo_ok ?f" using f lb fits by (auto simp: fifo_ok_def mod_add_left_eq add.assoc)
  ultimately show ?thesis by (intro exI [of _ ?f]) (simp add: fifo_bytes_def)
qed

lemma fifo_skip_ok:
  assumes f: "fifo_ok f" "len \<le> f_size f"
  shows "\<exists>f'. fifo_skip len f = Some f' \<and> fifo_ok f' \<and> fifo_bytes f' = drop len (fifo_bytes f) \<and> f_capacity f' = f_capacity f"
proof -
  have "((f_head f + len) mod f_capacity f + (f_size f - len)) mod f_capacity f = (f_head f + f_size f) mod f_capacity f"
    using f(2) by (metis mod_add_left_eq add.assoc le_add_diff_inverse)
  then show ?thesis using f by (auto simp: fifo_skip_def fifo_ok_def fifo_bytes_def drop_ring_slice)
qed

lemma fifo_copy_head:
  assumes "fifo_ok f" "offset + len \<le> f_size f"
  shows "fifo_copy f ((f_head f + offset) mod f_capacity f) len = Some (take len (drop offset (fifo_bytes f)))"
proof -
  have "fifo_copy f ((f_head f + offset) mod f_capacity f) len =
      Some (ring_slice (f_buffer f) (f_capacity f) ((f_head f + offset) mod f_capacity f) len)"
    using assms by (intro fifo_copy_slice) (auto simp: fifo_ok_def)
  then show ?thesis using assms by (simp add: fifo_bytes_def drop_ring_slice take_ring_slice)
qed

section \<open>Refinement of a bounded list of bytes\<close>

datatype fifo_call = Fifo_Write bytes | Fifo_Read bool nat | Fifo_Peek nat nat | Fifo_Drain nat | Fifo_Reset | Fifo_Size

text \<open>What a call returns: a status or a size, and the bytes it hands out.\<close>

type_synonym fifo_answer = "int \<times> bytes"

definition fifo_do :: "fifo_call \<Rightarrow> tss_fifo option \<Rightarrow> (fifo_answer \<times> tss_fifo option) option" where
  "fifo_do c p = (case c of
     Fifo_Write buf \<Rightarrow> map_option (\<lambda>(r, p). ((r, []), p)) (tss_fifo_write buf p)
   | Fifo_Read wanted n \<Rightarrow> map_option (\<lambda>(r, out, p). ((r, out), p)) (tss_fifo_read wanted n p)
   | Fifo_Peek n offset \<Rightarrow> map_option (\<lambda>a. (a, p)) (tss_fifo_peek n offset p)
   | Fifo_Drain n \<Rightarrow> map_option (Pair (0, [])) (tss_fifo_drain n p)
   | Fifo_Reset \<Rightarrow> Some ((0, []), tss_fifo_reset p)
   | Fifo_Size \<Rightarrow> Some ((int (tss_fifo_size p), []), p))"

definition bytes_do :: "nat \<Rightarrow> fifo_call \<Rightarrow> bytes \<Rightarrow> fifo_answer \<times> bytes" where
  "bytes_do cap c xs = (case c of
     Fifo_Write buf \<Rightarrow> if length (xs @ buf) \<le> cap then ((0, []), xs @ buf) else ((-1, []), xs)
   | Fifo_Read wanted n \<Rightarrow> if n \<le> length xs then ((0, if wanted then take n xs else []), drop n xs) else ((-1, []), xs)
   | Fifo_Peek n offset \<Rightarrow> (if offset + n \<le> length xs then (0, take n (drop offset xs)) else (-1, []), xs)
   | Fifo_Drain n \<Rightarrow> ((0, []), drop n xs)
   | Fifo_Reset \<Rightarrow> ((0, []), [])
   | Fifo_Size \<Rightarrow> ((int (length xs), []), xs))"

lemma fifo_do_refines:
  assumes f: "fifo_ok f"
  shows "\<exists>f'. fifo_do c (Some f) = Some (fst (bytes_do (f_capacity f) c (fifo_bytes f)), Some f') \<and> fifo_ok f' \<and>
    fifo_bytes f' = snd (bytes_do (f_capacity f) c (fifo_bytes f)) \<and> f_capacity f' = f_capacity f"
proof (cases c)
  case (Fifo_Write buf)
  then show ?thesis using f fifo_write_ok [OF f, of buf]
    by (auto simp: fifo_do_def bytes_do_def tss_fifo_write_def)
next
  case (Fifo_Read wanted n)
  then show ?thesis
    using f fifo_skip_ok [OF f, of n] fifo_copy_head [OF f, of 0 n]
    by (auto simp: fifo_do_def bytes_do_def tss_fifo_read_def fifo_ok_def)
next
  case (Fifo_Peek n offset)
  then show ?thesis using f fifo_copy_head [OF f, of offset n]
    by (auto simp: fifo_do_def bytes_do_def tss_fifo_peek_def fifo_ok_def)
next
  case (Fifo_Drain n)
  then show ?thesis using f fifo_skip_ok [OF f, of "if f_size f < n then f_size f else n"]
    by (auto simp: fifo_do_def bytes_do_def tss_fifo_drain_def split: if_splits)
next
  case Fifo_Reset
  then show ?thesis using f by (auto simp: fifo_do_def bytes_do_def tss_fifo_reset_def fifo_ok_def fifo_bytes_def)
next
  case Fifo_Size
  then show ?thesis using f by (auto simp: fifo_do_def bytes_do_def tss_fifo_size_def)
qed

fun fifo_calls :: "fifo_call list \<Rightarrow> tss_fifo option \<Rightarrow> (fifo_answer list \<times> tss_fifo option) option" where
  "fifo_calls [] p = Some ([], p)"
| "fifo_calls (c # cs) p = do {
     (a, p) \<leftarrow> fifo_do c p;
     (as, p) \<leftarrow> fifo_calls cs p;
     Some (a # as, p)
   }"

fun bytes_calls :: "nat \<Rightarrow> fifo_call list \<Rightarrow> bytes \<Rightarrow> fifo_answer list" where
  "bytes_calls cap [] xs = []"
| "bytes_calls cap (c # cs) xs = fst (bytes_do cap c xs) # bytes_calls cap cs (snd (bytes_do cap c xs))"

lemma fifo_calls_refine:
  "fifo_ok f \<Longrightarrow> \<exists>f'. fifo_calls cs (Some f) = Some (bytes_calls (f_capacity f) cs (fifo_bytes f), Some f') \<and> fifo_ok f'"
proof (induction cs arbitrary: f)
  case (Cons c cs)
  from fifo_do_refines [OF Cons.prems, of c] obtain f1 where
    f1: "fifo_do c (Some f) = Some (fst (bytes_do (f_capacity f) c (fifo_bytes f)), Some f1)" "fifo_ok f1"
      "fifo_bytes f1 = snd (bytes_do (f_capacity f) c (fifo_bytes f))" "f_capacity f1 = f_capacity f" by blast
  with Cons.IH [OF f1(2)] show ?case by auto
qed simp



end
