(* ===== verification/Tss_Shaper.thy ===== *)
theory Tss_Shaper
  imports Tss_Fifo "HOL-Library.Signed_Division" "HOL-Library.Sublist"
begin

text \<open>
  The shaper library up to its output loop: data and construction
  (\<open>tsshaper.c\<close>), the token buckets (\<open>tss_pacing.c\<close>), the vote on time line jumps
  (\<open>tss_voter.c\<close>) and the input path (\<open>tss_io.c\<close>, \<open>tsshaper.c\<close>).

  The states of the PIDs are a list, a pointer to one of them is its index. An
  \<open>int64_t\<close> is an \<open>int\<close>; where its value depends on time stamps or rates the
  result of an operation out of range is \<open>None\<close>. Signed division rounds towards
  0. Logging is left out.
\<close>

section \<open>Data\<close>

definition TSS_TS_PACKET_SIZE :: nat where "TSS_TS_PACKET_SIZE = 188"
definition TSS_NOPTS_VALUE :: int where "TSS_NOPTS_VALUE = - (2 ^ 63)"
definition TSS_SYS_CLOCK_FREQ :: int where "TSS_SYS_CLOCK_FREQ = 27000000"
definition TSS_TS_PACKET_BITS :: int where "TSS_TS_PACKET_BITS = 1504"
definition TSS_TIMELINE_MODULO :: int where "TSS_TIMELINE_MODULO = 2 ^ 33 * 300"
definition TSS_PREC_SCALE :: int where "TSS_PREC_SCALE = 1000"
definition TSS_REANCHOR_TOKEN_MS :: int where "TSS_REANCHOR_TOKEN_MS = 50"
definition TSS_LATE_THRESHOLD :: int where "TSS_LATE_THRESHOLD = 13500000"
definition TSS_LATE_MARGIN :: int where "TSS_LATE_MARGIN = 2700000"

lemmas tss_consts = TSS_TS_PACKET_SIZE_def TSS_NOPTS_VALUE_def TSS_SYS_CLOCK_FREQ_def TSS_TS_PACKET_BITS_def
  TSS_TIMELINE_MODULO_def TSS_PREC_SCALE_def TSS_REANCHOR_TOKEN_MS_def TSS_LATE_THRESHOLD_def TSS_LATE_MARGIN_def

text \<open>The result of an operation on \<open>int64_t\<close>.\<close>

definition i64 :: "int \<Rightarrow> int option" where
  "i64 x = (if - (2 ^ 63) \<le> x \<and> x < 2 ^ 63 then Some x else None)"

datatype tss_pid_type = TSS_PID_VIDEO | TSS_PID_AUDIO | TSS_PID_PSI | TSS_PID_DATA | TSS_PID_PCR

datatype tss_state = TSS_STATE_NORMAL | TSS_STATE_SOFT_DISCONTINUITY | TSS_STATE_CONFIRMING
  | TSS_STATE_HARD_DISCONTINUITY | TSS_STATE_RECOVERY | TSS_STATE_WAIT_IDR

datatype tss_jump_level = JUMP_LEVEL_JITTER | JUMP_LEVEL_SOFT | JUMP_LEVEL_SUSPICIOUS | JUMP_LEVEL_HARD

record tss_jump_analyzer =
  delta_ms :: int
  jump_level :: tss_jump_level

record tss_pid_state =
  pid_number :: int
  pid_type :: tss_pid_type
  ts_fifo :: "tss_fifo option"
  fifo_capacity :: int
  vbv_size_bits :: int
  tokens_bits :: int
  bucket_size_bits :: int
  base_refill_rate_bps :: int
  effective_refill_rate_bps :: int
  refill_rate_base :: int
  last_update_ts :: int
  token_remainder :: int
  bitrate_bps :: int
  allocated_cbr_rate :: int
  continuous_fullness_bits :: int
  next_arrival_ts :: int
  tb_fullness_bits :: int
  tb_size_bits :: int
  rx_rate_bps :: int
  cc :: u8
  last_dts_raw :: int
  buffer_level_bits :: int
  au_events :: "tss_fifo option"
  needs_discontinuity :: bool
  need_resync :: bool
  is_current_au_key :: bool
  next_pacing_stc :: int
  pid_last_refill_stc :: int
  pacing_tokens :: int
  pi_integral :: int
  cc_drop_count :: u64
  is_urgent :: bool
  wait_idr_start_stc :: int
  resync_count :: int
  tel_audio_shed_count :: int
  tel_watchdog_count :: int
  tel_psi_rotate_count :: int
  tel_input_ema_bps :: int
  rx_bytes_total :: int
  fifo_accept_bytes :: int
  drop_bytes_total :: int
  last_1s_rx_bytes :: int
  last_1s_accept_bytes :: int
  last_1s_emitted_bytes :: int
  last_1s_drop_bytes :: int
  nominal_refill_bps :: int
  tel_sec_slack_min_27m :: int
  analyzer :: tss_jump_analyzer
  stream_offset :: int
  avg_frame_duration :: int
  fsm_state :: tss_state
  confirm_streak :: int
  candidate_jump :: int
  confirm_start_physical_stc :: int

text \<open>Of a program the input path reads only the PCR PID.\<close>

record tss_program =
  pcr_pid :: int

record tss_fractional_stc =
  stc_base :: int
  stc_rem :: int
  stc_den :: int

record tsshaper_config =
  cfg_mux_rate :: u64
  cfg_pcr_period_ms :: u32
  cfg_mux_delay_ms :: u32
  cfg_nb_streams :: int

record tsshaper =
  cfg :: tsshaper_config
  dts_epoch_invalid :: bool
  v_stc :: int
  physical_stc :: int
  stc :: tss_fractional_stc
  stc_offset :: int
  mux_delay_27m :: int
  max_dts_seen :: int
  total_bytes_written :: int
  packet_count :: int
  ticks_per_packet :: int
  rem_per_packet :: int
  mux_rate :: int
  max_fifo_size :: int
  programs :: "tss_program option list"
  all_pids :: "tss_pid_state list"
  pid_map :: "nat \<Rightarrow> nat option"
  stream_index_to_pid :: "nat option list"
  last_refill_physical_stc :: int
  last_log_stc :: int
  first_dts :: int
  dts_offset :: int
  pending_discontinuity :: bool
  jump_occurred :: bool
  tel_last_1s_stc :: int
  tel_sec_start_stc :: int
  next_slot_stc :: int

text \<open>Updates every PID; a failing update fails the whole.\<close>

definition each_pid :: "(tss_pid_state \<Rightarrow> tss_pid_state option) \<Rightarrow> tsshaper \<Rightarrow> tsshaper option" where
  "each_pid f ctx = map_option (\<lambda>ps. ctx\<lparr>all_pids := ps\<rparr>) (those (map f (all_pids ctx)))"

definition put_pid :: "nat \<Rightarrow> tss_pid_state \<Rightarrow> tsshaper \<Rightarrow> tsshaper" where
  "put_pid k p ctx = ctx\<lparr>all_pids := (all_pids ctx)[k := p]\<rparr>"

section \<open>Token buckets\<close>

definition tss_clip64 :: "int \<Rightarrow> int \<Rightarrow> int \<Rightarrow> int" where
  "tss_clip64 a amin amax = (if a < amin then amin else if amax < a then amax else a)"

text \<open>The rate at which a video PID is refilled follows its input rate.\<close>

definition track_refill :: "tss_pid_state \<Rightarrow> tss_pid_state option" where
  "track_refill p = do {
     anchor \<leftarrow> if 0 < tel_input_ema_bps p then Some (tel_input_ema_bps p)
              else map_option (\<lambda>x. x sdiv 1000) (i64 (bitrate_bps p * 1005));
     let multiplier = (if pacing_tokens p < 100 then TSS_PREC_SCALE else pacing_tokens p);
     raw \<leftarrow> i64 (anchor * multiplier);
     let raw_target = raw sdiv TSS_PREC_SCALE;
     let eff = (if effective_refill_rate_bps p = 0 then anchor else effective_refill_rate_bps p);
     let max_slew = anchor sdiv 200;
     step \<leftarrow> i64 (raw_target - eff);
     slewed_target \<leftarrow> i64 (eff + tss_clip64 step (- max_slew) max_slew);
     old \<leftarrow> i64 (eff * 15);
     smooth \<leftarrow> i64 (old + slewed_target);
     upper \<leftarrow> i64 (base_refill_rate_bps p * 120);
     lower \<leftarrow> i64 (base_refill_rate_bps p * 80);
     Some (p\<lparr>effective_refill_rate_bps := tss_clip64 (smooth sdiv 16) (lower sdiv 100) (upper sdiv 100)\<rparr>)
   }"

definition add_tokens :: "int \<Rightarrow> int \<Rightarrow> tss_pid_state \<Rightarrow> tss_pid_state option" where
  "add_tokens delta rate p = do {
     bits \<leftarrow> i64 (delta * rate);
     work_bits \<leftarrow> i64 (bits + token_remainder p);
     tokens \<leftarrow> i64 (tokens_bits p + work_bits sdiv TSS_SYS_CLOCK_FREQ);
     let tokens = (if bucket_size_bits p < tokens then bucket_size_bits p else tokens);
     let min_floor = - (10 * TSS_TS_PACKET_BITS);
     Some (p\<lparr>token_remainder := work_bits smod TSS_SYS_CLOCK_FREQ,
       tokens_bits := if tokens < min_floor then min_floor else tokens\<rparr>)
   }"

definition refill_pid :: "int \<Rightarrow> tss_pid_state \<Rightarrow> tss_pid_state option" where
  "refill_pid delta p =
    (if pid_type p = TSS_PID_VIDEO \<and> 0 < bitrate_bps p then do {
       p \<leftarrow> track_refill p;
       add_tokens delta (effective_refill_rate_bps p) p
     } else add_tokens delta (base_refill_rate_bps p) p)"

definition tss_refill_tokens_flywheel :: "tsshaper \<Rightarrow> tsshaper option" where
  "tss_refill_tokens_flywheel ctx =
    (if last_refill_physical_stc ctx = TSS_NOPTS_VALUE then Some (ctx\<lparr>last_refill_physical_stc := physical_stc ctx\<rparr>)
     else do {
       delta \<leftarrow> i64 (physical_stc ctx - last_refill_physical_stc ctx);
       if delta < 0 then Some (ctx\<lparr>last_refill_physical_stc := physical_stc ctx\<rparr>)
       else if 0 < delta then do {
         ctx \<leftarrow> each_pid (refill_pid delta) ctx;
         Some (ctx\<lparr>last_refill_physical_stc := physical_stc ctx\<rparr>)
       } else Some ctx
     })"

section \<open>The vote on a jump of the time line\<close>

text \<open>The step from the last time stamp, across a wrap of the 33-bit time base.\<close>

definition unwrapped_delta :: "int \<Rightarrow> int \<Rightarrow> int option" where
  "unwrapped_delta input lastv = do {
     d \<leftarrow> i64 (input - lastv);
     if d < (- TSS_TIMELINE_MODULO) sdiv 2 then Some (d + TSS_TIMELINE_MODULO)
     else if TSS_TIMELINE_MODULO sdiv 2 < d then Some (d - TSS_TIMELINE_MODULO)
     else Some d
   }"

definition classify_jump :: "int \<Rightarrow> tss_pid_state \<Rightarrow> tss_pid_state option" where
  "classify_jump delta_raw p =
    (let ms = delta_raw sdiv 27000 in
     if \<bar>ms\<bar> < 50 then do {
       avg \<leftarrow> if avg_frame_duration p = 0 then Some \<bar>delta_raw\<bar>
             else map_option (\<lambda>x. drop_bit 4 x) (i64 (avg_frame_duration p * 15 + \<bar>delta_raw\<bar>));
       Some (p\<lparr>analyzer := \<lparr>delta_ms = ms, jump_level = JUMP_LEVEL_JITTER\<rparr>, avg_frame_duration := avg\<rparr>)
     } else Some (p\<lparr>analyzer := \<lparr>delta_ms = ms, jump_level =
         if \<bar>ms\<bar> < 500 then JUMP_LEVEL_SOFT else if \<bar>ms\<bar> < 2000 then JUMP_LEVEL_SUSPICIOUS else JUMP_LEVEL_HARD\<rparr>\<rparr>))"

definition initial_tokens :: "tss_pid_state \<Rightarrow> int option" where
  "initial_tokens p =
    (if 0 < bitrate_bps p then map_option (\<lambda>x. x sdiv 1000) (i64 (bitrate_bps p * TSS_REANCHOR_TOKEN_MS))
     else Some (TSS_TS_PACKET_BITS * 20))"

definition reanchor_pid :: "tss_pid_state \<Rightarrow> tss_pid_state option" where
  "reanchor_pid p = do {
     tokens \<leftarrow> initial_tokens p;
     Some (p\<lparr>tokens_bits := tokens, next_arrival_ts := TSS_NOPTS_VALUE, last_update_ts := TSS_NOPTS_VALUE,
       stream_offset := stream_offset p sdiv 2, fsm_state := TSS_STATE_NORMAL, confirm_streak := 0, need_resync := True\<rparr>)
   }"

text \<open>A confirmed jump of the master moves the clocks and re-anchors every PID.\<close>

definition translate_timeline :: "int \<Rightarrow> tsshaper \<Rightarrow> tsshaper option" where
  "translate_timeline jump ctx = do {
     offset \<leftarrow> i64 (dts_offset ctx + jump);
     base \<leftarrow> i64 (stc_base (stc ctx) + jump);
     so \<leftarrow> i64 (stc_offset ctx + jump);
     each_pid reanchor_pid (ctx\<lparr>dts_offset := offset, stc := (stc ctx)\<lparr>stc_base := base\<rparr>, stc_offset := so, v_stc := base,
       physical_stc := base, last_refill_physical_stc := base, next_slot_stc := base,
       pending_discontinuity := True, jump_occurred := True\<rparr>)
   }"

definition confirm_from :: "int \<Rightarrow> tsshaper \<Rightarrow> tss_pid_state \<Rightarrow> tss_pid_state" where
  "confirm_from delta_raw ctx p = p\<lparr>confirm_streak := 1, candidate_jump := delta_raw,
    confirm_start_physical_stc := if physical_stc ctx \<noteq> TSS_NOPTS_VALUE then physical_stc ctx else 0\<rparr>"

definition confirm_timeout :: "tsshaper \<Rightarrow> tss_pid_state \<Rightarrow> bool option" where
  "confirm_timeout ctx p =
    (if physical_stc ctx \<noteq> TSS_NOPTS_VALUE \<and> confirm_start_physical_stc p \<noteq> TSS_NOPTS_VALUE
     then map_option (\<lambda>x. 500 * 27000 < \<bar>x\<bar>) (i64 (physical_stc ctx - confirm_start_physical_stc p))
     else Some False)"

definition tss_voter_process :: "nat \<Rightarrow> int \<Rightarrow> bool \<Rightarrow> tsshaper \<Rightarrow> (bool \<times> tsshaper) option" where
  "tss_voter_process k input is_master ctx = do {
     delta_raw \<leftarrow> unwrapped_delta input (last_dts_raw (all_pids ctx ! k));
     p \<leftarrow> classify_jump delta_raw (all_pids ctx ! k);
     if fsm_state p = TSS_STATE_CONFIRMING then do {
       late \<leftarrow> confirm_timeout ctx p;
       if late then Some (False, put_pid k (p\<lparr>fsm_state := TSS_STATE_NORMAL, confirm_streak := 0\<rparr>) ctx)
       else do {
         deviation \<leftarrow> i64 (delta_raw - candidate_jump p);
         if \<bar>deviation\<bar> < 500 * 27000 then
           if confirm_streak p + 1 < 3 then Some (False, put_pid k (p\<lparr>confirm_streak := confirm_streak p + 1\<rparr>) ctx)
           else if \<not> is_master then do {
             offset \<leftarrow> i64 (stream_offset p + candidate_jump p);
             Some (False, put_pid k (p\<lparr>fsm_state := TSS_STATE_NORMAL, confirm_streak := 0, stream_offset := offset, last_dts_raw := input\<rparr>) ctx)
           } else do {
             ctx \<leftarrow> translate_timeline (candidate_jump p) (put_pid k (p\<lparr>confirm_streak := confirm_streak p + 1\<rparr>) ctx);
             Some (True, ctx)
           }
         else if \<bar>delta_ms (analyzer p)\<bar> < 500 then
           Some (False, put_pid k (p\<lparr>fsm_state := TSS_STATE_NORMAL, confirm_streak := 0\<rparr>) ctx)
         else Some (False, put_pid k (confirm_from delta_raw ctx p) ctx)
       }
     } else if jump_level (analyzer p) = JUMP_LEVEL_JITTER then Some (False, put_pid k p ctx)
     else if jump_level (analyzer p) = JUMP_LEVEL_SOFT then do {
       step \<leftarrow> i64 (delta_raw - (if 0 < avg_frame_duration p then avg_frame_duration p else 40 * 27000));
       offset \<leftarrow> i64 (stream_offset p + step);
       Some (False, put_pid k (p\<lparr>stream_offset := offset\<rparr>) ctx)
     } else Some (False, put_pid k (confirm_from delta_raw ctx (p\<lparr>fsm_state := TSS_STATE_CONFIRMING\<rparr>)) ctx)
   }"

section \<open>Input of packets\<close>

definition tss_get_state :: "int \<Rightarrow> tsshaper \<Rightarrow> nat option option" where
  "tss_get_state stream_index ctx =
    (if stream_index < 0 \<or> cfg_nb_streams (cfg ctx) \<le> stream_index then Some None
     else if nat stream_index < length (stream_index_to_pid ctx) then Some (stream_index_to_pid ctx ! nat stream_index)
     else None)"

definition is_pcr_packet :: "bytes \<Rightarrow> bool" where
  "is_pcr_packet packet \<longleftrightarrow> packet ! 3 AND 0x20 \<noteq> 0 \<and> 7 \<le> packet ! 4 \<and> packet ! 5 AND 0x10 \<noteq> 0"

definition is_pusi :: "bytes \<Rightarrow> bool" where
  "is_pusi packet \<longleftrightarrow> packet ! 1 AND 0x40 \<noteq> 0"

text \<open>
  While a video PID waits for a key frame its packets are dropped, for up to 3
  seconds. The result tells whether the time base has to be set up anew and
  whether the packet is dropped.
\<close>

definition idr_gate :: "tsshaper \<Rightarrow> bytes \<Rightarrow> tss_pid_state \<Rightarrow> (tss_pid_state \<times> bool \<times> bool) option" where
  "idr_gate ctx packet p =
    (if pid_type p = TSS_PID_VIDEO \<and> fsm_state p = TSS_STATE_WAIT_IDR \<and> \<not> is_pcr_packet packet then
       if wait_idr_start_stc p = 0 then Some (p\<lparr>wait_idr_start_stc := v_stc ctx\<rparr>, False, False)
       else do {
         waited \<leftarrow> i64 (v_stc ctx - wait_idr_start_stc p);
         if 3 * TSS_SYS_CLOCK_FREQ < waited then
           Some (p\<lparr>fsm_state := TSS_STATE_NORMAL, wait_idr_start_stc := 0, need_resync := True, needs_discontinuity := True,
             tel_watchdog_count := tel_watchdog_count p + 1\<rparr>, True, False)
         else Some (p, False, True)
       }
     else Some (p, False, False))"

text \<open>A queue that is nearly full drops by the type of its PID.\<close>

definition shed_packet :: "tsshaper \<Rightarrow> bytes \<Rightarrow> int \<Rightarrow> tss_pid_state \<Rightarrow> tss_pid_state \<times> bool" where
  "shed_packet ctx packet current_size p =
    (if \<not> is_pcr_packet packet \<and> pid_type p \<noteq> TSS_PID_PSI \<and> fifo_capacity p * 9 sdiv 10 < current_size then
       case pid_type p of
         TSS_PID_VIDEO \<Rightarrow>
           if is_pusi packet \<and> \<not> is_current_au_key p
           then (p\<lparr>fsm_state := TSS_STATE_WAIT_IDR, wait_idr_start_stc := v_stc ctx, need_resync := True\<rparr>, True)
           else (p, False)
       | TSS_PID_AUDIO \<Rightarrow>
           if fifo_capacity p * 95 sdiv 100 < current_size \<and> \<not> is_pusi packet
           then (p\<lparr>tel_audio_shed_count := tel_audio_shed_count p + 1\<rparr>, True)
           else (p, False)
       | _ \<Rightarrow> (p, True)
     else (p, False))"

lemma drain_less: "tss_fifo_drain n f = Some f' \<Longrightarrow> 0 < n \<Longrightarrow> n \<le> tss_fifo_size f \<Longrightarrow> tss_fifo_size f' < tss_fifo_size f"
  by (auto simp: tss_fifo_drain_def tss_fifo_size_def fifo_skip_def split: option.splits if_splits)

text \<open>Drops packets from the front until one starts a section.\<close>

function psi_rotate :: "tss_fifo option \<Rightarrow> tss_fifo option option" where
  "psi_rotate f =
    (if TSS_TS_PACKET_SIZE \<le> tss_fifo_size f then
       case tss_fifo_peek TSS_TS_PACKET_SIZE 0 f of None \<Rightarrow> None
       | Some (_, peek_pkt) \<Rightarrow>
         if is_pusi peek_pkt then Some f
         else (case tss_fifo_drain TSS_TS_PACKET_SIZE f of None \<Rightarrow> None | Some f' \<Rightarrow> psi_rotate f')
     else Some f)"
  by pat_completeness auto
termination by (relation "measure tss_fifo_size") (auto simp: TSS_TS_PACKET_SIZE_def dest: drain_less)

declare psi_rotate.simps [simp del]

definition drop_packet :: "bytes \<Rightarrow> tss_pid_state \<Rightarrow> tss_pid_state option" where
  "drop_packet packet p =
    (let p = p\<lparr>drop_bytes_total := drop_bytes_total p + int TSS_TS_PACKET_SIZE, cc_drop_count := cc_drop_count p + 1,
       needs_discontinuity := needs_discontinuity p \<or> pid_type p \<in> {TSS_PID_VIDEO, TSS_PID_AUDIO}\<rparr> in
     if pid_type p = TSS_PID_PSI \<and> is_pusi packet then do {
       f \<leftarrow> tss_fifo_drain TSS_TS_PACKET_SIZE (ts_fifo p);
       f \<leftarrow> psi_rotate f;
       (_, f) \<leftarrow> tss_fifo_write packet f;
       Some (p\<lparr>tel_psi_rotate_count := tel_psi_rotate_count p + 1, ts_fifo := f\<rparr>)
     } else Some p)"

text \<open>
  A packet has 188 bytes; the comparison of the free space converts it to an
  unsigned number.
\<close>

definition tss_internal_enqueue_packet :: "nat \<Rightarrow> bytes \<Rightarrow> tsshaper \<Rightarrow> tsshaper option" where
  "tss_internal_enqueue_packet k packet ctx =
    (let p = all_pids ctx ! k; p = p\<lparr>rx_bytes_total := rx_bytes_total p + int TSS_TS_PACKET_SIZE\<rparr> in
     if length packet \<noteq> TSS_TS_PACKET_SIZE then None
     else if ts_fifo p = None then Some (put_pid k p ctx)
     else do {
       let current_size = int (tss_fifo_size (ts_fifo p));
       (p, invalid, gated) \<leftarrow> idr_gate ctx packet p;
       let (p, force_drop) = (if gated then (p, True) else shed_packet ctx packet current_size p);
       p \<leftarrow> if \<not> force_drop \<and> int TSS_TS_PACKET_SIZE \<le> (fifo_capacity p - int (tss_fifo_size (ts_fifo p))) mod 2 ^ 64 then do {
              (_, f) \<leftarrow> tss_fifo_write packet (ts_fifo p);
              Some (p\<lparr>ts_fifo := f, fifo_accept_bytes := fifo_accept_bytes p + int TSS_TS_PACKET_SIZE\<rparr>)
            } else drop_packet packet p;
       Some (put_pid k p (ctx\<lparr>dts_epoch_invalid := dts_epoch_invalid ctx \<or> invalid\<rparr>))
     })"

definition tsshaper_enqueue_ts :: "u16 \<Rightarrow> bytes \<Rightarrow> tsshaper \<Rightarrow> tsshaper option" where
  "tsshaper_enqueue_ts pid_num pkt ctx =
    (if 8192 \<le> unat pid_num then None
     else case pid_map ctx (unat pid_num) of
       None \<Rightarrow> Some ctx
     | Some k \<Rightarrow> tss_internal_enqueue_packet k pkt ctx)"

section \<open>Input of time stamps\<close>

text \<open>A PID is a master when it carries the PCR of a program; the loop reads every program up to the match.\<close>

fun find_master :: "int \<Rightarrow> tss_program option list \<Rightarrow> bool option" where
  "find_master n [] = Some False"
| "find_master n (None # ps) = None"
| "find_master n (Some pr # ps) = (if n = pcr_pid pr then Some True else find_master n ps)"

definition empty_pid :: "tss_pid_state \<Rightarrow> tss_pid_state option" where
  "empty_pid p = do {
     f \<leftarrow> tss_fifo_drain (tss_fifo_size (ts_fifo p)) (ts_fifo p);
     Some (p\<lparr>ts_fifo := f, au_events := tss_fifo_reset (au_events p), buffer_level_bits := 0,
       continuous_fullness_bits := 0, tb_fullness_bits := 0\<rparr>)
   }"

definition restart_pid :: "int \<Rightarrow> tss_pid_state \<Rightarrow> tss_pid_state option" where
  "restart_pid t p = do {
     tokens \<leftarrow> initial_tokens p;
     Some (p\<lparr>pid_last_refill_stc := t, last_1s_rx_bytes := 0, last_1s_accept_bytes := 0, last_1s_emitted_bytes := 0,
       last_1s_drop_bytes := 0, tokens_bits := tokens, need_resync := True\<rparr>)
   }"

definition first_anchor :: "int \<Rightarrow> tsshaper \<Rightarrow> tsshaper option" where
  "first_anchor dts ctx = do {
     let slack = mux_delay_27m ctx * 9 sdiv 10;
     let base = slack - 400 * 27000;
     offset \<leftarrow> i64 (dts - slack);
     Some (ctx\<lparr>dts_offset := offset, stc := (stc ctx)\<lparr>stc_base := base, stc_rem := 0\<rparr>, v_stc := base, physical_stc := base,
       next_slot_stc := base, stc_offset := base, max_dts_seen := slack\<rparr>)
   }"

definition next_anchor :: "int \<Rightarrow> tsshaper \<Rightarrow> tsshaper option" where
  "next_anchor dts ctx = do {
     seen \<leftarrow> i64 (v_stc ctx + mux_delay_27m ctx * 8 sdiv 10);
     offset \<leftarrow> i64 (dts - seen);
     each_pid empty_pid (ctx\<lparr>dts_offset := offset, max_dts_seen := seen, dts_epoch_invalid := False, jump_occurred := True,
       pending_discontinuity := True\<rparr>)
   }"

definition start_timeline :: "int \<Rightarrow> tsshaper \<Rightarrow> tsshaper option" where
  "start_timeline dts ctx = do {
     let ctx = ctx\<lparr>first_dts := dts\<rparr>;
     ctx \<leftarrow> if v_stc ctx = TSS_NOPTS_VALUE then first_anchor dts ctx else next_anchor dts ctx;
     each_pid (restart_pid (v_stc ctx))
       (ctx\<lparr>total_bytes_written := 0, tel_sec_start_stc := v_stc ctx, last_refill_physical_stc := v_stc ctx\<rparr>)
   }"

definition finish_dts :: "nat \<Rightarrow> int \<Rightarrow> bool \<Rightarrow> tsshaper \<Rightarrow> tsshaper option" where
  "finish_dts k dts is_master ctx = do {
     let p = all_pids ctx ! k;
     rel \<leftarrow> i64 (dts - dts_offset ctx);
     soon \<leftarrow> i64 (v_stc ctx + 2 * 27000);
     let (rel, urgent) = (if rel < soon \<and> v_stc ctx \<noteq> TSS_NOPTS_VALUE then (soon, True) else (rel, is_urgent p));
     late \<leftarrow> i64 (v_stc ctx - TSS_LATE_THRESHOLD);
     let rel = (if rel < late then v_stc ctx - TSS_LATE_MARGIN else rel);
     let seen = (if max_dts_seen ctx < rel \<and> (is_master \<or> packet_count ctx < 10000 \<or> max_dts_seen ctx = 0) then rel else max_dts_seen ctx);
     Some (put_pid k (p\<lparr>rx_bytes_total := rx_bytes_total p + int TSS_TS_PACKET_SIZE, is_urgent := urgent,
         last_update_ts := if last_update_ts p = TSS_NOPTS_VALUE then if v_stc ctx \<noteq> TSS_NOPTS_VALUE then v_stc ctx else 0 else last_update_ts p,
         last_dts_raw := if fsm_state p \<noteq> TSS_STATE_CONFIRMING then dts else last_dts_raw p\<rparr>)
       (ctx\<lparr>max_dts_seen := seen\<rparr>))
   }"

definition note_dts :: "nat \<Rightarrow> int \<Rightarrow> bool \<Rightarrow> tsshaper \<Rightarrow> tsshaper option" where
  "note_dts k dts is_master ctx =
    (let p = all_pids ctx ! k in
     if last_dts_raw p = TSS_NOPTS_VALUE \<or> need_resync p then do {
       arrival \<leftarrow> i64 (dts - dts_offset ctx);
       finish_dts k dts is_master (put_pid k (p\<lparr>next_arrival_ts := arrival, last_dts_raw := dts, need_resync := False\<rparr>) ctx)
     } else do {
       (jumped, ctx) \<leftarrow> tss_voter_process k dts is_master ctx;
       if jumped then Some ctx
       else do {
         let p = all_pids ctx ! k;
         rel \<leftarrow> i64 (dts - dts_offset ctx);
         arrival \<leftarrow> i64 (rel - stream_offset p);
         finish_dts k dts is_master (put_pid k (p\<lparr>next_arrival_ts := arrival\<rparr>) ctx)
       }
     })"

definition tsshaper_enqueue_dts :: "u16 \<Rightarrow> int \<Rightarrow> bool \<Rightarrow> tsshaper \<Rightarrow> tsshaper option" where
  "tsshaper_enqueue_dts pid_num dts is_key ctx = do {
     s \<leftarrow> tss_get_state (uint pid_num) ctx;
     case s of
       None \<Rightarrow> Some ctx
     | Some k \<Rightarrow>
       if dts = TSS_NOPTS_VALUE then Some ctx
       else let p = (all_pids ctx ! k)\<lparr>is_current_au_key := is_key\<rparr>; waiting = (fsm_state p = TSS_STATE_WAIT_IDR) in
       if waiting \<and> \<not> is_key \<and> pid_type p = TSS_PID_VIDEO then Some (put_pid k p ctx)
       else do {
         let ctx = (if waiting
           then put_pid k (p\<lparr>fsm_state := TSS_STATE_NORMAL, wait_idr_start_stc := 0, resync_count := resync_count p + 1, need_resync := True\<rparr>)
             (ctx\<lparr>dts_epoch_invalid := True\<rparr>)
           else put_pid k p ctx);
         is_master \<leftarrow> find_master (pid_number p) (programs ctx);
         if first_dts ctx = TSS_NOPTS_VALUE \<or> dts_epoch_invalid ctx \<and> is_key then do {
           ctx \<leftarrow> start_timeline dts ctx;
           note_dts k dts is_master ctx
         } else if dts_epoch_invalid ctx then Some ctx
         else note_dts k dts is_master ctx
       }
   }"

definition tsshaper_reset_timeline :: "tsshaper \<Rightarrow> tsshaper" where
  "tsshaper_reset_timeline ctx = ctx\<lparr>v_stc := TSS_NOPTS_VALUE, physical_stc := TSS_NOPTS_VALUE, dts_epoch_invalid := True,
    all_pids := map (\<lambda>p. p\<lparr>ts_fifo := tss_fifo_reset (ts_fifo p), last_dts_raw := TSS_NOPTS_VALUE\<rparr>) (all_pids ctx)\<rparr>"

section \<open>Construction\<close>

definition new_shaper :: "tsshaper_config \<Rightarrow> int \<Rightarrow> int \<Rightarrow> int \<Rightarrow> tsshaper" where
  "new_shaper c rate delay fifo_size = \<lparr>cfg = c, dts_epoch_invalid = False, v_stc = TSS_NOPTS_VALUE, physical_stc = TSS_NOPTS_VALUE,
     stc = \<lparr>stc_base = TSS_NOPTS_VALUE, stc_rem = 0, stc_den = rate\<rparr>, stc_offset = 0, mux_delay_27m = delay * 27000,
     max_dts_seen = 0, total_bytes_written = 0, packet_count = 0,
     ticks_per_packet = 8 * int TSS_TS_PACKET_SIZE * TSS_SYS_CLOCK_FREQ sdiv rate,
     rem_per_packet = 8 * int TSS_TS_PACKET_SIZE * TSS_SYS_CLOCK_FREQ smod rate,
     mux_rate = rate, max_fifo_size = fifo_size,
     programs = replicate (nat (if cfg_nb_streams c \<noteq> 0 then cfg_nb_streams c else 1)) None,
     all_pids = [], pid_map = (\<lambda>_. None),
     stream_index_to_pid = replicate (nat (if 0 < cfg_nb_streams c then cfg_nb_streams c else 1)) None,
     last_refill_physical_stc = TSS_NOPTS_VALUE, last_log_stc = TSS_NOPTS_VALUE, first_dts = TSS_NOPTS_VALUE, dts_offset = 0,
     pending_discontinuity = False, jump_occurred = False, tel_last_1s_stc = TSS_NOPTS_VALUE,
     tel_sec_start_stc = TSS_NOPTS_VALUE, next_slot_stc = 0\<rparr>"

text \<open>The capacity of a video queue: 3 delays of data, between 4 and 10 MiB.\<close>

definition fifo_limit :: "int \<Rightarrow> int" where
  "fifo_limit wanted = (let s = max (wanted sdiv 8000) (4 * 1024 * 1024) in if 10 * 1024 * 1024 < s then 10 * 1024 * 1024 else s)"

definition tsshaper_create :: "tsshaper_config \<Rightarrow> tsshaper option" where
  "tsshaper_create c = do {
     let rate = sint (cfg_mux_rate c);
     let delay = (if 0 < cfg_mux_delay_ms c then uint (cfg_mux_delay_ms c) else 700);
     wanted \<leftarrow> i64 (rate * delay);
     wanted \<leftarrow> i64 (wanted * 3);
     if rate = 0 then None else Some (new_shaper c rate delay (fifo_limit wanted))
   }"

text \<open>The state that \<open>calloc\<close> returns.\<close>

definition zero_pid_state :: tss_pid_state where
  "zero_pid_state = \<lparr>pid_number = 0, pid_type = TSS_PID_VIDEO, ts_fifo = None, fifo_capacity = 0, vbv_size_bits = 0, tokens_bits = 0,
    bucket_size_bits = 0, base_refill_rate_bps = 0, effective_refill_rate_bps = 0, refill_rate_base = 0, last_update_ts = 0,
    token_remainder = 0, bitrate_bps = 0, allocated_cbr_rate = 0, continuous_fullness_bits = 0, next_arrival_ts = 0,
    tb_fullness_bits = 0, tb_size_bits = 0, rx_rate_bps = 0, cc = 0, last_dts_raw = 0, buffer_level_bits = 0, au_events = None,
    needs_discontinuity = False, need_resync = False, is_current_au_key = False, next_pacing_stc = 0, pid_last_refill_stc = 0,
    pacing_tokens = 0, pi_integral = 0, cc_drop_count = 0, is_urgent = False, wait_idr_start_stc = 0, resync_count = 0,
    tel_audio_shed_count = 0, tel_watchdog_count = 0, tel_psi_rotate_count = 0, tel_input_ema_bps = 0, rx_bytes_total = 0,
    fifo_accept_bytes = 0, drop_bytes_total = 0, last_1s_rx_bytes = 0, last_1s_accept_bytes = 0, last_1s_emitted_bytes = 0,
    last_1s_drop_bytes = 0, nominal_refill_bps = 0, tel_sec_slack_min_27m = 0,
    analyzer = \<lparr>delta_ms = 0, jump_level = JUMP_LEVEL_JITTER\<rparr>, stream_offset = 0, avg_frame_duration = 0,
    fsm_state = TSS_STATE_NORMAL, confirm_streak = 0, candidate_jump = 0, confirm_start_physical_stc = 0\<rparr>"

text \<open>Rates and sizes by the type of the PID; those of video follow the bit rate \<open>br\<close>, computed without a sign.\<close>

definition set_video_rates :: "u64 \<Rightarrow> tsshaper \<Rightarrow> tss_pid_state \<Rightarrow> tss_pid_state option" where
  "set_video_rates br ctx p = do {
     let pcr_overhead = (if 0 < cfg_pcr_period_ms (cfg ctx) then 64000 div cfg_pcr_period_ms (cfg ctx) else 2133);
     base \<leftarrow> i64 (sint (br + br * 4 div 184 + ucast pcr_overhead + 50 * 152) * 1050);
     let adaptive_ms = (if br \<le> 800000 then 10 else if 1600000 \<le> br then 20 else 10 + (br - 800000) * 10 div 800000);
     rx \<leftarrow> i64 (mux_rate ctx * 120);
     Some (p\<lparr>refill_rate_base := base sdiv 1000, base_refill_rate_bps := base sdiv 1000, nominal_refill_bps := base sdiv 1000,
       bitrate_bps := base sdiv 1000, bucket_size_bits := max (TSS_TS_PACKET_BITS * 8) (sint (br * adaptive_ms div 1000)),
       rx_rate_bps := max (rx sdiv 100) 20000000, fifo_capacity := max_fifo_size ctx, tb_size_bits := 3 * TSS_TS_PACKET_BITS\<rparr>)
   }"

definition set_rates :: "tss_pid_type \<Rightarrow> u64 \<Rightarrow> tsshaper \<Rightarrow> tss_pid_state \<Rightarrow> tss_pid_state option" where
  "set_rates type br ctx p = (case type of
     TSS_PID_VIDEO \<Rightarrow> set_video_rates br ctx p
   | TSS_PID_AUDIO \<Rightarrow> Some (p\<lparr>base_refill_rate_bps := 2000000, bucket_size_bits := 3 * TSS_TS_PACKET_BITS, rx_rate_bps := 2000000,
       fifo_capacity := 1024 * 1024\<rparr>)
   | _ \<Rightarrow> Some (p\<lparr>base_refill_rate_bps := 128000, rx_rate_bps := 2000000, bucket_size_bits := TSS_TS_PACKET_BITS * 16,
       fifo_capacity := 256 * 1024\<rparr>))"

text \<open>The memory for the rings is \<open>heap\<close>; an access unit has 24 bytes.\<close>

definition init_pid :: "(nat \<Rightarrow> u8) \<Rightarrow> int \<Rightarrow> tss_pid_state \<Rightarrow> tss_pid_state" where
  "init_pid heap level p = p\<lparr>tokens_bits := min (bucket_size_bits p) (TSS_TS_PACKET_BITS * 2), next_pacing_stc := 0, pi_integral := 0,
     pacing_tokens := TSS_PREC_SCALE,
     ts_fifo := tss_fifo_alloc (map heap [0..<nat (fifo_capacity p)]), vbv_size_bits := fifo_capacity p * 8,
     au_events := (if pid_type p \<in> {TSS_PID_VIDEO, TSS_PID_AUDIO} then tss_fifo_alloc (map heap [0..<8192 * 24]) else None),
     last_dts_raw := TSS_NOPTS_VALUE, tel_sec_slack_min_27m := 10 * TSS_SYS_CLOCK_FREQ, continuous_fullness_bits := level,
     buffer_level_bits := (if pid_type p \<noteq> TSS_PID_AUDIO then max (TSS_TS_PACKET_BITS * 2) level else level),
     last_update_ts := TSS_NOPTS_VALUE, cc := 15\<rparr>"

definition tsshaper_add_pid :: "(nat \<Rightarrow> u8) \<Rightarrow> u16 \<Rightarrow> tss_pid_type \<Rightarrow> u64 \<Rightarrow> tsshaper \<Rightarrow> (int \<times> tsshaper) option" where
  "tsshaper_add_pid heap pid_num type br ctx =
    (if 8192 \<le> unat pid_num then Some (-1, ctx)
     else if 8192 \<le> length (all_pids ctx) then None
     else do {
       p \<leftarrow> set_rates type br ctx (zero_pid_state\<lparr>pid_number := uint pid_num, pid_type := type, allocated_cbr_rate := sint br,
              tb_size_bits := 512 * 8\<rparr>);
       level \<leftarrow> i64 (bitrate_bps p * 100);
       Some (0, ctx\<lparr>all_pids := all_pids ctx @ [init_pid heap (level sdiv 1000) p],
         pid_map := (pid_map ctx)(unat pid_num := Some (length (all_pids ctx)))\<rparr>)
     })"

end
