(* ===== verification/Tss_Shaper_Facts.thy ===== *)
theory Tss_Shaper_Facts
  imports Tss_Shaper
begin

text \<open>
  What the shaper's input side guarantees: refilling buckets loses no fraction
  of a bit however time is cut into steps, a jump of the time line takes three
  votes, and the queues hold packets that were received, in their order. The
  last part also shows that the public operations alone never start the time
  line.
\<close>

section \<open>Token buckets\<close>

lemma those_map_Some: "(\<And>x. x \<in> set xs \<Longrightarrow> f x = Some (g x)) \<Longrightarrow> those (map f xs) = Some (map g xs)"
  by (induction xs) auto

lemma those_map_nth:
  "those (map f xs) = Some ys \<Longrightarrow> length ys = length xs \<and> (\<forall>i<length xs. f (xs ! i) = Some (ys ! i))"
proof (induction xs arbitrary: ys)
  case (Cons x xs)
  then obtain z zs where "ys = z # zs" "f x = Some z" "those (map f xs) = Some zs" by (auto split: option.splits)
  with Cons.IH [of zs] show ?case by (auto simp: less_Suc_eq_0_disj)
qed simp

lemma i64_Some [simp]: "i64 x = Some y \<longleftrightarrow> y = x \<and> - (2 ^ 63) \<le> x \<and> x < 2 ^ 63"
  by (auto simp: i64_def)

text \<open>The state of a bucket after \<open>d\<close> ticks at its base rate, if nothing overflows.\<close>

definition filled :: "int \<Rightarrow> tss_pid_state \<Rightarrow> tss_pid_state" where
  "filled d p = p\<lparr>token_remainder := (token_remainder p + base_refill_rate_bps p * d) mod TSS_SYS_CLOCK_FREQ,
     tokens_bits := tokens_bits p + (token_remainder p + base_refill_rate_bps p * d) div TSS_SYS_CLOCK_FREQ\<rparr>"

lemma filled_fields [simp]:
  "pid_type (filled d p) = pid_type p" "bitrate_bps (filled d p) = bitrate_bps p"
  "base_refill_rate_bps (filled d p) = base_refill_rate_bps p" "bucket_size_bits (filled d p) = bucket_size_bits p"
  "0 \<le> token_remainder (filled d p)" "token_remainder (filled d p) < TSS_SYS_CLOCK_FREQ"
  by (simp_all add: filled_def TSS_SYS_CLOCK_FREQ_def)

text \<open>A PID with a constant rate whose bucket has room for \<open>d\<close> ticks.\<close>

definition has_room :: "int \<Rightarrow> tss_pid_state \<Rightarrow> bool" where
  "has_room d p \<longleftrightarrow> (pid_type p \<noteq> TSS_PID_VIDEO \<or> bitrate_bps p \<le> 0) \<and> 0 \<le> base_refill_rate_bps p \<and>
    0 \<le> token_remainder p \<and> token_remainder p < TSS_SYS_CLOCK_FREQ \<and> token_remainder p + base_refill_rate_bps p * d < 2 ^ 63 \<and>
    - (10 * TSS_TS_PACKET_BITS) \<le> tokens_bits p \<and> tokens_bits (filled d p) \<le> bucket_size_bits p \<and> bucket_size_bits p < 2 ^ 63"

lemma sdiv_pos: "0 \<le> a \<Longrightarrow> 0 < b \<Longrightarrow> a sdiv b = a div b \<and> a smod b = a mod b" for a b :: int
  by (auto simp: signed_divide_int_def signed_modulo_int_def sgn_if algebra_simps minus_mult_div_eq_mod [symmetric])

lemma div_carry: "0 < c \<Longrightarrow> x div c + (x mod c + y) div c = (x + y) div c" for x y c :: int
proof -
  assume "0 < c"
  then have "(x mod c + y + x div c * c) div c = x div c + (x mod c + y) div c" by (intro div_mult_self1) simp
  moreover have "x mod c + y + x div c * c = x + y" using mod_div_mult_eq [of x c] by simp
  ultimately show ?thesis by simp
qed

lemma filled_filled: "filled e (filled d p) = filled (d + e) p"
proof -
  let ?F = TSS_SYS_CLOCK_FREQ and ?x = "token_remainder p + base_refill_rate_bps p * d" and ?y = "base_refill_rate_bps p * e"
  have "(?x mod ?F + ?y) mod ?F = (?x + ?y) mod ?F" by (rule mod_add_left_eq)
  moreover have "?x div ?F + (?x mod ?F + ?y) div ?F = (?x + ?y) div ?F"
    by (rule div_carry) (simp add: TSS_SYS_CLOCK_FREQ_def)
  moreover have "token_remainder p + base_refill_rate_bps p * (d + e) = ?x + ?y" by (simp add: algebra_simps)
  ultimately show ?thesis by (simp add: filled_def add.assoc)
qed

lemma filled_mono:
  assumes "0 \<le> base_refill_rate_bps p" "d \<le> e"
  shows "tokens_bits (filled d p) \<le> tokens_bits (filled e p)"
  using assms mult_left_mono [OF assms(2,1)] by (simp add: filled_def TSS_SYS_CLOCK_FREQ_def zdiv_mono1)

lemma refill_filled:
  assumes r: "has_room e p" and d: "0 \<le> d" "d \<le> e"
  shows "refill_pid d p = Some (filled d p)" "has_room (e - d) (filled d p)"
proof -
  let ?r = "base_refill_rate_bps p" and ?w = "token_remainder p + base_refill_rate_bps p * d"
  have m: "?r * d \<le> ?r * e" "0 \<le> ?r * d" using r d by (auto simp: has_room_def mult_left_mono)
  have w: "0 \<le> ?w" "?w < 2 ^ 63" using r m by (auto simp: has_room_def)
  have q: "0 \<le> ?w div TSS_SYS_CLOCK_FREQ" using w by (simp add: TSS_SYS_CLOCK_FREQ_def pos_imp_zdiv_nonneg_iff)
  have t: "tokens_bits (filled d p) = tokens_bits p + ?w div TSS_SYS_CLOCK_FREQ" by (simp add: filled_def)
  have b: "tokens_bits (filled d p) \<le> bucket_size_bits p" using filled_mono [of p d e] r d by (simp add: has_room_def)
  have s: "?w sdiv TSS_SYS_CLOCK_FREQ = ?w div TSS_SYS_CLOCK_FREQ" "?w smod TSS_SYS_CLOCK_FREQ = ?w mod TSS_SYS_CLOCK_FREQ"
    using sdiv_pos [of ?w TSS_SYS_CLOCK_FREQ] w by (auto simp: TSS_SYS_CLOCK_FREQ_def)
  have c: "d * ?r = ?r * d" "?r * d + token_remainder p = ?w" by simp_all
  have "i64 (?r * d) = Some (?r * d)" "i64 ?w = Some ?w" "i64 (tokens_bits (filled d p)) = Some (tokens_bits (filled d p))"
    using r m w q t b by (auto simp: has_room_def TSS_TS_PACKET_BITS_def)
  moreover have "\<not> bucket_size_bits p < tokens_bits (filled d p)" "\<not> tokens_bits (filled d p) < - (10 * TSS_TS_PACKET_BITS)"
    using r q t b by (auto simp: has_room_def)
  ultimately have "add_tokens d ?r p = Some (filled d p)"
    unfolding add_tokens_def c by (simp only: t s Let_def Option.bind.simps if_False c) (simp only: filled_def)
  then show "refill_pid d p = Some (filled d p)" using r by (auto simp: refill_pid_def has_room_def)
  have "token_remainder (filled d p) + ?r * (e - d) \<le> token_remainder p + ?r * e"
    using zmod_le_nonneg_dividend [OF w(1), of TSS_SYS_CLOCK_FREQ] by (simp add: filled_def algebra_simps)
  moreover have "filled (e - d) (filled d p) = filled e p" by (simp add: filled_filled)
  ultimately show "has_room (e - d) (filled d p)"
    using r q t unfolding has_room_def filled_fields by (intro conjI) simp_all
qed

text \<open>The refills at the clock values of a list.\<close>

fun refill_run :: "int list \<Rightarrow> tsshaper \<Rightarrow> tsshaper option" where
  "refill_run [] ctx = Some ctx"
| "refill_run (t # ts) ctx = do {
     ctx \<leftarrow> tss_refill_tokens_flywheel (ctx\<lparr>physical_stc := t\<rparr>);
     refill_run ts ctx
   }"

lemma refill_step:
  assumes r: "\<forall>p \<in> set (all_pids ctx). has_room e p" and t: "last_refill_physical_stc ctx \<noteq> TSS_NOPTS_VALUE"
    and d: "d = t - last_refill_physical_stc ctx" "0 \<le> d" "d \<le> e" "e < 2 ^ 63"
  shows "tss_refill_tokens_flywheel (ctx\<lparr>physical_stc := t\<rparr>) =
    Some (ctx\<lparr>physical_stc := t, last_refill_physical_stc := t, all_pids := map (filled d) (all_pids ctx)\<rparr>)"
proof (cases "d = 0")
  case True
  have "map (filled 0) (all_pids ctx) = all_pids ctx"
    using r by (intro map_idI) (auto simp: filled_def has_room_def)
  with True t d(1) show ?thesis by (simp add: tss_refill_tokens_flywheel_def i64_def)
next
  case False
  have "those (map (refill_pid d) (all_pids ctx)) = Some (map (filled d) (all_pids ctx))"
    using r d refill_filled(1) by (intro those_map_Some) blast
  with False t d show ?thesis by (simp add: tss_refill_tokens_flywheel_def each_pid_def i64_def)
qed



text \<open>The rate of a video PID stays within a fifth of its base rate, and no bucket leaves its bounds.\<close>

lemma clip_bounds: "amin \<le> amax \<Longrightarrow> amin \<le> tss_clip64 a amin amax \<and> tss_clip64 a amin amax \<le> amax"
  by (auto simp: tss_clip64_def)

lemma refill_bounds:
  assumes "refill_pid d p = Some p'" "- (10 * TSS_TS_PACKET_BITS) \<le> bucket_size_bits p"
  shows "- (10 * TSS_TS_PACKET_BITS) \<le> tokens_bits p' \<and> tokens_bits p' \<le> bucket_size_bits p \<and>
    (pid_type p = TSS_PID_VIDEO \<and> 0 < bitrate_bps p \<and> 0 \<le> base_refill_rate_bps p \<longrightarrow>
      base_refill_rate_bps p * 80 div 100 \<le> effective_refill_rate_bps p' \<and>
      effective_refill_rate_bps p' \<le> base_refill_rate_bps p * 120 div 100)"
proof -
  have a: "- (10 * TSS_TS_PACKET_BITS) \<le> tokens_bits y \<and> tokens_bits y \<le> bucket_size_bits x \<and> effective_refill_rate_bps y = effective_refill_rate_bps x"
    if "add_tokens d r x = Some y" "- (10 * TSS_TS_PACKET_BITS) \<le> bucket_size_bits x" for r x y
    using that by (auto simp: add_tokens_def bind_eq_Some_conv Let_def)
  have e: "bucket_size_bits x = bucket_size_bits p \<and> (0 \<le> base_refill_rate_bps p \<longrightarrow>
      base_refill_rate_bps p * 80 div 100 \<le> effective_refill_rate_bps x \<and> effective_refill_rate_bps x \<le> base_refill_rate_bps p * 120 div 100)"
    if tr: "track_refill p = Some x" for x
  proof -
    obtain v where x: "x = p\<lparr>effective_refill_rate_bps := tss_clip64 v (base_refill_rate_bps p * 80 sdiv 100) (base_refill_rate_bps p * 120 sdiv 100)\<rparr>"
      using tr by (auto simp: track_refill_def bind_eq_Some_conv Let_def)
    have "base_refill_rate_bps p * 80 div 100 \<le> base_refill_rate_bps p * 120 div 100" if "0 \<le> base_refill_rate_bps p"
      using that by (intro zdiv_mono1) auto
    then show ?thesis unfolding x using clip_bounds sdiv_pos by simp
  qed
  show ?thesis
  proof (cases "pid_type p = TSS_PID_VIDEO \<and> 0 < bitrate_bps p")
    case True
    then obtain x where "track_refill p = Some x" "add_tokens d (effective_refill_rate_bps x) x = Some p'"
      using assms(1) by (auto simp: refill_pid_def bind_eq_Some_conv)
    with a [of _ x p'] e [of x] assms(2) show ?thesis by simp
  next
    case False
    with a [of _ p p'] assms show ?thesis by (auto simp: refill_pid_def)
  qed
qed

section \<open>The vote on a jump\<close>

text \<open>
  A time stamp arrives at a value of the physical clock: \<open>(clock, dts)\<close>. One of
  them opens a vote when it is half a second or more away from the last
  accepted one, and another agrees with it when it is as far away, give or take
  half a second, and no more than half a second later.
\<close>

definition opens :: "int \<Rightarrow> int \<times> int \<Rightarrow> int \<Rightarrow> bool" where
  "opens r x jump \<longleftrightarrow> unwrapped_delta (snd x) r = Some jump \<and> 500 \<le> \<bar>jump sdiv 27000\<bar>"

definition opened_at :: "int \<times> int \<Rightarrow> int" where
  "opened_at x = (if fst x \<noteq> TSS_NOPTS_VALUE then fst x else 0)"

definition agrees :: "int \<Rightarrow> int \<times> int \<Rightarrow> int \<Rightarrow> int \<times> int \<Rightarrow> bool" where
  "agrees r x jump y \<longleftrightarrow> (\<exists>d. unwrapped_delta (snd y) r = Some d \<and> \<bar>d - jump\<bar> < 500 * 27000) \<and>
    (fst y \<noteq> TSS_NOPTS_VALUE \<longrightarrow> \<bar>fst y - opened_at x\<bar> \<le> 500 * 27000)"

text \<open>What a PID in the state \<open>CONFIRMING\<close> has seen; \<open>h\<close> is the list of all its time stamps.\<close>

definition vote_inv :: "(int \<times> int) list \<Rightarrow> tss_pid_state \<Rightarrow> bool" where
  "vote_inv h p \<longleftrightarrow> (fsm_state p = TSS_STATE_CONFIRMING \<longrightarrow>
     last_dts_raw p \<noteq> TSS_NOPTS_VALUE \<and> \<not> need_resync p \<and>
     ((\<exists>ys x. h = ys @ [x] \<and> confirm_streak p = 1 \<and> opens (last_dts_raw p) x (candidate_jump p) \<and>
         confirm_start_physical_stc p = opened_at x) \<or>
      (\<exists>ys x y. h = ys @ [x, y] \<and> confirm_streak p = 2 \<and> opens (last_dts_raw p) x (candidate_jump p) \<and>
         agrees (last_dts_raw p) x (candidate_jump p) y \<and> confirm_start_physical_stc p = opened_at x)))"

lemma opened_at_valid [simp]: "opened_at x \<noteq> TSS_NOPTS_VALUE"
  by (simp add: opened_at_def TSS_NOPTS_VALUE_def)

lemma classify_fields:
  assumes "classify_jump d p = Some q"
  shows "fsm_state q = fsm_state p" "last_dts_raw q = last_dts_raw p" "need_resync q = need_resync p"
    "confirm_streak q = confirm_streak p" "candidate_jump q = candidate_jump p"
    "confirm_start_physical_stc q = confirm_start_physical_stc p" "delta_ms (analyzer q) = d sdiv 27000"
    "500 \<le> \<bar>d sdiv 27000\<bar> \<longleftrightarrow> jump_level (analyzer q) \<notin> {JUMP_LEVEL_JITTER, JUMP_LEVEL_SOFT}"
  using assms by (auto simp: classify_jump_def Let_def bind_eq_Some_conv split: if_splits)

lemma timeout_agrees:
  assumes "confirm_timeout ctx p = Some False" "confirm_start_physical_stc p = opened_at x" "physical_stc ctx = fst y"
    "unwrapped_delta (snd y) r = Some d" "\<bar>d - jump\<bar> < 500 * 27000"
  shows "agrees r x jump y"
  using assms by (auto simp: agrees_def confirm_timeout_def split: if_splits)

lemma each_pid_nth:
  assumes "each_pid f ctx = Some ctx'"
  shows "length (all_pids ctx') = length (all_pids ctx)" "k < length (all_pids ctx) \<Longrightarrow> f (all_pids ctx ! k) = Some (all_pids ctx' ! k)"
    "dts_offset ctx' = dts_offset ctx"
  using assms those_map_nth [of f "all_pids ctx"] by (auto simp: each_pid_def)

lemma translated:
  assumes t: "translate_timeline jump ctx = Some ctx'" and k: "k < length (all_pids ctx)"
  shows "dts_offset ctx' = dts_offset ctx + jump" "length (all_pids ctx') = length (all_pids ctx)"
    "fsm_state (all_pids ctx' ! k) = TSS_STATE_NORMAL"
proof -
  obtain c where c: "each_pid reanchor_pid c = Some ctx'" "all_pids c = all_pids ctx" "dts_offset c = dts_offset ctx + jump"
    using t by (auto simp: translate_timeline_def bind_eq_Some_conv)
  note e = each_pid_nth [OF c(1)]
  show "dts_offset ctx' = dts_offset ctx + jump" using e(3) c(3) by simp
  show "length (all_pids ctx') = length (all_pids ctx)" using e(1) c(2) by simp
  show "fsm_state (all_pids ctx' ! k) = TSS_STATE_NORMAL"
    using e(2) [of k] k c(2) by (auto simp: reanchor_pid_def bind_eq_Some_conv eq_commute [of _ "all_pids ctx' ! k"])
qed

text \<open>
  One call of the voter: either it goes on with the vote, or it accepts a jump
  for which three time stamps voted.
\<close>

definition three_votes :: "(int \<times> int) list \<Rightarrow> int \<times> int \<Rightarrow> int \<Rightarrow> bool" where
  "three_votes h y jump \<longleftrightarrow> (\<exists>ys x1 x2 r. h = ys @ [x1, x2] \<and> opens r x1 jump \<and> agrees r x1 jump x2 \<and> agrees r x1 jump y)"

definition voted :: "(int \<times> int) list \<Rightarrow> int \<times> int \<Rightarrow> nat \<Rightarrow> tsshaper \<Rightarrow> bool \<Rightarrow> tsshaper \<Rightarrow> bool" where
  "voted h y k ctx jumped ctx' \<longleftrightarrow> length (all_pids ctx') = length (all_pids ctx) \<and> vote_inv (h @ [y]) (all_pids ctx' ! k) \<and>
    (if jumped then \<exists>jump. three_votes h y jump \<and> dts_offset ctx' = dts_offset ctx + jump else dts_offset ctx' = dts_offset ctx)"

lemma vote_inv_idle: "fsm_state q \<noteq> TSS_STATE_CONFIRMING \<Longrightarrow> vote_inv h q"
  by (simp add: vote_inv_def)

lemma voter_agree:
  assumes v: "tss_voter_process k (snd y) True ctx = Some (jumped, ctx')" and k: "k < length (all_pids ctx)"
    and i: "vote_inv h (all_pids ctx ! k)" and y: "physical_stc ctx = fst y"
    and d: "unwrapped_delta (snd y) (last_dts_raw (all_pids ctx ! k)) = Some d" and p: "classify_jump d (all_pids ctx ! k) = Some p"
    and s: "fsm_state (all_pids ctx ! k) = TSS_STATE_CONFIRMING" and l: "confirm_timeout ctx p = Some False"
    and agree: "\<bar>d - candidate_jump p\<bar> < 500 * 27000"
  shows "voted h y k ctx jumped ctx'"
proof -
  let ?r = "last_dts_raw (all_pids ctx ! k)"
  note c = classify_fields [OF p]
  have a: "agrees ?r x (candidate_jump p) y" if "confirm_start_physical_stc p = opened_at x" for x
    using agree l y d that by (intro timeout_agrees) auto
  consider (one) ys x where "h = ys @ [x]" "confirm_streak p = 1" "opens ?r x (candidate_jump p)" "confirm_start_physical_stc p = opened_at x"
    | (two) ys x1 x2 where "h = ys @ [x1, x2]" "confirm_streak p = 2" "opens ?r x1 (candidate_jump p)"
        "agrees ?r x1 (candidate_jump p) x2" "confirm_start_physical_stc p = opened_at x1"
    using i s c by (auto simp: vote_inv_def)
  then show ?thesis
  proof cases
    case one
    then have "vote_inv (h @ [y]) (p\<lparr>confirm_streak := 2\<rparr>)" using a c i s by (auto simp: vote_inv_def)
    with one show ?thesis using v d p c k l s agree by (auto simp: tss_voter_process_def bind_eq_Some_conv put_pid_def voted_def)
  next
    case two
    then have j: "jumped" and t: "translate_timeline (candidate_jump p) (put_pid k (p\<lparr>confirm_streak := 3\<rparr>) ctx) = Some ctx'"
      using v d p c l s agree by (auto simp: tss_voter_process_def bind_eq_Some_conv)
    note u = translated [OF t, of k]
    have "vote_inv (h @ [y]) (all_pids ctx' ! k)" using u(3) k by (intro vote_inv_idle) (simp add: put_pid_def)
    moreover have "three_votes h y (candidate_jump p)" using two a unfolding three_votes_def by blast
    ultimately show ?thesis using j u(1,2) k by (auto simp: put_pid_def voted_def)
  qed
qed

lemma voter_step:
  assumes v: "tss_voter_process k (snd y) True ctx = Some (jumped, ctx')" and k: "k < length (all_pids ctx)"
    and i: "vote_inv h (all_pids ctx ! k)" and y: "physical_stc ctx = fst y"
    and r: "last_dts_raw (all_pids ctx ! k) \<noteq> TSS_NOPTS_VALUE" "\<not> need_resync (all_pids ctx ! k)"
  shows "voted h y k ctx jumped ctx'"
proof -
  let ?p = "all_pids ctx ! k" let ?r = "last_dts_raw ?p"
  obtain d p where d: "unwrapped_delta (snd y) ?r = Some d" and p: "classify_jump d ?p = Some p"
    using v by (auto simp: tss_voter_process_def bind_eq_Some_conv)
  note c = classify_fields [OF p]
  have o: "vote_inv (h @ [y]) (confirm_from d ctx q)"
    if "500 \<le> \<bar>d sdiv 27000\<bar>" "last_dts_raw q = ?r" "\<not> need_resync q" for q
    using that d r y by (auto simp: vote_inv_def confirm_from_def opens_def opened_at_def)
  show ?thesis
  proof (cases "fsm_state ?p = TSS_STATE_CONFIRMING")
    case False
    then show ?thesis using v d p c k o r vote_inv_idle
      by (auto simp: tss_voter_process_def bind_eq_Some_conv put_pid_def voted_def split: if_splits)
  next
    case True
    obtain late where l: "confirm_timeout ctx p = Some late"
      using v d p c True by (auto simp: tss_voter_process_def bind_eq_Some_conv)
    show ?thesis
    proof (cases "\<not> late \<and> \<bar>d - candidate_jump p\<bar> < 500 * 27000")
      case False
      then show ?thesis using v d p c k o r vote_inv_idle l True
        by (auto simp: tss_voter_process_def bind_eq_Some_conv put_pid_def voted_def not_less split: if_splits)
    next
      case agree: True
      with l show ?thesis by (intro voter_agree [OF v k i y d p True]) auto
    qed
  qed
qed

lemma finish_put:
  assumes "finish_dts k dts m ctx = Some ctx'"
  obtains q seen where "ctx' = put_pid k q (ctx\<lparr>max_dts_seen := seen\<rparr>)" "\<And>h. vote_inv h (all_pids ctx ! k) \<Longrightarrow> vote_inv h q"
proof -
  let ?p = "all_pids ctx ! k"
  obtain b u l seen where "ctx' = put_pid k (?p\<lparr>rx_bytes_total := b, is_urgent := u, last_update_ts := l,
      last_dts_raw := if fsm_state ?p \<noteq> TSS_STATE_CONFIRMING then dts else last_dts_raw ?p\<rparr>) (ctx\<lparr>max_dts_seen := seen\<rparr>)"
    using assms unfolding finish_dts_def Let_def bind_eq_Some_conv case_prod_unfold
    by (elim exE conjE) (simp only: option.inject, erule that [OF sym])
  then show thesis by (rule that) (auto simp: vote_inv_def)
qed

lemma finish_fields:
  assumes "finish_dts k dts m ctx = Some ctx'" "k < length (all_pids ctx)"
  shows "dts_offset ctx' = dts_offset ctx \<and> length (all_pids ctx') = length (all_pids ctx) \<and>
    (vote_inv h (all_pids ctx ! k) \<longrightarrow> vote_inv h (all_pids ctx' ! k))"
  using assms(2) by (auto intro: finish_put [OF assms(1)] simp: put_pid_def)

text \<open>The time stamps of the master PID \<open>k\<close>, each with the value of the physical clock.\<close>

fun dts_run :: "nat \<Rightarrow> (int \<times> int) list \<Rightarrow> tsshaper \<Rightarrow> tsshaper option" where
  "dts_run k [] ctx = Some ctx"
| "dts_run k (x # xs) ctx = do {
     ctx \<leftarrow> note_dts k (snd x) True (ctx\<lparr>physical_stc := fst x\<rparr>);
     dts_run k xs ctx
   }"

lemma note_step:
  assumes v: "note_dts k (snd y) True (ctx\<lparr>physical_stc := fst y\<rparr>) = Some ctx'" and k: "k < length (all_pids ctx)"
    and i: "vote_inv h (all_pids ctx ! k)"
  shows "\<exists>jumped. voted h y k ctx jumped ctx'"
proof -
  let ?c = "ctx\<lparr>physical_stc := fst y\<rparr>" let ?p = "all_pids ctx ! k"
  show ?thesis
  proof (cases "last_dts_raw ?p = TSS_NOPTS_VALUE \<or> need_resync ?p")
    case True
    then have "fsm_state ?p \<noteq> TSS_STATE_CONFIRMING" using i by (auto simp: vote_inv_def)
    then have q: "vote_inv (h @ [y]) (?p\<lparr>next_arrival_ts := a, last_dts_raw := b, need_resync := False\<rparr>)" for a b by (simp add: vote_inv_idle)
    from True v obtain a where "finish_dts k (snd y) True (put_pid k (?p\<lparr>next_arrival_ts := a, last_dts_raw := snd y, need_resync := False\<rparr>) ?c) = Some ctx'"
      by (auto simp: note_dts_def Let_def bind_eq_Some_conv)
    from finish_fields [OF this, of "h @ [y]"] q k show ?thesis by (intro exI [of _ False]) (simp add: put_pid_def voted_def)
  next
    case False
    then obtain j c where vp: "tss_voter_process k (snd y) True ?c = Some (j, c)"
      using v by (auto simp: note_dts_def Let_def bind_eq_Some_conv)
    have s: "voted h y k ctx j c" using voter_step [OF vp, of h] k i False by (auto simp: voted_def split: if_splits)
    show ?thesis
    proof (cases j)
      case True
      then have "ctx' = c" using v vp False by (simp add: note_dts_def Let_def)
      with s show ?thesis by blast
    next
      case nj: False
      then obtain q where q: "finish_dts k (snd y) True (put_pid k q c) = Some ctx'" "\<exists>a. q = (all_pids c ! k)\<lparr>next_arrival_ts := a\<rparr>"
        using v vp False by (auto simp: note_dts_def Let_def bind_eq_Some_conv)
      then have "vote_inv (h @ [y]) q" using s by (auto simp: voted_def vote_inv_def)
      with finish_fields [OF q(1), of "h @ [y]"] s nj k show ?thesis by (intro exI [of _ False]) (simp add: put_pid_def voted_def)
    qed
  qed
qed

lemma dts_run_inv:
  "dts_run k xs ctx = Some ctx' \<Longrightarrow> k < length (all_pids ctx) \<Longrightarrow> vote_inv h (all_pids ctx ! k) \<Longrightarrow>
    k < length (all_pids ctx') \<and> vote_inv (h @ xs) (all_pids ctx' ! k)"
proof (induction xs arbitrary: ctx h)
  case (Cons x xs)
  from Cons.prems(1) obtain c where c: "note_dts k (snd x) True (ctx\<lparr>physical_stc := fst x\<rparr>) = Some c" "dts_run k xs c = Some ctx'"
    by (auto simp: bind_eq_Some_conv)
  from Cons.IH [OF c(2), of "h @ [x]"] note_step [OF c(1) Cons.prems(2,3)] Cons.prems(2) show ?case by (auto simp: voted_def)
qed simp


lemma not_none: "\<not> Option.is_none x \<Longrightarrow> x = Some (the x)"
  by (cases x) auto


section \<open>The queues\<close>

lemma fifo_drain_ok:
  assumes "fifo_ok f"
  shows "\<exists>f'. tss_fifo_drain n (Some f) = Some (Some f') \<and> fifo_ok f' \<and> fifo_bytes f' = drop n (fifo_bytes f) \<and> f_capacity f' = f_capacity f"
  using fifo_skip_ok [OF assms, of "if f_size f < n then f_size f else n"] by (auto simp: tss_fifo_drain_def split: if_splits)

lemma psi_rotate_ok:
  assumes "fifo_ok f" "fifo_bytes f = concat ps" "\<forall>x \<in> set ps. length x = TSS_TS_PACKET_SIZE"
  shows "\<exists>f'. psi_rotate (Some f) = Some (Some f') \<and> fifo_ok f' \<and>
    fifo_bytes f' = concat (dropWhile (\<lambda>x. \<not> is_pusi x) ps) \<and> f_capacity f' = f_capacity f"
  using assms
proof (induction ps arbitrary: f)
  case Nil
  then have "f_size f = 0" using length_fifo_bytes [of f] by simp
  with Nil show ?case by (subst psi_rotate.simps) (simp add: tss_fifo_size_def TSS_TS_PACKET_SIZE_def)
next
  case (Cons x ps)
  have l: "length x = TSS_TS_PACKET_SIZE" "TSS_TS_PACKET_SIZE \<le> f_size f"
    using Cons.prems length_fifo_bytes [of f] by auto
  have pk: "tss_fifo_peek TSS_TS_PACKET_SIZE 0 (Some f) = Some (0, x)"
    using fifo_copy_head [OF Cons.prems(1), of 0 TSS_TS_PACKET_SIZE] l Cons.prems(1,2) by (auto simp: tss_fifo_peek_def fifo_ok_def)
  from fifo_drain_ok [OF Cons.prems(1), of TSS_TS_PACKET_SIZE] obtain f' where
    f': "tss_fifo_drain TSS_TS_PACKET_SIZE (Some f) = Some (Some f')" "fifo_ok f'" "fifo_bytes f' = concat ps" "f_capacity f' = f_capacity f"
    using Cons.prems(2) l by auto
  have "psi_rotate (Some f) = (if is_pusi x then Some (Some f) else psi_rotate (Some f'))"
    using pk f'(1) l(2) by (subst psi_rotate.simps) (simp add: tss_fifo_size_def)
  with Cons.IH [OF f'(2,3)] Cons.prems f' show ?case by auto
qed

text \<open>The packets of a PID among those received.\<close>

definition received :: "int \<Rightarrow> (int \<times> bytes) list \<Rightarrow> bytes list" where
  "received n h = map snd (filter (\<lambda>x. fst x = n) h)"

text \<open>The queue of a PID holds the packets \<open>ps\<close>.\<close>

definition queue_is :: "bytes list \<Rightarrow> tss_pid_state \<Rightarrow> bool" where
  "queue_is ps p \<longleftrightarrow> (\<exists>f. ts_fifo p = Some f \<and> fifo_ok f \<and> int (f_capacity f) = fifo_capacity p \<and>
    fifo_bytes f = concat ps \<and> (\<forall>x \<in> set ps. length x = TSS_TS_PACKET_SIZE))"

definition pid_ok :: "(int \<times> bytes) list \<Rightarrow> tss_pid_state \<Rightarrow> bool" where
  "pid_ok h p \<longleftrightarrow> 188 \<le> fifo_capacity p \<and> fifo_capacity p \<le> 10 * 1024 * 1024 \<and> wait_idr_start_stc p \<in> {0, TSS_NOPTS_VALUE} \<and>
    rx_bytes_total p = fifo_accept_bytes p + drop_bytes_total p \<and>
    (\<exists>ps. queue_is ps p \<and> subseq ps (received (pid_number p) h))"

definition shaper_inv :: "(int \<times> bytes) list \<Rightarrow> tsshaper \<Rightarrow> bool" where
  "shaper_inv h ctx \<longleftrightarrow> v_stc ctx = TSS_NOPTS_VALUE \<and> (\<forall>s \<in> set (stream_index_to_pid ctx). s = None) \<and>
    cfg_nb_streams (cfg ctx) \<le> int (length (stream_index_to_pid ctx)) \<and>
    4 * 1024 * 1024 \<le> max_fifo_size ctx \<and> max_fifo_size ctx \<le> 10 * 1024 * 1024 \<and>
    (\<forall>n k. pid_map ctx n = Some k \<longrightarrow> k < length (all_pids ctx) \<and> pid_number (all_pids ctx ! k) = int n) \<and>
    (\<forall>p \<in> set (all_pids ctx). pid_ok h p)"

lemma write_queue:
  assumes q: "queue_is ps p" and l: "length x = TSS_TS_PACKET_SIZE"
    and room: "int (length (concat ps)) + 188 \<le> fifo_capacity p"
  shows "\<exists>f. tss_fifo_write x (ts_fifo p) = Some (0, f) \<and> queue_is (ps @ [x]) (p\<lparr>ts_fifo := f\<rparr>)"
proof -
  obtain f where f: "ts_fifo p = Some f" "fifo_ok f" "int (f_capacity f) = fifo_capacity p" "fifo_bytes f = concat ps"
    "\<forall>x \<in> set ps. length x = TSS_TS_PACKET_SIZE" using q by (auto simp: queue_is_def)
  have "f_size f + length x \<le> f_capacity f" using room l f(3,4) length_fifo_bytes [of f] by (simp add: TSS_TS_PACKET_SIZE_def)
  from fifo_write_ok [OF f(2) this] f l show ?thesis by (auto simp: queue_is_def)
qed

lemma drop_queue:
  assumes q: "queue_is ps p" and l: "length x = TSS_TS_PACKET_SIZE" and c: "188 \<le> fifo_capacity p"
  shows "\<exists>p' ps'. drop_packet x p = Some p' \<and> queue_is ps' p' \<and> (ps' = ps \<or> ps' = dropWhile (\<lambda>x. \<not> is_pusi x) (tl ps) @ [x]) \<and>
    pid_number p' = pid_number p \<and> fifo_capacity p' = fifo_capacity p \<and> wait_idr_start_stc p' = wait_idr_start_stc p \<and>
    rx_bytes_total p' = rx_bytes_total p \<and> fifo_accept_bytes p' = fifo_accept_bytes p \<and> drop_bytes_total p' = drop_bytes_total p + 188"
proof (cases "pid_type p = TSS_PID_PSI \<and> is_pusi x")
  case False
  with q show ?thesis by (auto simp: drop_packet_def Let_def queue_is_def TSS_TS_PACKET_SIZE_def)
next
  case True
  obtain f where f: "ts_fifo p = Some f" "fifo_ok f" "int (f_capacity f) = fifo_capacity p" "fifo_bytes f = concat ps"
    "\<forall>x \<in> set ps. length x = TSS_TS_PACKET_SIZE" using q by (auto simp: queue_is_def)
  let ?qs = "dropWhile (\<lambda>x. \<not> is_pusi x) (tl ps)"
  have d: "drop TSS_TS_PACKET_SIZE (concat ps) = concat (tl ps)" using f(5) by (cases ps) auto
  obtain f1 where f1: "tss_fifo_drain TSS_TS_PACKET_SIZE (Some f) = Some (Some f1)" "fifo_ok f1" "fifo_bytes f1 = concat (tl ps)"
    "f_capacity f1 = f_capacity f" using fifo_drain_ok [OF f(2), of TSS_TS_PACKET_SIZE] f(4) d by auto
  have tl: "\<forall>x \<in> set (tl ps). length x = TSS_TS_PACKET_SIZE" using f(5) by (cases ps) auto
  obtain f2 where f2: "psi_rotate (Some f1) = Some (Some f2)" "fifo_ok f2" "fifo_bytes f2 = concat ?qs" "f_capacity f2 = f_capacity f"
    using psi_rotate_ok [OF f1(2,3) tl] f1(4) by auto
  have "length (concat ?qs) \<le> length (concat (tl ps))"
    by (metis concat_append le_add2 length_append takeWhile_dropWhile_id)
  moreover have "int (length (concat (tl ps))) + 188 \<le> fifo_capacity p"
    using f c length_fifo_bytes [of f] by (cases ps) (auto simp: fifo_ok_def TSS_TS_PACKET_SIZE_def)
  ultimately have room: "int (length (concat ?qs)) + 188 \<le> fifo_capacity p" by linarith
  have "queue_is ?qs (p\<lparr>ts_fifo := Some f2\<rparr>)" using f2 f(3) tl by (auto simp: queue_is_def dest: set_dropWhileD)
  from write_queue [OF this l] room obtain f3 where
    f3: "tss_fifo_write x (Some f2) = Some (0, f3)" "queue_is (?qs @ [x]) (p\<lparr>ts_fifo := f3\<rparr>)" by auto
  with True f(1) f1(1) f2(1) obtain p' where
    p': "drop_packet x p = Some p'" "ts_fifo p' = f3" "pid_number p' = pid_number p" "fifo_capacity p' = fifo_capacity p"
      "wait_idr_start_stc p' = wait_idr_start_stc p" "rx_bytes_total p' = rx_bytes_total p"
      "fifo_accept_bytes p' = fifo_accept_bytes p" "drop_bytes_total p' = drop_bytes_total p + 188"
    by (auto simp: drop_packet_def Let_def TSS_TS_PACKET_SIZE_def)
  then have "queue_is (?qs @ [x]) p'" using f3(2) by (simp add: queue_is_def)
  with p' show ?thesis by blast
qed

text \<open>What the two gates before the queue leave of a PID.\<close>

lemma gate_fields:
  assumes "v_stc ctx = TSS_NOPTS_VALUE" "wait_idr_start_stc p \<in> {0, TSS_NOPTS_VALUE}"
  shows "\<exists>q i g. idr_gate ctx x p = Some (q, i, g) \<and> ts_fifo q = ts_fifo p \<and> pid_number q = pid_number p \<and>
    fifo_capacity q = fifo_capacity p \<and> wait_idr_start_stc q \<in> {0, TSS_NOPTS_VALUE} \<and> rx_bytes_total q = rx_bytes_total p \<and>
    fifo_accept_bytes q = fifo_accept_bytes p \<and> drop_bytes_total q = drop_bytes_total p"
  using assms by (auto simp: idr_gate_def i64_def TSS_NOPTS_VALUE_def TSS_SYS_CLOCK_FREQ_def)

lemma shed_fields:
  assumes "v_stc ctx = TSS_NOPTS_VALUE" "wait_idr_start_stc p \<in> {0, TSS_NOPTS_VALUE}" "shed_packet ctx x s p = (q, g)"
  shows "ts_fifo q = ts_fifo p \<and> pid_number q = pid_number p \<and>
    fifo_capacity q = fifo_capacity p \<and> wait_idr_start_stc q \<in> {0, TSS_NOPTS_VALUE} \<and> rx_bytes_total q = rx_bytes_total p \<and>
    fifo_accept_bytes q = fifo_accept_bytes p \<and> drop_bytes_total q = drop_bytes_total p"
  using assms by (auto simp: shed_packet_def split: if_splits tss_pid_type.splits)

lemma received_snoc: "received n (h @ [(m, x)]) = received n h @ (if m = n then [x] else [])"
  by (simp add: received_def)

lemma pid_ok_more: "pid_ok h p \<Longrightarrow> pid_ok (h @ [y]) p"
  by (cases y) (auto simp: pid_ok_def received_snoc)

lemma rotated_subseq: "subseq (dropWhile P (tl ps)) ps"
  by (meson suffix_dropWhile suffix_tl suffix_imp_subseq suffix_order.trans)

text \<open>The last part of the input of a packet: it is queued or dropped.\<close>

lemma queue_or_drop:
  assumes q: "queue_is ps p" "subseq ps (received (pid_number p) h)" and l: "length x = TSS_TS_PACKET_SIZE"
    and c: "188 \<le> fifo_capacity p" "fifo_capacity p \<le> 10 * 1024 * 1024" "wait_idr_start_stc p \<in> {0, TSS_NOPTS_VALUE}"
    and rx: "rx_bytes_total p = fifo_accept_bytes p + drop_bytes_total p + 188"
  shows "\<exists>p'. (if \<not> dropped \<and> int TSS_TS_PACKET_SIZE \<le> (fifo_capacity p - int (tss_fifo_size (ts_fifo p))) mod 2 ^ 64 then do {
           (_, f) \<leftarrow> tss_fifo_write x (ts_fifo p);
           Some (p\<lparr>ts_fifo := f, fifo_accept_bytes := fifo_accept_bytes p + int TSS_TS_PACKET_SIZE\<rparr>)
         } else drop_packet x p) = Some p' \<and> pid_number p' = pid_number p \<and> pid_ok (h @ [(pid_number p, x)]) p'"
proof (cases "\<not> dropped \<and> int TSS_TS_PACKET_SIZE \<le> (fifo_capacity p - int (tss_fifo_size (ts_fifo p))) mod 2 ^ 64")
  case True
  have "tss_fifo_size (ts_fifo p) = length (concat ps)" "int (length (concat ps)) \<le> fifo_capacity p"
  proof -
    obtain f where f: "ts_fifo p = Some f" "f_size f \<le> f_capacity f" "int (f_capacity f) = fifo_capacity p" "fifo_bytes f = concat ps"
      using q(1) by (auto simp: queue_is_def fifo_ok_def)
    have "f_size f = length (concat ps)" by (metis f(4) length_fifo_bytes)
    with f show "tss_fifo_size (ts_fifo p) = length (concat ps)" "int (length (concat ps)) \<le> fifo_capacity p"
      by (auto simp: tss_fifo_size_def simp del: length_concat)
  qed
  with True c have "int (length (concat ps)) + 188 \<le> fifo_capacity p" by (simp add: TSS_TS_PACKET_SIZE_def)
  from write_queue [OF q(1) l this] obtain f where
    f: "tss_fifo_write x (ts_fifo p) = Some (0, f)" "queue_is (ps @ [x]) (p\<lparr>ts_fifo := f\<rparr>)" by blast
  have "subseq (ps @ [x]) (received (pid_number p) (h @ [(pid_number p, x)]))"
    using q(2) by (simp add: received_snoc list_emb_append_mono)
  moreover have "queue_is (ps @ [x]) (p\<lparr>ts_fifo := f, fifo_accept_bytes := fifo_accept_bytes p + int TSS_TS_PACKET_SIZE\<rparr>)"
    using f(2) by (simp add: queue_is_def)
  ultimately show ?thesis using True f(1) c rx by (auto simp: pid_ok_def TSS_TS_PACKET_SIZE_def)
next
  case False
  from drop_queue [OF q(1) l c(1)] obtain p' ps' where
    p': "drop_packet x p = Some p'" "queue_is ps' p'" "ps' = ps \<or> ps' = dropWhile (\<lambda>x. \<not> is_pusi x) (tl ps) @ [x]"
      "pid_number p' = pid_number p" "fifo_capacity p' = fifo_capacity p" "wait_idr_start_stc p' = wait_idr_start_stc p"
      "rx_bytes_total p' = rx_bytes_total p" "fifo_accept_bytes p' = fifo_accept_bytes p" "drop_bytes_total p' = drop_bytes_total p + 188"
    by blast
  have "subseq (dropWhile (\<lambda>x. \<not> is_pusi x) (tl ps) @ [x]) (received (pid_number p) h @ [x])"
    using q(2) rotated_subseq by (intro list_emb_append_mono) (auto intro: subseq_order.trans)
  then have "subseq ps' (received (pid_number p') (h @ [(pid_number p, x)]))"
    using p'(3,4) q(2) by (auto simp: received_snoc)
  then have "pid_ok (h @ [(pid_number p, x)]) p'" unfolding pid_ok_def using p' c rx by auto
  with p'(1,4) show ?thesis unfolding if_not_P [OF False] by blast
qed

lemma enqueue_ok:
  assumes v: "v_stc ctx = TSS_NOPTS_VALUE" and p: "pid_ok h (all_pids ctx ! k)" and l: "length x = TSS_TS_PACKET_SIZE"
  shows "\<exists>p' b. tss_internal_enqueue_packet k x ctx = Some (put_pid k p' (ctx\<lparr>dts_epoch_invalid := b\<rparr>)) \<and>
    pid_number p' = pid_number (all_pids ctx ! k) \<and> pid_ok (h @ [(pid_number (all_pids ctx ! k), x)]) p'"
proof -
  let ?p = "(all_pids ctx ! k)\<lparr>rx_bytes_total := rx_bytes_total (all_pids ctx ! k) + int TSS_TS_PACKET_SIZE\<rparr>"
  let ?s = "int (tss_fifo_size (ts_fifo ?p))"
  obtain ps where ps: "queue_is ps ?p" "subseq ps (received (pid_number ?p) h)"
    using p by (auto simp: pid_ok_def queue_is_def)
  have f: "ts_fifo ?p \<noteq> None" using ps by (auto simp: queue_is_def)
  have w: "wait_idr_start_stc ?p \<in> {0, TSS_NOPTS_VALUE}" using p by (simp add: pid_ok_def)
  from gate_fields [OF v w, of x] obtain q i g where q: "idr_gate ctx x ?p = Some (q, i, g)" "ts_fifo q = ts_fifo ?p"
    "pid_number q = pid_number ?p" "fifo_capacity q = fifo_capacity ?p" "wait_idr_start_stc q \<in> {0, TSS_NOPTS_VALUE}"
    "rx_bytes_total q = rx_bytes_total ?p" "fifo_accept_bytes q = fifo_accept_bytes ?p" "drop_bytes_total q = drop_bytes_total ?p" by blast
  obtain r d where r: "(if g then (q, True) else shed_packet ctx x ?s q) = (r, d)" by fastforce
  then have r': "ts_fifo r = ts_fifo ?p" "pid_number r = pid_number ?p" "fifo_capacity r = fifo_capacity ?p"
    "wait_idr_start_stc r \<in> {0, TSS_NOPTS_VALUE}" "rx_bytes_total r = rx_bytes_total ?p"
    "fifo_accept_bytes r = fifo_accept_bytes ?p" "drop_bytes_total r = drop_bytes_total ?p"
    using q shed_fields [OF v q(5), of x ?s r d] by (auto split: if_splits)
  have rq: "queue_is ps r" "subseq ps (received (pid_number r) h)" using ps r' by (simp_all add: queue_is_def)
  have rc: "188 \<le> fifo_capacity r" "fifo_capacity r \<le> 10 * 1024 * 1024"
    "rx_bytes_total r = fifo_accept_bytes r + drop_bytes_total r + 188"
    using p r' by (simp_all add: pid_ok_def TSS_TS_PACKET_SIZE_def)
  obtain p' where p':
    "(if \<not> d \<and> int TSS_TS_PACKET_SIZE \<le> (fifo_capacity r - int (tss_fifo_size (ts_fifo r))) mod 2 ^ 64 then do {
           (_, f) \<leftarrow> tss_fifo_write x (ts_fifo r);
           Some (r\<lparr>ts_fifo := f, fifo_accept_bytes := fifo_accept_bytes r + int TSS_TS_PACKET_SIZE\<rparr>)
         } else drop_packet x r) = Some p'" "pid_number p' = pid_number r" "pid_ok (h @ [(pid_number r, x)]) p'"
    using queue_or_drop [OF rq l rc(1,2) r'(4) rc(3)] by blast
  have "tss_internal_enqueue_packet k x ctx = Some (put_pid k p' (ctx\<lparr>dts_epoch_invalid := dts_epoch_invalid ctx \<or> i\<rparr>))"
    unfolding tss_internal_enqueue_packet_def Let_def using l f q(1) r p'(1) by (simp only: if_False if_True option.simps bind.simps split simp_thms)
  with p'(2,3) r'(2) show ?thesis by auto
qed

section \<open>What the public operations reach\<close>

text \<open>
  The states of a shaper, with the packets it has received. The operations
  \<open>tsshaper_drive\<close> and \<open>tsshaper_drain\<close> are not among the steps: their first test
  makes them return while the virtual clock is undefined.
\<close>

inductive reach :: "tsshaper_config \<Rightarrow> (int \<times> bytes) list \<Rightarrow> tsshaper \<Rightarrow> bool" for c where
  create: "tsshaper_create c = Some ctx \<Longrightarrow> reach c [] ctx"
| add_pid: "reach c h ctx \<Longrightarrow> tsshaper_add_pid heap n type br ctx = Some (r, ctx') \<Longrightarrow> reach c h ctx'"
| enqueue_ts: "reach c h ctx \<Longrightarrow> tsshaper_enqueue_ts n x ctx = Some ctx' \<Longrightarrow> reach c (h @ [(uint n, x)]) ctx'"
| enqueue_dts: "reach c h ctx \<Longrightarrow> tsshaper_enqueue_dts n dts key ctx = Some ctx' \<Longrightarrow> reach c h ctx'"
| reset_timeline: "reach c h ctx \<Longrightarrow> reach c h (tsshaper_reset_timeline ctx)"

lemma no_stream:
  assumes "shaper_inv h ctx"
  shows "tsshaper_enqueue_dts n dts key ctx = Some ctx"
proof -
  have "tss_get_state (uint n) ctx = Some None"
  proof (cases "cfg_nb_streams (cfg ctx) \<le> uint n")
    case False
    then have "nat (uint n) < length (stream_index_to_pid ctx)"
      using assms unfolding shaper_inv_def nat_less_iff [OF uint_ge_0] by linarith
    then have "stream_index_to_pid ctx ! nat (uint n) = None" using assms nth_mem unfolding shaper_inv_def by blast
    with False \<open>nat (uint n) < _\<close> show ?thesis by (simp add: tss_get_state_def)
  qed (simp add: tss_get_state_def)
  then show ?thesis by (simp add: tsshaper_enqueue_dts_def)
qed

lemma new_shaper_fields:
  assumes "tsshaper_create c = Some ctx"
  shows "v_stc ctx = TSS_NOPTS_VALUE" "all_pids ctx = []" "pid_map ctx = (\<lambda>_. None)" "cfg ctx = c"
    "stream_index_to_pid ctx = replicate (nat (if 0 < cfg_nb_streams c then cfg_nb_streams c else 1)) None"
    "4 * 1024 * 1024 \<le> max_fifo_size ctx" "max_fifo_size ctx \<le> 10 * 1024 * 1024"
proof -
  from assms obtain rate delay wanted where c: "ctx = new_shaper c rate delay (fifo_limit wanted)"
    by (auto simp: tsshaper_create_def Let_def bind_eq_Some_conv split: if_splits)
  show "v_stc ctx = TSS_NOPTS_VALUE" "all_pids ctx = []" "pid_map ctx = (\<lambda>_. None)" "cfg ctx = c"
    "stream_index_to_pid ctx = replicate (nat (if 0 < cfg_nb_streams c then cfg_nb_streams c else 1)) None"
    by (simp_all add: c new_shaper_def)
  show "4 * 1024 * 1024 \<le> max_fifo_size ctx" "max_fifo_size ctx \<le> 10 * 1024 * 1024"
    by (auto simp: c new_shaper_def fifo_limit_def Let_def)
qed

lemma create_inv: "tsshaper_create c = Some ctx \<Longrightarrow> shaper_inv [] ctx"
  by (simp add: shaper_inv_def new_shaper_fields [simplified])

lemma set_rates_fields:
  assumes "set_rates type br ctx (zero_pid_state\<lparr>pid_number := n, pid_type := type, allocated_cbr_rate := a, tb_size_bits := b\<rparr>) = Some p"
    "4 * 1024 * 1024 \<le> max_fifo_size ctx" "max_fifo_size ctx \<le> 10 * 1024 * 1024"
  shows "pid_number p = n \<and> 188 \<le> fifo_capacity p \<and> fifo_capacity p \<le> 10 * 1024 * 1024 \<and> wait_idr_start_stc p = 0 \<and>
    rx_bytes_total p = 0 \<and> fifo_accept_bytes p = 0 \<and> drop_bytes_total p = 0"
  using assms by (auto simp: set_rates_def set_video_rates_def Let_def bind_eq_Some_conv zero_pid_state_def split: tss_pid_type.splits)

lemma alloc_queue: "0 < length mem \<Longrightarrow> int (length mem) = fifo_capacity p \<Longrightarrow> ts_fifo p = tss_fifo_alloc mem \<Longrightarrow> queue_is [] p"
  by (auto simp: queue_is_def tss_fifo_alloc_def fifo_ok_def fifo_bytes_def)

lemma add_inv:
  assumes i: "shaper_inv h ctx" and a: "tsshaper_add_pid heap n type br ctx = Some (r, ctx')"
  shows "shaper_inv h ctx'"
proof (cases "8192 \<le> unat n")
  case True
  with i a show ?thesis by (simp add: tsshaper_add_pid_def)
next
  case False
  then obtain p level where p: "set_rates type br ctx (zero_pid_state\<lparr>pid_number := uint n, pid_type := type, allocated_cbr_rate := sint br,
      tb_size_bits := 512 * 8\<rparr>) = Some p"
    and c: "ctx' = ctx\<lparr>all_pids := all_pids ctx @ [init_pid heap level p], pid_map := (pid_map ctx)(unat n := Some (length (all_pids ctx)))\<rparr>"
    using a by (auto simp: tsshaper_add_pid_def bind_eq_Some_conv split: if_splits)
  have f: "pid_number p = uint n \<and> 188 \<le> fifo_capacity p \<and> fifo_capacity p \<le> 10 * 1024 * 1024 \<and> wait_idr_start_stc p = 0 \<and>
    rx_bytes_total p = 0 \<and> fifo_accept_bytes p = 0 \<and> drop_bytes_total p = 0"
    using set_rates_fields [OF p] i by (simp add: shaper_inv_def)
  have "queue_is [] (init_pid heap level p)"
    using f by (intro alloc_queue [of "map heap [0..<nat (fifo_capacity p)]"]) (simp_all add: init_pid_def)
  then have "pid_ok h (init_pid heap level p)" using f by (auto simp: pid_ok_def init_pid_def)
  moreover have "pid_number (init_pid heap level p) = int (unat n)" using f by (simp add: init_pid_def)
  ultimately show ?thesis using i unfolding c by (auto simp: shaper_inv_def nth_append less_Suc_eq)
qed

lemma enqueue_inv:
  assumes i: "shaper_inv h ctx" and n: "unat n < 8192" and l: "length x = TSS_TS_PACKET_SIZE"
  shows "\<exists>ctx'. tsshaper_enqueue_ts n x ctx = Some ctx' \<and> shaper_inv (h @ [(uint n, x)]) ctx'"
proof (cases "pid_map ctx (unat n)")
  case None
  with i n show ?thesis by (auto simp: tsshaper_enqueue_ts_def shaper_inv_def pid_ok_more)
next
  case (Some k)
  let ?p = "all_pids ctx ! k"
  have k: "k < length (all_pids ctx)" "pid_number ?p = uint n" "v_stc ctx = TSS_NOPTS_VALUE" "pid_ok h ?p"
    using i Some by (auto simp: shaper_inv_def)
  from enqueue_ok [OF k(3,4) l] obtain p' b where
    p': "tss_internal_enqueue_packet k x ctx = Some (put_pid k p' (ctx\<lparr>dts_epoch_invalid := b\<rparr>))"
      "pid_number p' = uint n" "pid_ok (h @ [(uint n, x)]) p'" using k(2) by auto
  have "pid_ok (h @ [(uint n, x)]) q" if "q \<in> set ((all_pids ctx)[k := p'])" for q
    using that p'(3) i set_update_subset_insert [of "all_pids ctx" k p'] by (auto simp: shaper_inv_def pid_ok_more)
  then have "shaper_inv (h @ [(uint n, x)]) (put_pid k p' (ctx\<lparr>dts_epoch_invalid := b\<rparr>))"
    using i k p'(2) by (auto simp: shaper_inv_def put_pid_def nth_list_update)
  with p'(1) Some n show ?thesis by (simp add: tsshaper_enqueue_ts_def)
qed

lemma enqueue_only_packets: "tsshaper_enqueue_ts n x ctx = Some ctx' \<Longrightarrow> pid_map ctx (unat n) \<noteq> None \<Longrightarrow> unat n < 8192 \<and> length x = TSS_TS_PACKET_SIZE"
  by (auto simp: tsshaper_enqueue_ts_def tss_internal_enqueue_packet_def Let_def split: if_splits)

lemma reset_inv: "shaper_inv h ctx \<Longrightarrow> shaper_inv h (tsshaper_reset_timeline ctx)"
proof -
  assume i: "shaper_inv h ctx"
  have "queue_is [] (p\<lparr>ts_fifo := tss_fifo_reset (ts_fifo p), last_dts_raw := TSS_NOPTS_VALUE\<rparr>)" if "queue_is ps p" for p ps
    using that by (auto simp: queue_is_def tss_fifo_reset_def fifo_ok_def fifo_bytes_def)
  then have "pid_ok h (p\<lparr>ts_fifo := tss_fifo_reset (ts_fifo p), last_dts_raw := TSS_NOPTS_VALUE\<rparr>)" if "pid_ok h p" for p
    using that by (fastforce simp: pid_ok_def)
  with i show ?thesis by (auto simp: shaper_inv_def tsshaper_reset_timeline_def)
qed

lemma reach_inv: "reach c h ctx \<Longrightarrow> shaper_inv h ctx"
proof (induction rule: reach.induct)
  case (create ctx)
  then show ?case by (rule create_inv)
next
  case (add_pid h ctx heap n type br r ctx')
  then show ?case by (blast intro: add_inv)
next
  case (enqueue_ts h ctx n x ctx')
  show ?case
  proof (cases "pid_map ctx (unat n) = None")
    case True
    then have "ctx' = ctx" using enqueue_ts(2) by (simp add: tsshaper_enqueue_ts_def split: if_splits)
    with enqueue_ts(3) show ?thesis by (auto simp: shaper_inv_def pid_ok_more)
  next
    case False
    from enqueue_only_packets [OF enqueue_ts(2) False] enqueue_inv [OF enqueue_ts(3), of n x] enqueue_ts(2) show ?thesis by auto
  qed
next
  case (enqueue_dts h ctx n dts key ctx')
  then show ?case by (simp add: no_stream)
next
  case (reset_timeline h ctx)
  then show ?case by (blast intro: reset_inv)
qed



text \<open>
  C40. The public operations never start the time line: no PID is ever entered
  in the table of streams, so that every time stamp is ignored and the virtual
  clock stays undefined, whatever is registered, queued or reset.
\<close>

theorem timeline_never_starts:
  assumes "reach c h ctx"
  shows "v_stc ctx = TSS_NOPTS_VALUE \<and> tsshaper_enqueue_dts n dts key ctx = Some ctx"
  using reach_inv [OF assms] no_stream by (simp add: shaper_inv_def)

theorem timeline_never_starts_witness:
  "\<exists>c ctx. reach c [] ctx \<and> v_stc ctx = TSS_NOPTS_VALUE \<and> tsshaper_enqueue_dts 0 27000000 True ctx = Some ctx"
proof -
  let ?c = "\<lparr>cfg_mux_rate = 10000000, cfg_pcr_period_ms = 35, cfg_mux_delay_ms = 700, cfg_nb_streams = 1\<rparr>"
  obtain ctx where "tsshaper_create ?c = Some ctx" by (simp add: tsshaper_create_def i64_def)
  then have "reach ?c [] ctx" by (rule reach.create)
  with timeline_never_starts [OF this, of 0 27000000 True] show ?thesis by blast
qed

end
