(* ===== verification/Tsa_Histogram.thy ===== *)
theory Tsa_Histogram
  imports Tsa_Prelude "HOL-Library.Multiset"
begin

text \<open>
  The sliding bit-rate histogram (\<open>tsa_histogram.c\<close>): a ring of 100 buckets of
  10 ms each. The lemmas relate the ring to the plain list of the last 100
  bucket sums, newest first, and bound the derived rates.
\<close>

definition HIST_BUCKETS :: nat where "HIST_BUCKETS = 100"
definition NS_PER_RESOLUTION :: u64 where "NS_PER_RESOLUTION = 10 * 1000000"

record tsa_histogram =
  bits_in_bucket :: "u64 list"
  last_bucket_ns :: u64
  current_bucket_idx :: nat
  hist_min_bps :: u64
  hist_max_bps :: u64
  hist_p99_bps :: u64
  hist_initialized :: bool

definition tsa_hist_init :: tsa_histogram where
  "tsa_hist_init = \<lparr>bits_in_bucket = replicate HIST_BUCKETS 0, last_bucket_ns = 0, current_bucket_idx = 0,
     hist_min_bps = 0, hist_max_bps = 0, hist_p99_bps = 0, hist_initialized = False\<rparr>"

definition bucket_rates :: "tsa_histogram \<Rightarrow> u64 list" where
  "bucket_rates h = map (\<lambda>b. b * 1000 div 10) (bits_in_bucket h)"

definition tsa_hist_update_metrics :: "tsa_histogram \<Rightarrow> tsa_histogram" where
  "tsa_hist_update_metrics h = (let rates = bucket_rates h in
     h\<lparr>hist_min_bps := foldl (\<lambda>m b. if b < m then b else m) 0xFFFFFFFFFFFFFFFF rates,
       hist_max_bps := foldl (\<lambda>m b. if m < b then b else m) 0 rates,
       hist_p99_bps := sort rates ! (HIST_BUCKETS - 2)\<rparr>)"

primrec skip_buckets :: "nat \<Rightarrow> tsa_histogram \<Rightarrow> tsa_histogram" where
  "skip_buckets 0 h = h"
| "skip_buckets (Suc k) h = skip_buckets k (let i = (current_bucket_idx h + 1) mod HIST_BUCKETS in
     h\<lparr>current_bucket_idx := i, bits_in_bucket := (bits_in_bucket h)[i := 0]\<rparr>)"

text \<open>The number of buckets passed is cut to 32 bits.\<close>

definition tsa_hist_update :: "tsa_histogram \<Rightarrow> u64 \<Rightarrow> tsa_histogram" where
  "tsa_hist_update h now_ns =
    (if \<not> hist_initialized h \<or> now_ns < last_bucket_ns h then h
     else let elapsed = now_ns - last_bucket_ns h in
       if elapsed < NS_PER_RESOLUTION then h
       else let buckets_to_skip = ucast (elapsed div NS_PER_RESOLUTION) :: u32 in
         tsa_hist_update_metrics
          (if HIST_BUCKETS \<le> unat buckets_to_skip
           then h\<lparr>bits_in_bucket := replicate HIST_BUCKETS 0, current_bucket_idx := 0, last_bucket_ns := now_ns\<rparr>
           else (skip_buckets (unat buckets_to_skip) h)
             \<lparr>last_bucket_ns := last_bucket_ns h + ucast buckets_to_skip * NS_PER_RESOLUTION\<rparr>))"

definition tsa_hist_add_packet :: "tsa_histogram \<Rightarrow> u64 \<Rightarrow> u32 \<Rightarrow> tsa_histogram" where
  "tsa_hist_add_packet h now_ns bits =
    (let h1 = (if hist_initialized h then h
               else h\<lparr>last_bucket_ns := now_ns, current_bucket_idx := 0, hist_initialized := True\<rparr>);
         h2 = tsa_hist_update h1 now_ns; i = current_bucket_idx h2 in
     h2\<lparr>bits_in_bucket := (bits_in_bucket h2)[i := bits_in_bucket h2 ! i + ucast bits]\<rparr>)"

section \<open>The window as a list\<close>

text \<open>The bucket sums, newest first.\<close>

definition window :: "tsa_histogram \<Rightarrow> u64 list" where
  "window h = map (\<lambda>k. bits_in_bucket h ! ((current_bucket_idx h + HIST_BUCKETS - k) mod HIST_BUCKETS)) [0..<HIST_BUCKETS]"

definition hist_ok :: "tsa_histogram \<Rightarrow> bool" where
  "hist_ok h \<longleftrightarrow> length (bits_in_bucket h) = HIST_BUCKETS \<and> current_bucket_idx h < HIST_BUCKETS"

text \<open>Moving on by \<open>k\<close> buckets: \<open>k\<close> empty ones come in front and the oldest fall out.\<close>

definition shift_window :: "nat \<Rightarrow> u64 list \<Rightarrow> u64 list" where
  "shift_window k w = take HIST_BUCKETS (replicate k 0 @ w)"

lemma length_window [simp]: "length (window h) = HIST_BUCKETS"
  by (simp add: window_def)

lemma hist_ok_init [simp]: "hist_ok tsa_hist_init"
  by (simp add: hist_ok_def tsa_hist_init_def HIST_BUCKETS_def)

lemma nth_window: "k < HIST_BUCKETS \<Longrightarrow>
    window h ! k = bits_in_bucket h ! ((current_bucket_idx h + HIST_BUCKETS - k) mod HIST_BUCKETS)"
  by (simp add: window_def)

lemma back_mod: "c < n \<Longrightarrow> k < n \<Longrightarrow> (c + n - k) mod n = (if k \<le> c then c - k else c + n - k)" for n :: nat
proof -
  assume c: "c < n" "k < n"
  show ?thesis
  proof (cases "k \<le> c")
    case True
    then have "c + n - k = (c - k) + n" by simp
    then have "(c + n - k) mod n = c - k" using c by (simp only: mod_add_self2) simp
    then show ?thesis using True by simp
  qed (use c in simp)
qed

lemma index_step:
  assumes "c < n" "Suc k < n"
  shows "((c + 1) mod n + n - Suc k) mod n = (c + n - k) mod n" "(c + n - k) mod n \<noteq> (c + 1) mod n"
proof -
  define d where "d = (c + 1) mod n"
  have m: "d = (if c + 1 = n then 0 else c + 1)" "d < n" using assms by (simp_all add: d_def)
  show "((c + 1) mod n + n - Suc k) mod n = (c + n - k) mod n" "(c + n - k) mod n \<noteq> (c + 1) mod n"
    using assms m(1) unfolding d_def [symmetric] back_mod [OF m(2) assms(2)] back_mod [OF assms(1) Suc_lessD [OF assms(2)]]
    by (auto split: if_splits)
qed

lemma step_window:
  assumes "hist_ok h"
  defines "h' \<equiv> let i = (current_bucket_idx h + 1) mod HIST_BUCKETS in
     h\<lparr>current_bucket_idx := i, bits_in_bucket := (bits_in_bucket h)[i := 0]\<rparr>"
  shows "hist_ok h'" "window h' = shift_window 1 (window h)"
proof -
  have l: "length (bits_in_bucket h) = HIST_BUCKETS" "current_bucket_idx h < HIST_BUCKETS" "0 < HIST_BUCKETS"
    using assms(1) by (simp_all add: hist_ok_def HIST_BUCKETS_def)
  then show "hist_ok h'" by (simp add: hist_ok_def h'_def Let_def)
  show "window h' = shift_window 1 (window h)"
  proof (rule nth_equalityI)
    fix k assume "k < length (window h')"
    then have k: "k < HIST_BUCKETS" by simp
    show "window h' ! k = shift_window 1 (window h) ! k"
    proof (cases k)
      case 0
      then show ?thesis using l by (simp add: nth_window h'_def Let_def shift_window_def)
    next
      case (Suc j)
      then show ?thesis using l k index_step [of "current_bucket_idx h" HIST_BUCKETS j]
        by (simp add: nth_window h'_def Let_def shift_window_def)
    qed
  qed (simp add: shift_window_def)
qed

lemma shift_window_Suc: "length w = HIST_BUCKETS \<Longrightarrow> shift_window k (shift_window 1 w) = shift_window (Suc k) w"
  by (rule nth_equalityI) (auto simp: shift_window_def nth_append HIST_BUCKETS_def nth_Cons' not_less)

lemma skip_window:
  assumes "hist_ok h"
  shows "hist_ok (skip_buckets k h)" "window (skip_buckets k h) = shift_window k (window h)"
    "last_bucket_ns (skip_buckets k h) = last_bucket_ns h"
    "hist_initialized (skip_buckets k h) = hist_initialized h"
proof -
  have "hist_ok (skip_buckets k h) \<and> window (skip_buckets k h) = shift_window k (window h) \<and>
    last_bucket_ns (skip_buckets k h) = last_bucket_ns h \<and> hist_initialized (skip_buckets k h) = hist_initialized h"
    using assms
  proof (induction k arbitrary: h)
    case (Suc k)
    note s = step_window [OF Suc.prems]
    show ?case using Suc.IH [OF s(1)] s(2) shift_window_Suc [of "window h" k] by (simp add: Let_def)
  qed (simp add: shift_window_def)
  then show "hist_ok (skip_buckets k h)" "window (skip_buckets k h) = shift_window k (window h)"
    "last_bucket_ns (skip_buckets k h) = last_bucket_ns h" "hist_initialized (skip_buckets k h) = hist_initialized h"
    by simp_all
qed

section \<open>The derived rates\<close>

lemma metrics_fields [simp]:
  "bits_in_bucket (tsa_hist_update_metrics h) = bits_in_bucket h"
  "current_bucket_idx (tsa_hist_update_metrics h) = current_bucket_idx h"
  "last_bucket_ns (tsa_hist_update_metrics h) = last_bucket_ns h"
  "hist_initialized (tsa_hist_update_metrics h) = hist_initialized h"
  "window (tsa_hist_update_metrics h) = window h"
  "hist_ok (tsa_hist_update_metrics h) = hist_ok h"
  by (simp_all add: tsa_hist_update_metrics_def Let_def window_def hist_ok_def)

lemma foldl_min: "foldl (\<lambda>m b. if b < m then b else m) (m :: 'a :: linorder) xs = Min (set (m # xs))"
proof -
  have "(\<lambda>b m. if b < m then b else m) = (min :: 'a \<Rightarrow> 'a \<Rightarrow> 'a)" by (auto simp: fun_eq_iff min_def)
  then show ?thesis by (simp only: Min.set_eq_fold foldl_conv_fold)
qed

lemma foldl_max: "foldl (\<lambda>m b. if m < b then b else m) (m :: 'a :: linorder) xs = Max (set (m # xs))"
proof -
  have "(\<lambda>b m. if m < b then b else m) = (max :: 'a \<Rightarrow> 'a \<Rightarrow> 'a)" by (auto simp: fun_eq_iff max_def)
  then show ?thesis by (simp only: Max.set_eq_fold foldl_conv_fold)
qed

lemma sorted_prefix_count:
  assumes "sorted s" "k < length s"
  shows "Suc k \<le> length (filter (\<lambda>r. r \<le> s ! k) s)"
proof -
  have "\<forall>r \<in> set (take (Suc k) s). r \<le> s ! k"
    using assms by (auto simp: in_set_conv_nth sorted_iff_nth_mono)
  then have "filter (\<lambda>r. r \<le> s ! k) (take (Suc k) s) = take (Suc k) s" by (simp add: filter_True)
  moreover have "filter (\<lambda>r. r \<le> s ! k) s =
      filter (\<lambda>r. r \<le> s ! k) (take (Suc k) s) @ filter (\<lambda>r. r \<le> s ! k) (drop (Suc k) s)"
    by (metis append_take_drop_id filter_append)
  ultimately show ?thesis using assms by simp
qed

text \<open>The three figures kept: least, greatest, and the value that at least 99 of 100 buckets do not exceed.\<close>

definition rates_ok :: "tsa_histogram \<Rightarrow> u64 list \<Rightarrow> bool" where
  "rates_ok h rates \<longleftrightarrow> hist_min_bps h = Min (set rates) \<and> hist_max_bps h = Max (set rates) \<and>
     hist_p99_bps h \<in> set rates \<and> 99 \<le> length (filter (\<lambda>r. r \<le> hist_p99_bps h) rates)"

lemma metrics_rates_ok:
  assumes "hist_ok h"
  shows "rates_ok (tsa_hist_update_metrics h) (bucket_rates h)"
proof -
  let ?r = "bucket_rates h"
  have l: "length ?r = 100" using assms by (simp add: bucket_rates_def hist_ok_def HIST_BUCKETS_def)
  then have ne: "set ?r \<noteq> {}" by auto
  have "0xFFFFFFFFFFFFFFFF = (- 1 :: u64)" by simp
  then have "Min (set ?r) \<le> 0xFFFFFFFFFFFFFFFF" by (simp only: word_order.extremum)
  then have mn: "Min (set (0xFFFFFFFFFFFFFFFF # ?r)) = Min (set ?r)" 
    using ne Min_insert [of "set ?r" "0xFFFFFFFFFFFFFFFF"] by (simp only: list.set finite_set min_absorb2 not_False_eq_True)
  have mx: "Max (set (0 # ?r)) = Max (set ?r)" using ne by (simp add: max_def)
  have p: "hist_p99_bps (tsa_hist_update_metrics h) = sort ?r ! 98"
    by (simp add: tsa_hist_update_metrics_def Let_def HIST_BUCKETS_def)
  have "Suc 98 \<le> length (filter (\<lambda>r. r \<le> sort ?r ! 98) (sort ?r))" using l by (intro sorted_prefix_count) simp_all
  then have "99 \<le> length (filter (\<lambda>r. r \<le> sort ?r ! 98) ?r)" by (simp add: filter_sort)
  moreover have "sort ?r ! 98 \<in> set ?r" using nth_mem [of 98 "sort ?r"] l by simp
  ultimately show ?thesis unfolding rates_ok_def p using mn mx
    by (simp add: tsa_hist_update_metrics_def Let_def foldl_min foldl_max del: set_simps)
qed

section \<open>Adding packets\<close>

lemma window_add:
  assumes "hist_ok h"
  defines "i \<equiv> current_bucket_idx h"
  shows "window (h\<lparr>bits_in_bucket := (bits_in_bucket h)[i := v]\<rparr>) = (window h)[0 := v]"
    "hist_ok (h\<lparr>bits_in_bucket := (bits_in_bucket h)[i := v]\<rparr>)" "bits_in_bucket h ! i = window h ! 0"
proof -
  have i: "i < HIST_BUCKETS" "length (bits_in_bucket h) = HIST_BUCKETS" using assms by (simp_all add: hist_ok_def)
  have z: "0 < HIST_BUCKETS" by (simp add: HIST_BUCKETS_def)
  show "hist_ok (h\<lparr>bits_in_bucket := (bits_in_bucket h)[i := v]\<rparr>)" using assms by (simp add: hist_ok_def)
  show "bits_in_bucket h ! i = window h ! 0" using i z by (simp add: nth_window i_def)
  show "window (h\<lparr>bits_in_bucket := (bits_in_bucket h)[i := v]\<rparr>) = (window h)[0 := v]"
  proof (rule nth_equalityI)
    fix k assume "k < length (window (h\<lparr>bits_in_bucket := (bits_in_bucket h)[i := v]\<rparr>))"
    then have k: "k < HIST_BUCKETS" by simp
    have "(i + HIST_BUCKETS - k) mod HIST_BUCKETS = i \<longleftrightarrow> k = 0" using back_mod [OF i(1) k] k i by auto
    then show "window (h\<lparr>bits_in_bucket := (bits_in_bucket h)[i := v]\<rparr>) ! k = (window h)[0 := v] ! k"
      using k i z by (auto simp: nth_window i_def nth_list_update)
  qed simp
qed

definition gap :: "tsa_histogram \<Rightarrow> u64 \<Rightarrow> nat" where
  "gap h now = unat (now - last_bucket_ns h) div 10000000"

lemma gap_word:
  assumes "gap h now < 2 ^ 32"
  shows "unat (ucast ((now - last_bucket_ns h) div NS_PER_RESOLUTION) :: u32) = gap h now"
proof -
  have "unat ((now - last_bucket_ns h) div NS_PER_RESOLUTION) = gap h now"
    by (simp add: unat_div gap_def NS_PER_RESOLUTION_def)
  then show ?thesis using assms by (simp add: unsigned_ucast_eq take_bit_nat_eq_self)
qed

text \<open>What one update does to the window, its time base and the derived rates.\<close>

lemma update_window:
  assumes "hist_ok h" "hist_initialized h" "last_bucket_ns h \<le> now" "gap h now < 2 ^ 32"
  defines "h' \<equiv> tsa_hist_update h now"
  shows "hist_ok h'" "hist_initialized h'" "window h' = shift_window (gap h now) (window h)"
    "gap h now \<noteq> 0 \<longrightarrow> rates_ok h' (bucket_rates h')"
    "last_bucket_ns h' = (if 100 \<le> gap h now then now else last_bucket_ns h + of_nat (gap h now) * 10000000)"
proof -
  have small: "now - last_bucket_ns h < NS_PER_RESOLUTION \<longleftrightarrow> gap h now = 0"
    by (simp add: word_less_nat_alt NS_PER_RESOLUTION_def gap_def div_eq_0_iff)
  let ?k = "ucast ((now - last_bucket_ns h) div NS_PER_RESOLUTION) :: u32"
  have k: "unat ?k = gap h now" by (rule gap_word [OF assms(4)])
  then have kw: "ucast ?k = (of_nat (gap h now) :: u64)" by (simp flip: k)
  have "hist_ok h' \<and> hist_initialized h' \<and> window h' = shift_window (gap h now) (window h) \<and>
    (gap h now \<noteq> 0 \<longrightarrow> rates_ok h' (bucket_rates h')) \<and>
    last_bucket_ns h' = (if 100 \<le> gap h now then now else last_bucket_ns h + of_nat (gap h now) * 10000000)"
  proof (cases "gap h now = 0")
    case True
    then have "h' = h" using small by (simp add: h'_def tsa_hist_update_def Let_def)
    then show ?thesis using True assms by (simp add: shift_window_def)
  next
    case False
    define m where "m = (if 100 \<le> gap h now
        then h\<lparr>bits_in_bucket := replicate HIST_BUCKETS 0, current_bucket_idx := 0, last_bucket_ns := now\<rparr>
        else (skip_buckets (gap h now) h)\<lparr>last_bucket_ns := last_bucket_ns h + of_nat (gap h now) * NS_PER_RESOLUTION\<rparr>)"
    have h': "h' = tsa_hist_update_metrics m"
      using False small assms(2,3) unfolding h'_def tsa_hist_update_def Let_def k kw m_def
      by (simp add: HIST_BUCKETS_def not_less)
    have w: "window (x\<lparr>last_bucket_ns := t\<rparr>) = window x" "hist_ok (x\<lparr>last_bucket_ns := t\<rparr>) = hist_ok x" for x t
      by (simp_all add: window_def hist_ok_def)
    have m: "hist_ok m \<and> hist_initialized m \<and> window m = shift_window (gap h now) (window h) \<and>
      last_bucket_ns m = (if 100 \<le> gap h now then now else last_bucket_ns h + of_nat (gap h now) * 10000000)"
    proof (cases "100 \<le> gap h now")
      case True
      have "window m = replicate HIST_BUCKETS 0" using True
        by (simp add: m_def window_def map_replicate_trivial list_eq_iff_nth_eq)
      then show ?thesis using True assms(2)
        by (simp add: m_def hist_ok_def HIST_BUCKETS_def shift_window_def)
    next
      case False
      then show ?thesis using skip_window [OF assms(1)] assms(2) by (simp add: m_def w NS_PER_RESOLUTION_def)
    qed
    then show ?thesis using metrics_rates_ok [of m] by (simp add: h' bucket_rates_def)
  qed
  then show "hist_ok h'" "hist_initialized h'" "window h' = shift_window (gap h now) (window h)"
    "gap h now \<noteq> 0 \<longrightarrow> rates_ok h' (bucket_rates h')"
    "last_bucket_ns h' = (if 100 \<le> gap h now then now else last_bucket_ns h + of_nat (gap h now) * 10000000)"
    by blast+
qed

lemma window_rotate:
  assumes "hist_ok h"
  shows "window h = rev (rotate (Suc (current_bucket_idx h)) (bits_in_bucket h))"
proof (rule nth_equalityI)
  have l: "length (bits_in_bucket h) = HIST_BUCKETS" using assms by (simp add: hist_ok_def)
  then show "length (window h) = length (rev (rotate (Suc (current_bucket_idx h)) (bits_in_bucket h)))" by simp
  fix k assume "k < length (window h)"
  then have k: "k < HIST_BUCKETS" by simp
  then have "Suc (current_bucket_idx h) + (HIST_BUCKETS - Suc k) = current_bucket_idx h + HIST_BUCKETS - k" by simp
  then show "window h ! k = rev (rotate (Suc (current_bucket_idx h)) (bits_in_bucket h)) ! k"
    using k l by (simp add: nth_window rev_nth nth_rotate del: rotate_Suc)
qed

lemma mset_window: "hist_ok h \<Longrightarrow> mset (window h) = mset (bits_in_bucket h)"
  unfolding window_rotate rotate_drop_take mset_rev mset_append by (metis append_take_drop_id mset_append union_commute)

lemma rates_ok_mset: "mset xs = mset ys \<Longrightarrow> rates_ok h xs = rates_ok h ys"
proof -
  assume m: "mset xs = mset ys"
  have "length (filter P xs) = length (filter P ys)" for P
    using m by (metis mset_filter size_mset)
  then show ?thesis unfolding rates_ok_def mset_eq_setD [OF m] by simp
qed



end
