(* ===== verification/Tsa_Pcr_Track.thy ===== *)
theory Tsa_Pcr_Track
  imports Tsa_Types "HOL-Library.Monad_Syntax"
begin

text \<open>
  Clock recovery per PID (\<open>tsa_pcr_track.c\<close>): gap analysis, linear regression
  over the last 20 samples, jitter histogram and bit rate settlement. The
  pointer \<open>live\<close> is the flag \<open>tr_live\<close>: it is \<open>NULL\<close> or points to the one
  statistics record, which the update takes and returns. A conversion of a
  double out of the range of its target is undefined behaviour, the result
  \<open>None\<close>.
\<close>

record pcr_clock_state =
  ck_slope :: rat
  ck_intercept :: rat
  ck_locked :: bool
  ck_samples :: "(u64 \<times> u64) list"
  ck_count :: nat
  ck_head :: nat

record pcr_anchors =
  last_pcr_ticks_anchor :: u64
  last_arrival_ns_anchor :: u64
  last_pid_pkts_anchor :: u64
  last_total_pkts_anchor :: u64
  sync_done :: bool

record tsa_pcr_track =
  tr_pid :: u32
  tr_program_id :: u32
  tr_last_pcr_ticks :: u64
  tr_last_unwrapped_pcr_ns :: u64
  tr_last_arrival_ns :: u64
  tr_pcr_count :: u64
  tr_clock :: pcr_clock_state
  tr_pcr_jitter_ms :: rat
  tr_drift_ppm :: rat
  tr_bitrate_bps :: u64
  tr_mux_bitrate_bps :: u64
  tr_priority_1_errors :: u32
  tr_anchors :: pcr_anchors
  tr_live :: bool
  tr_initialized :: bool

definition PCR_TRACK_WINDOW_SIZE :: nat where "PCR_TRACK_WINDOW_SIZE = 20"
definition PCR_REPETITION_MAX_TICKS :: u64 where "PCR_REPETITION_MAX_TICKS = 27000000 * 40 div 1000"
definition PCR_ARRIVAL_MAX_NS :: u64 where "PCR_ARRIVAL_MAX_NS = 100000000"
definition BITRATE_SETTLE_INTERVAL_NS :: u64 where "BITRATE_SETTLE_INTERVAL_NS = 100000000"
definition PCR_MODULO :: u64 where "PCR_MODULO = 2 ^ 33 * 300"
definition EMA_ALPHA :: rat where "EMA_ALPHA = dbl (1 / 10)"

definition tsa_pcr_track_init :: "u32 \<Rightarrow> u32 \<Rightarrow> tsa_pcr_track" where
  "tsa_pcr_track_init pid prg_id = \<lparr>tr_pid = pid, tr_program_id = prg_id, tr_last_pcr_ticks = 0,
     tr_last_unwrapped_pcr_ns = 0, tr_last_arrival_ns = 0, tr_pcr_count = 0,
     tr_clock = \<lparr>ck_slope = 0, ck_intercept = 0, ck_locked = False,
       ck_samples = replicate PCR_TRACK_WINDOW_SIZE (0, 0), ck_count = 0, ck_head = 0\<rparr>,
     tr_pcr_jitter_ms = 0, tr_drift_ppm = 0, tr_bitrate_bps = 0, tr_mux_bitrate_bps = 0, tr_priority_1_errors = 0,
     tr_anchors = \<lparr>last_pcr_ticks_anchor = 0, last_arrival_ns_anchor = 0, last_pid_pkts_anchor = 0,
       last_total_pkts_anchor = 0, sync_done = False\<rparr>,
     tr_live = False, tr_initialized = False\<rparr>"

text \<open>The reset clears the whole structure, the pointer \<open>live\<close> included.\<close>

definition tsa_pcr_track_reset :: "tsa_pcr_track \<Rightarrow> tsa_pcr_track" where
  "tsa_pcr_track_reset track = (tsa_pcr_track_init (tr_pid track) (tr_program_id track))
     \<lparr>tr_priority_1_errors := tr_priority_1_errors track\<rparr>"

section \<open>Regression\<close>

text \<open>The baseline is slot 0, and the differences are taken in 64-bit unsigned arithmetic.\<close>

definition relative_s :: "u64 \<Rightarrow> u64 \<Rightarrow> rat" where
  "relative_s t0 t = dbl (of_u64 (t - t0) / 10 ^ 9)"

definition regress_sums :: "u64 \<Rightarrow> u64 \<Rightarrow> (u64 \<times> u64) list \<Rightarrow> rat \<times> rat \<times> rat \<times> rat" where
  "regress_sums t0_sys t0_pcr samples = foldl (\<lambda>(sum_x, sum_y, sum_xx, sum_xy) (sys_ns, pcr_ns).
     let x = relative_s t0_sys sys_ns; y = relative_s t0_pcr pcr_ns in
     (dbl (sum_x + x), dbl (sum_y + y), dbl (sum_xx + dbl (x * x)), dbl (sum_xy + dbl (x * y)))) (0, 0, 0, 0) samples"

definition regress_max_err :: "rat \<Rightarrow> rat \<Rightarrow> (u64 \<times> u64) list \<Rightarrow> rat" where
  "regress_max_err slope intercept samples = foldl (\<lambda>m (sys_ns, pcr_ns).
     let err = \<bar>dbl (of_u64 pcr_ns - dbl (dbl (slope * of_u64 sys_ns) + intercept))\<bar> in if m < err then err else m) 0 samples"

text \<open>\<open>None\<close> is the conversion of the error out of range, \<open>Some None\<close> the return value -1.\<close>

definition pcr_track_regress :: "pcr_clock_state \<Rightarrow> (rat \<times> rat \<times> int) option option" where
  "pcr_track_regress c =
    (let n = rat_of_nat (ck_count c); samples = take (ck_count c) (ck_samples c) in
     if ck_count c < 10 then Some None
     else let (t0_sys, t0_pcr) = ck_samples c ! 0; (sum_x, sum_y, sum_xx, sum_xy) = regress_sums t0_sys t0_pcr samples;
       den = dbl (dbl (n * sum_xx) - dbl (sum_x * sum_x)) in
       if \<bar>den\<bar> < dbl (1 / 10 ^ 12) then Some None
       else let slope = dbl (dbl (dbl (n * sum_xy) - dbl (sum_x * sum_y)) / den);
         rel_intercept_s = dbl (dbl (sum_y - dbl (slope * sum_x)) / n);
         abs_intercept = dbl (dbl (of_u64 t0_pcr - dbl (slope * of_u64 t0_sys)) + dbl (rel_intercept_s * 10 ^ 9))
         in map_option (\<lambda>e. Some (slope, abs_intercept, e)) (to_i64 (regress_max_err slope abs_intercept samples)))"

section \<open>Update\<close>

definition tsa_pcr_to_ns_f :: "rat \<Rightarrow> rat" where
  "tsa_pcr_to_ns_f pcr_ticks = dbl (dbl (pcr_ticks * 10 ^ 9) / 27000000)"

text \<open>Distance of two PCR values modulo the PCR range.\<close>

definition pcr_distance :: "u64 \<Rightarrow> u64 \<Rightarrow> u64" where
  "pcr_distance now_ticks before_ticks = (if before_ticks \<le> now_ticks then now_ticks - before_ticks
     else now_ticks + PCR_MODULO - before_ticks)"

definition track_first :: "tsa_pcr_track \<Rightarrow> u64 \<Rightarrow> u64 \<Rightarrow> u64 \<Rightarrow> u64 \<Rightarrow> tsa_pcr_track" where
  "track_first track pcr_ticks arrival_ns pid_pkts total_pkts =
    track\<lparr>tr_last_pcr_ticks := pcr_ticks, tr_last_unwrapped_pcr_ns := tsa_pcr_to_ns pcr_ticks,
      tr_last_arrival_ns := arrival_ns, tr_pcr_count := 1, tr_initialized := True,
      tr_anchors := \<lparr>last_pcr_ticks_anchor = pcr_ticks, last_arrival_ns_anchor = arrival_ns,
        last_pid_pkts_anchor = pid_pkts, last_total_pkts_anchor = total_pkts, sync_done = False\<rparr>\<rparr>"

definition note_repetition :: "tsa_pcr_track \<Rightarrow> u64 \<Rightarrow> tsa_tr101290_stats \<Rightarrow> tsa_tr101290_stats option" where
  "note_repetition track pcr_delta_ticks s =
    (let pcr_delta_ms = dbl (tsa_pcr_to_ns_f (of_u64 pcr_delta_ticks) / 1000000) in
     if tr_live track \<and> of_u64 (pcr_repetition_max_ms s) < pcr_delta_ms
     then map_option (\<lambda>m. s\<lparr>pcr_repetition_max_ms := m\<rparr>) (to_u64 pcr_delta_ms) else Some s)"

definition push_sample :: "pcr_clock_state \<Rightarrow> u64 \<Rightarrow> u64 \<Rightarrow> pcr_clock_state" where
  "push_sample c sys_ns pcr_ns =
    c\<lparr>ck_samples := (ck_samples c)[ck_head c := (sys_ns, pcr_ns)],
      ck_head := (ck_head c + 1) mod PCR_TRACK_WINDOW_SIZE,
      ck_count := (if ck_count c < PCR_TRACK_WINDOW_SIZE then ck_count c + 1 else ck_count c)\<rparr>"

definition count_jitter :: "u64 \<Rightarrow> tsa_pcr_jitter_histogram \<Rightarrow> tsa_pcr_jitter_histogram" where
  "count_jitter e j =
    (if e < 500 then j\<lparr>bucket_under_500ns := bucket_under_500ns j + 1\<rparr>
     else if e < 1000 then j\<lparr>bucket_500ns_1us := bucket_500ns_1us j + 1\<rparr>
     else if e < 5000 then j\<lparr>bucket_1us_5us := bucket_1us_5us j + 1\<rparr>
     else if e < 10000 then j\<lparr>bucket_5us_10us := bucket_5us_10us j + 1\<rparr>
     else if e < 100000 then j\<lparr>bucket_10us_100us := bucket_10us_100us j + 1\<rparr>
     else if e < 1000000 then j\<lparr>bucket_100us_1ms := bucket_100us_1ms j + 1\<rparr>
     else if e < 10000000 then j\<lparr>bucket_1ms_10ms := bucket_1ms_10ms j + 1\<rparr>
     else j\<lparr>bucket_over_10ms := bucket_over_10ms j + 1\<rparr>)"

definition note_jitter :: "tsa_pcr_track \<Rightarrow> int \<Rightarrow> tsa_tr101290_stats \<Rightarrow> tsa_tr101290_stats" where
  "note_jitter track max_err_ns s =
    (let e = of_int \<bar>max_err_ns\<bar> :: u64 in
     if tr_live track then s\<lparr>pcr_jitter_max_ns := (if pcr_jitter_max_ns s < e then e else pcr_jitter_max_ns s),
       pcr_jitter_hist := count_jitter e (pcr_jitter_hist s)\<rparr> else s)"

text \<open>Clock recovery on a valid PCR.\<close>

definition recover_clock :: "tsa_pcr_track \<Rightarrow> u64 \<Rightarrow> tsa_tr101290_stats \<Rightarrow> (tsa_pcr_track \<times> tsa_tr101290_stats) option" where
  "recover_clock track arrival_ns s =
    (let c = push_sample (tr_clock track) arrival_ns (tr_last_unwrapped_pcr_ns track); t = track\<lparr>tr_clock := c\<rparr> in
     do {
       r \<leftarrow> pcr_track_regress c;
       case r of None \<Rightarrow> Some (t, s)
       | Some (slope, intercept, max_err_ns) \<Rightarrow>
           let inst_jitter_ms = flt (dbl (dbl (of_int max_err_ns) / 1000000)) in
           Some (t\<lparr>tr_clock := c\<lparr>ck_slope := slope, ck_intercept := intercept, ck_locked := max_err_ns < 1000000\<rparr>,
               tr_drift_ppm := dbl (dbl (slope - 1) * 1000000),
               tr_pcr_jitter_ms := (if tr_pcr_jitter_ms track = 0 then inst_jitter_ms
                 else flt (flt (flt (1 / 10) * inst_jitter_ms) + flt (flt (9 / 10) * tr_pcr_jitter_ms track)))\<rparr>,
             note_jitter track max_err_ns s)
     })"

definition settled_rate :: "u64 \<Rightarrow> u64 \<Rightarrow> u64 \<Rightarrow> u64 option" where
  "settled_rate rate pkts dt_ticks =
    do {
      inst \<leftarrow> to_u64 (dbl (dbl (dbl (of_u64 pkts * 1504) * 27000000) / of_u64 dt_ticks));
      if rate = 0 then Some inst
      else to_u64 (dbl (dbl (EMA_ALPHA * of_u64 inst) + dbl (dbl (1 - EMA_ALPHA) * of_u64 rate)))
    }"

definition settle_bitrate :: "tsa_pcr_track \<Rightarrow> u64 \<Rightarrow> u64 \<Rightarrow> u64 \<Rightarrow> u64 \<Rightarrow> tsa_pcr_track option" where
  "settle_bitrate track pcr_ticks arrival_ns pid_pkts total_pkts =
    (let a = tr_anchors track;
         time_since_last_settle = (if last_arrival_ns_anchor a < arrival_ns then arrival_ns - last_arrival_ns_anchor a else 0);
         dt_ticks = pcr_distance pcr_ticks (last_pcr_ticks_anchor a) in
     if BITRATE_SETTLE_INTERVAL_NS \<le> time_since_last_settle \<and> pcr_ticks \<noteq> INVALID_PCR \<and> 0 < dt_ticks then do {
       mux \<leftarrow> settled_rate (tr_mux_bitrate_bps track) (total_pkts - last_total_pkts_anchor a) dt_ticks;
       br \<leftarrow> settled_rate (tr_bitrate_bps track) (pid_pkts - last_pid_pkts_anchor a) dt_ticks;
       Some (track\<lparr>tr_bitrate_bps := br, tr_mux_bitrate_bps := mux,
         tr_anchors := \<lparr>last_pcr_ticks_anchor = pcr_ticks, last_arrival_ns_anchor = arrival_ns,
           last_pid_pkts_anchor = pid_pkts, last_total_pkts_anchor = total_pkts, sync_done = True\<rparr>\<rparr>)
     } else Some track)"

definition tsa_pcr_track_update ::
  "tsa_pcr_track \<Rightarrow> u64 \<Rightarrow> u64 \<Rightarrow> u64 \<Rightarrow> u64 \<Rightarrow> bool \<Rightarrow> tsa_tr101290_stats
    \<Rightarrow> (bool \<times> tsa_pcr_track \<times> tsa_tr101290_stats) option" where
  "tsa_pcr_track_update track pcr_ticks arrival_ns pid_pkts total_pkts use_arrival_check s =
    (if \<not> tr_initialized track then
       Some (False, (if pcr_ticks = INVALID_PCR then track
                     else track_first track pcr_ticks arrival_ns pid_pkts total_pkts), s)
     else let
       arrival_delta_ns = (if tr_last_arrival_ns track < arrival_ns then arrival_ns - tr_last_arrival_ns track else 0);
       arrival_violation = (use_arrival_check \<and> PCR_ARRIVAL_MAX_NS < arrival_delta_ns);
       valid = (pcr_ticks \<noteq> INVALID_PCR);
       pcr_delta_ticks = (if valid then pcr_distance pcr_ticks (tr_last_pcr_ticks track) else 0);
       pcr_gap_violation = (valid \<and> PCR_REPETITION_MAX_TICKS < pcr_delta_ticks);
       t1 = (if valid then track\<lparr>tr_last_unwrapped_pcr_ns := tr_last_unwrapped_pcr_ns track + tsa_pcr_to_ns pcr_delta_ticks\<rparr>
             else track);
       t2 = (if pcr_gap_violation \<or> arrival_violation then t1\<lparr>tr_priority_1_errors := tr_priority_1_errors track + 1\<rparr> else t1) in
     do {
       s1 \<leftarrow> (if valid then note_repetition track pcr_delta_ticks s else Some s);
       if (pcr_gap_violation \<or> arrival_violation) \<and> valid \<and> 27000000 * 5 < pcr_delta_ticks
       then Some (False, tsa_pcr_track_reset t2, s1)
       else do {
         let t3 = (if arrival_violation then t2\<lparr>tr_clock := (tr_clock t2)\<lparr>ck_locked := False\<rparr>\<rparr> else t2);
         (t4, s2) \<leftarrow> (if valid then recover_clock t3 arrival_ns s1 else Some (t3, s1));
         t5 \<leftarrow> settle_bitrate t4 pcr_ticks arrival_ns pid_pkts total_pkts;
         Some (True, t5\<lparr>tr_last_pcr_ticks := (if valid then pcr_ticks else tr_last_pcr_ticks t5),
           tr_last_arrival_ns := arrival_ns, tr_pcr_count := tr_pcr_count t5 + 1\<rparr>, s2)
       }
     })"

section \<open>What an update records\<close>

definition track_ok :: "tsa_pcr_track \<Rightarrow> bool" where
  "track_ok t \<longleftrightarrow> length (ck_samples (tr_clock t)) = PCR_TRACK_WINDOW_SIZE \<and> ck_head (tr_clock t) < PCR_TRACK_WINDOW_SIZE \<and>
     ck_count (tr_clock t) \<le> PCR_TRACK_WINDOW_SIZE"

lemma track_ok_init [simp]: "track_ok (tsa_pcr_track_init pid prg)"
  by (simp add: track_ok_def tsa_pcr_track_init_def PCR_TRACK_WINDOW_SIZE_def)

lemma track_ok_first [simp]: "track_ok (track_first t a b c d) = track_ok t"
  by (simp add: track_ok_def track_first_def)

lemma settle_frame:
  "settle_bitrate t a b c d = Some t' \<Longrightarrow>
    tr_clock t' = tr_clock t \<and> tr_priority_1_errors t' = tr_priority_1_errors t \<and> tr_live t' = tr_live t \<and>
    tr_initialized t' = tr_initialized t \<and> tr_last_unwrapped_pcr_ns t' = tr_last_unwrapped_pcr_ns t \<and>
    tr_pcr_count t' = tr_pcr_count t \<and> tr_last_pcr_ticks t' = tr_last_pcr_ticks t"
  by (auto simp: settle_bitrate_def Let_def bind_eq_Some_conv split: if_splits)

lemma recover_frame:
  "recover_clock t a s = Some (t', s') \<Longrightarrow>
    ck_samples (tr_clock t') = ck_samples (push_sample (tr_clock t) a (tr_last_unwrapped_pcr_ns t)) \<and>
    ck_head (tr_clock t') = ck_head (push_sample (tr_clock t) a (tr_last_unwrapped_pcr_ns t)) \<and>
    ck_count (tr_clock t') = ck_count (push_sample (tr_clock t) a (tr_last_unwrapped_pcr_ns t)) \<and>
    tr_priority_1_errors t' = tr_priority_1_errors t \<and> tr_live t' = tr_live t \<and>
    tr_initialized t' = tr_initialized t \<and> tr_last_unwrapped_pcr_ns t' = tr_last_unwrapped_pcr_ns t \<and>
    tr_pcr_count t' = tr_pcr_count t \<and> tr_last_pcr_ticks t' = tr_last_pcr_ticks t"
  by (auto simp: recover_clock_def Let_def bind_eq_Some_conv split: option.splits prod.splits)

lemma track_update_cases:
  assumes "tr_initialized t" "pcr \<noteq> INVALID_PCR"
    "tsa_pcr_track_update t pcr arr pk tp use_arrival s = Some (b, t', s')"
  defines "d \<equiv> pcr_distance pcr (tr_last_pcr_ticks t)"
  defines "late \<equiv> use_arrival \<and> tr_last_arrival_ns t < arr \<and> PCR_ARRIVAL_MAX_NS < arr - tr_last_arrival_ns t"
  defines "t2 \<equiv> t\<lparr>tr_last_unwrapped_pcr_ns := tr_last_unwrapped_pcr_ns t + tsa_pcr_to_ns d,
     tr_priority_1_errors := tr_priority_1_errors t + (if PCR_REPETITION_MAX_TICKS < d \<or> late then 1 else 0)\<rparr>"
  defines "t3 \<equiv> (if late then t2\<lparr>tr_clock := (tr_clock t2)\<lparr>ck_locked := False\<rparr>\<rparr> else t2)"
  obtains (reset) "135000000 < d" "\<not> b" "t' = tsa_pcr_track_reset t2"
  | (step) s1 t4 t5 where "\<not> 135000000 < d" "b" "recover_clock t3 arr s1 = Some (t4, s')"
      "settle_bitrate t4 pcr arr pk tp = Some t5"
      "t' = t5\<lparr>tr_last_pcr_ticks := pcr, tr_last_arrival_ns := arr, tr_pcr_count := tr_pcr_count t5 + 1\<rparr>"
proof -
  have l: "(use_arrival \<and> PCR_ARRIVAL_MAX_NS < (if tr_last_arrival_ns t < arr then arr - tr_last_arrival_ns t else 0)) = late"
    by (auto simp: late_def)
  have g: "135000000 < d \<Longrightarrow> PCR_REPETITION_MAX_TICKS < d"
    unfolding PCR_REPETITION_MAX_TICKS_def by (simp add: word_less_nat_alt unat_div)
  have t2: "(if PCR_REPETITION_MAX_TICKS < d \<or> late
      then t\<lparr>tr_last_unwrapped_pcr_ns := tr_last_unwrapped_pcr_ns t + tsa_pcr_to_ns d\<rparr>\<lparr>tr_priority_1_errors := tr_priority_1_errors t + 1\<rparr>
      else t\<lparr>tr_last_unwrapped_pcr_ns := tr_last_unwrapped_pcr_ns t + tsa_pcr_to_ns d\<rparr>) = t2"
    by (simp add: t2_def)
  have v: "(pcr \<noteq> INVALID_PCR) = True" "(\<not> tr_initialized t) = False" using assms(1,2) by simp_all
  have r: "((PCR_REPETITION_MAX_TICKS < d \<or> late) \<and> 27000000 * 5 < d) = (135000000 < d)" using g by auto
  have "tsa_pcr_track_update t pcr arr pk tp use_arrival s = do {
      s1 \<leftarrow> note_repetition t d s;
      if 135000000 < d then Some (False, tsa_pcr_track_reset t2, s1)
      else do {
        (t4, s2) \<leftarrow> recover_clock t3 arr s1;
        t5 \<leftarrow> settle_bitrate t4 pcr arr pk tp;
        Some (True, t5\<lparr>tr_last_pcr_ticks := pcr, tr_last_arrival_ns := arr, tr_pcr_count := tr_pcr_count t5 + 1\<rparr>, s2)
      }
    }"
    unfolding tsa_pcr_track_update_def Let_def l d_def [symmetric] v if_False if_True simp_thms t2 r t3_def [symmetric] ..
  from this [symmetric] obtain s1 where u: "(if 135000000 < d then Some (False, tsa_pcr_track_reset t2, s1)
      else do {
        (t4, s2) \<leftarrow> recover_clock t3 arr s1;
        t5 \<leftarrow> settle_bitrate t4 pcr arr pk tp;
        Some (True, t5\<lparr>tr_last_pcr_ticks := pcr, tr_last_arrival_ns := arr, tr_pcr_count := tr_pcr_count t5 + 1\<rparr>, s2)
      }) = Some (b, t', s')"
    unfolding assms(3) bind_eq_Some_conv by blast
  show ?thesis
  proof (cases "135000000 < d")
    case True
    then show ?thesis using u reset by simp
  next
    case False
    then show ?thesis using u step [OF False, of s1] by (auto simp: bind_eq_Some_conv)
  qed
qed


definition gap_example :: tsa_pcr_track where
  "gap_example = track_first (tsa_pcr_track_init 256 1) 100 5000 1 1"

lemma gap_example_update:
  "\<exists>t'. tsa_pcr_track_update gap_example 2000100 9000 2 2 True zero_stats = Some (True, t', zero_stats)"
  by (simp add: gap_example_def tsa_pcr_track_update_def track_first_def tsa_pcr_track_init_def Let_def INVALID_PCR_def
      pcr_distance_def note_repetition_def recover_clock_def pcr_track_regress_def push_sample_def settle_bitrate_def
      PCR_TRACK_WINDOW_SIZE_def PCR_REPETITION_MAX_TICKS_def PCR_ARRIVAL_MAX_NS_def BITRATE_SETTLE_INTERVAL_NS_def
      of_u64_def)


section \<open>The regression's baseline\<close>

lemma uint_minus_nonzero: "w \<noteq> 0 \<Longrightarrow> uint (- w) = 2 ^ 64 - uint w" for w :: u64
  using uint_word_ariths(4) [of w] unsigned_less [of w, where 'a = int] by (simp add: zmod_zminus1_eq_if unsigned_eq_0_iff)


definition wrap_example :: pcr_clock_state where
  "wrap_example = \<lparr>ck_slope = 0, ck_intercept = 0, ck_locked = False,
     ck_samples = map (\<lambda>k. (of_nat k * 30000000 + 1, of_nat k * 30000000)) [0..<20], ck_count = 20, ck_head = 0\<rparr>"


end
