(* ===== verification/Tsa_Plugin.thy ===== *)
theory Tsa_Plugin
  imports Tsa_Prelude
begin

text \<open>
  The plugin registry and the plugin slots of a handle (\<open>tsa_plugin.c\<close>). The
  operation tables of the built-in engines are the constructors of a datatype;
  the Lua binding attaches only tables found in this registry. The slots are a
  list in which a free slot is \<open>None\<close>; the fields \<open>in_use\<close>, \<open>ops\<close> and
  \<open>instance\<close> are set and cleared together.
\<close>

datatype tsa_plugin_ops = tsa_scte35_engine | tr101290_ops | pcr_ops | essence_plugin_ops

definition MAX_TSA_PLUGINS :: nat where "MAX_TSA_PLUGINS = 16"

fun plugin_name :: "tsa_plugin_ops \<Rightarrow> string" where
  "plugin_name tsa_scte35_engine = ''SCTE35_PARSER''"
| "plugin_name tr101290_ops = ''TR101290_CORE''"
| "plugin_name pcr_ops = ''PCR_ANALYZER''"
| "plugin_name essence_plugin_ops = ''essence''"

section \<open>Registry\<close>

definition tsa_plugin_register :: "tsa_plugin_ops \<Rightarrow> tsa_plugin_ops list \<Rightarrow> tsa_plugin_ops list" where
  "tsa_plugin_register ops registry =
    (if MAX_TSA_PLUGINS \<le> length registry \<or> ops \<in> set registry then registry else registry @ [ops])"

definition tsa_plugin_find :: "string \<Rightarrow> tsa_plugin_ops list \<Rightarrow> tsa_plugin_ops option" where
  "tsa_plugin_find name registry = find (\<lambda>ops. plugin_name ops = name) registry"

definition tsa_plugins_init_registry :: "tsa_plugin_ops list" where
  "tsa_plugins_init_registry = tsa_plugin_register essence_plugin_ops (tsa_plugin_register pcr_ops
     (tsa_plugin_register tr101290_ops (tsa_plugin_register tsa_scte35_engine [])))"

section \<open>Slots\<close>

type_synonym plugin_slots = "tsa_plugin_ops option list \<times> nat"

fun free_slot :: "tsa_plugin_ops option list \<Rightarrow> nat option" where
  "free_slot [] = None"
| "free_slot (s # ss) = (if s = None then Some 0 else map_option Suc (free_slot ss))"

text \<open>The \<open>create\<close> callbacks of the built-in engines never fail.\<close>

definition tsa_plugin_attach_instance :: "tsa_plugin_ops \<Rightarrow> plugin_slots \<Rightarrow> plugin_slots" where
  "tsa_plugin_attach_instance ops = (\<lambda>(plugins, plugin_count).
    if MAX_TSA_PLUGINS \<le> plugin_count then (plugins, plugin_count)
    else (case free_slot plugins of None \<Rightarrow> (plugins, plugin_count)
      | Some i \<Rightarrow> (plugins[i := Some ops], plugin_count + 1)))"

definition tsa_plugins_attach_builtin :: "tsa_plugin_ops list \<Rightarrow> plugin_slots \<Rightarrow> plugin_slots" where
  "tsa_plugins_attach_builtin registry slots = foldl (\<lambda>s ops. tsa_plugin_attach_instance ops s) slots registry"

definition clear_slots :: "plugin_slots \<Rightarrow> plugin_slots" where
  "clear_slots = (\<lambda>(plugins, _). (map (\<lambda>_. None) plugins, 0))"

section \<open>The slot invariant\<close>

text \<open>The count is the number of slots in use.\<close>

definition slots_ok :: "plugin_slots \<Rightarrow> bool" where
  "slots_ok = (\<lambda>(plugins, plugin_count). length plugins = MAX_TSA_PLUGINS \<and>
     plugin_count = length (filter (\<lambda>s. s \<noteq> None) plugins))"

lemma free_slot_None: "free_slot ss = None \<longleftrightarrow> length (filter (\<lambda>s. s \<noteq> None) ss) = length ss"
proof (induction ss)
  case (Cons s ss)
  have "length (filter (\<lambda>s. s \<noteq> None) ss) \<le> length ss" by simp
  then show ?case using Cons by (auto simp del: length_filter_le)
qed simp

lemma free_slot_Some:
  "free_slot ss = Some i \<Longrightarrow> i < length ss \<and> ss ! i = None \<and> (\<forall>j < i. ss ! j \<noteq> None) \<and>
     length (filter (\<lambda>s. s \<noteq> None) (ss[i := Some x])) = Suc (length (filter (\<lambda>s. s \<noteq> None) ss))"
proof (induction ss arbitrary: i)
  case (Cons s ss)
  show ?case
  proof (cases "s = None")
    case False
    then obtain k where k: "free_slot ss = Some k" "i = Suc k" using Cons.prems by auto
    show ?thesis using Cons.IH [OF k(1)] False k(2) by (auto simp: nth_Cons' less_Suc_eq_0_disj)
  qed (use Cons.prems in simp)
qed simp

lemma attach_cases:
  assumes "slots_ok (ps, n)"
  obtains (full) "n = MAX_TSA_PLUGINS" "tsa_plugin_attach_instance ops (ps, n) = (ps, n)"
  | (free) i where "n < MAX_TSA_PLUGINS" "free_slot ps = Some i"
      "tsa_plugin_attach_instance ops (ps, n) = (ps[i := Some ops], n + 1)" "slots_ok (ps[i := Some ops], n + 1)"
proof (cases "free_slot ps")
  case None
  then have "n = MAX_TSA_PLUGINS" using assms free_slot_None by (auto simp: slots_ok_def)
  then show ?thesis using full by (simp add: tsa_plugin_attach_instance_def)
next
  case (Some i)
  then have "n \<noteq> MAX_TSA_PLUGINS" using assms free_slot_None [of ps] by (auto simp: slots_ok_def)
  moreover have "n \<le> MAX_TSA_PLUGINS" using assms length_filter_le [of "\<lambda>s. s \<noteq> None" ps] by (simp add: slots_ok_def)
  ultimately have "n < MAX_TSA_PLUGINS" by simp
  moreover have "slots_ok (ps[i := Some ops], n + 1)" using free_slot_Some [OF Some, of ops] assms by (simp add: slots_ok_def)
  ultimately show ?thesis using free [of i] Some by (simp add: tsa_plugin_attach_instance_def)
qed

text \<open>
  Attaching a plugin keeps the count of the slots in use right; it succeeds
  exactly while fewer than 16 slots are in use and then takes the first free
  slot and leaves every other slot alone; clearing frees every slot.
\<close>

theorem plugin_slots_invariant:
  assumes "slots_ok (ps, n)"
  shows "slots_ok (tsa_plugin_attach_instance ops (ps, n)) \<and> slots_ok (clear_slots (ps, n)) \<and>
    (if n < MAX_TSA_PLUGINS
     then \<exists>i < length ps. ps ! i = None \<and> (\<forall>j < i. ps ! j \<noteq> None) \<and>
       tsa_plugin_attach_instance ops (ps, n) = (ps[i := Some ops], n + 1)
     else tsa_plugin_attach_instance ops (ps, n) = (ps, n))"
proof -
  have c: "slots_ok (clear_slots (ps, n))" using assms by (simp add: slots_ok_def clear_slots_def)
  from assms show ?thesis
  proof (cases rule: attach_cases [where ops = ops])
    case full
    then show ?thesis using assms c by simp
  next
    case (free i)
    then show ?thesis using free_slot_Some [OF free(2), of ops] c by auto
  qed
qed

theorem plugin_slots_invariant_witness:
  "slots_ok (replicate 16 None, 0) \<and> slots_ok (tsa_plugin_attach_instance pcr_ops (replicate 16 None, 0))"
proof -
  have "slots_ok (replicate 16 None, 0)" by (simp add: slots_ok_def MAX_TSA_PLUGINS_def)
  then show ?thesis using plugin_slots_invariant [of "replicate 16 None" 0 pcr_ops] by simp
qed

lemma builtin_registry:
  "tsa_plugins_init_registry = [tsa_scte35_engine, tr101290_ops, pcr_ops, essence_plugin_ops]"
  by (simp add: tsa_plugins_init_registry_def tsa_plugin_register_def MAX_TSA_PLUGINS_def)

lemma builtin_slots:
  "tsa_plugins_attach_builtin tsa_plugins_init_registry (replicate 16 None, 0) =
    ([Some tsa_scte35_engine, Some tr101290_ops, Some pcr_ops, Some essence_plugin_ops] @ replicate 12 None, 4)"
  by (simp add: builtin_registry tsa_plugins_attach_builtin_def tsa_plugin_attach_instance_def MAX_TSA_PLUGINS_def
      numeral_eq_Suc)

end
