(* ===== verification/Tsa_State.thy ===== *)
theory Tsa_State
  imports Tsa_Types Tsa_Histogram Tsa_Pcr_Track Packet_Pool Tsa_Plugin
begin

text \<open>
  The handle of the analyser (\<open>struct tsa_handle\<close>), its snapshot buffers and
  \<open>tsa_create\<close>. Calls of the webhook and Lua back ends are recorded, in order,
  in \<open>h_outbox\<close>. Fields that no modelled operation reads or writes are left out.
\<close>

section \<open>Snapshots\<close>

record tsa_snapshot_lite =
  sl_total_packets :: u64
  sl_physical_bitrate_bps :: u64
  sl_pcr_bitrate_bps :: u64
  sl_signal_lock :: bool
  sl_master_health :: rat
  sl_active_pid_count :: nat

record tsa_pid_info =
  pf_pid :: u16
  pf_bitrate_avg :: u64
  pf_bitrate_min :: u64
  pf_bitrate_max :: u64
  pf_cc_errors :: u64
  pf_width :: u16
  pf_height :: u16
  pf_exact_fps :: rat
  pf_audio :: tsa_audio
  pf_gop_n :: u32
  pf_gop_min :: u32
  pf_gop_max :: u32
  pf_gop_ms :: u32
  pf_i_frames :: u64
  pf_p_frames :: u64
  pf_b_frames :: u64
  pf_eb_fill_pct :: rat
  pf_gop_structure :: string
  pf_i_frame_size_bytes :: u64
  pf_p_frame_size_bytes :: u64
  pf_b_frame_size_bytes :: u64
  pf_encoder_latency_ms :: u64
  pf_network_latency_ms :: u64
  pf_pts_jitter_ms_peak :: rat
  pf_pts_offset_ms_avg :: rat

text \<open>\<open>pids[0 .. active_pid_count - 1]\<close> is the list \<open>sf_pids\<close>.\<close>

record tsa_snapshot_full =
  sf_summary :: tsa_snapshot_lite
  sf_stats :: tsa_tr101290_stats
  sf_predictive_health :: rat
  sf_pids :: "tsa_pid_info list"

record phys_stats =
  last_snap_bytes :: u64
  last_bps :: u64
  phys_window_start_ns :: u64
  pid_last_snap_pkts :: "u16 \<Rightarrow> u64"

section \<open>The handle\<close>

text \<open>
  \<open>programs[0 .. program_count - 1]\<close> is \<open>h_programs\<close> and
  \<open>pid_active_list[0 .. pid_tracker_count - 1]\<close> is \<open>h_pid_active_list\<close>: both
  counts only grow, and entries past them are still zero. The entry -1 of
  \<open>pid_to_active_idx\<close> is \<open>None\<close>. The ring of \<open>event_q\<close> is a list of
  \<open>MAX_EVENT_QUEUE\<close> slots with two counters.
\<close>

record tsa_handle =
  h_config :: tsa_config
  h_alerts :: "tsa_alert_id \<Rightarrow> tsa_alert_state"
  h_agg_entries :: "u32 \<Rightarrow> tsa_alert_aggregator_entry"
  h_agg_window_ms :: u32
  h_sync_state :: tsa_sync_state
  h_sync_confirm_count :: u32
  h_sync_buffer :: bytes
  h_consecutive_sync_errors :: u32
  h_consecutive_good_syncs :: u32
  h_signal_lock :: bool
  h_engine_started :: bool
  h_start_ns :: u64
  h_last_snap_ns :: u64
  h_last_snap_wall_ns :: u64
  h_stc_ns :: u64
  h_stc_locked :: bool
  h_stc_slope_q64 :: int
  h_stc_intercept_q64 :: int
  h_pkts_since_pcr :: u64
  h_live :: tsa_tr101290_stats
  h_pid_seen :: "u16 \<Rightarrow> bool"
  h_pid_types :: "u16 \<Rightarrow> u8"
  h_pid_is_pmt :: "u16 \<Rightarrow> bool"
  h_pid_is_scte35 :: "u16 \<Rightarrow> bool"
  h_pid_filtering_enabled :: bool
  h_pid_allowed :: "u16 \<Rightarrow> bool"
  h_es_tracks :: "u16 \<Rightarrow> tsa_es_track"
  h_pid_labels :: "u16 \<Rightarrow> string"
  h_last_packet_rx_ns :: u64
  h_phys_stats :: phys_stats
  h_programs :: "tsa_program_info list"
  h_seen_pat :: bool
  h_seen_pmt :: bool
  h_last_pat_ns :: u64
  h_last_pmt_ns :: u64
  h_last_sdt_ns :: u64
  h_last_nit_ns :: u64
  h_pid_active_list :: "u16 list"
  h_pid_to_active_idx :: "u16 \<Rightarrow> nat option"
  h_op_mode :: tsa_op_mode
  h_pool_offset :: u64
  h_pool_size :: u64
  h_ev_slots :: "tsa_event list"
  h_ev_head :: u64
  h_ev_tail :: u64
  h_webhook :: bool
  h_lua :: bool
  h_outbox :: "out_call list"
  h_current_ns :: u64
  h_processed_bytes :: u64
  h_current_packet_offset :: u64
  h_current_res :: ts_decode_result
  h_last_pcr_ticks :: u64
  h_master_pcr_pid :: u16
  h_stc_wall_drift_ppm :: rat
  h_pcr_tracks :: "u16 \<Rightarrow> tsa_pcr_track"
  h_pkt_pool :: tsa_packet_pool
  h_pid_histograms :: "u16 \<Rightarrow> tsa_histogram option"
  h_plugins :: plugin_slots
  h_prev_snap_base :: tsa_tr101290_stats
  h_buffers :: "nat \<Rightarrow> tsa_snapshot_full"
  h_active_idx :: nat
  h_last_health_score :: rat
  h_srt_live :: tsa_srt_stats
  h_last_trigger_reason :: int
  h_last_forensic_alarm_count :: u64

abbreviation set_es :: "u16 \<Rightarrow> (tsa_es_track \<Rightarrow> tsa_es_track) \<Rightarrow> tsa_handle \<Rightarrow> tsa_handle" where
  "set_es pid f h \<equiv> h\<lparr>h_es_tracks := (h_es_tracks h)(pid := f (h_es_tracks h pid))\<rparr>"

abbreviation set_live :: "(tsa_tr101290_stats \<Rightarrow> tsa_tr101290_stats) \<Rightarrow> tsa_handle \<Rightarrow> tsa_handle" where
  "set_live f h \<equiv> h\<lparr>h_live := f (h_live h)\<rparr>"

section \<open>Formatting\<close>

text \<open>The conversions of \<open>snprintf\<close> the source uses: \<open>%d\<close>, \<open>%u\<close> and \<open>%04x\<close>.\<close>

definition digit_char :: "nat \<Rightarrow> char" where
  "digit_char d = char_of (if d < 10 then 48 + d else 87 + d)"

fun dec_string :: "nat \<Rightarrow> string" where
  "dec_string n = (if n < 10 then [digit_char n] else dec_string (n div 10) @ [digit_char (n mod 10)])"

definition hex4 :: "u16 \<Rightarrow> string" where
  "hex4 w = map (\<lambda>k. digit_char (unat w div 16 ^ k mod 16)) [3, 2, 1, 0]"

text \<open>\<open>snprintf\<close> into a buffer of the given size, and the label fall-back.\<close>

definition snprintf_to :: "nat \<Rightarrow> string \<Rightarrow> string" where
  "snprintf_to sz s = take (sz - 1) s"

definition stream_label :: "tsa_handle \<Rightarrow> string" where
  "stream_label h = (if input_label (h_config h) = [] then ''unknown'' else input_label (h_config h))"

declare dec_string.simps [simp del]

section \<open>A new handle\<close>

definition zero_snapshot :: tsa_snapshot_full where
  "zero_snapshot = \<lparr>sf_summary = \<lparr>sl_total_packets = 0, sl_physical_bitrate_bps = 0, sl_pcr_bitrate_bps = 0,
     sl_signal_lock = False, sl_master_health = 0, sl_active_pid_count = 0\<rparr>, sf_stats = zero_stats,
     sf_predictive_health = 0, sf_pids = []\<rparr>"

definition zero_srt :: tsa_srt_stats where
  "zero_srt = \<lparr>rtt_ms = 0, byte_rcv_buf = 0, effective_rcv_latency_ms = 0, retransmit_tax = 0, bytes_received = 0,
     bytes_lost = 0\<rparr>"

text \<open>
  \<open>tsa_create\<close> with the handle's plain fields; \<open>webhook_up\<close> and \<open>lua_up\<close>
  say whether these back ends could be started. An allocation failure is left out.
\<close>

definition tsa_create :: "tsa_config option \<Rightarrow> bool \<Rightarrow> bool \<Rightarrow> tsa_handle" where
  "tsa_create cfg webhook_up lua_up = (let config = (case cfg of None \<Rightarrow> zero_config | Some c \<Rightarrow> c) in
    \<lparr>h_config = config, h_alerts = (\<lambda>_. zero_alert), h_agg_entries = (\<lambda>_. zero_entry),
     h_agg_window_ms = (if suppression_window_ms config = 0 then 10000 else suppression_window_ms config),
     h_sync_state = TS_SYNC_HUNTING, h_sync_confirm_count = 0, h_sync_buffer = [], h_consecutive_sync_errors = 0,
     h_consecutive_good_syncs = 0, h_signal_lock = False, h_engine_started = False, h_start_ns = 0,
     h_last_snap_ns = 0, h_last_snap_wall_ns = 0, h_stc_ns = 0, h_stc_locked = False, h_stc_slope_q64 = 2 ^ 64,
     h_stc_intercept_q64 = 0, h_pkts_since_pcr = 0, h_live = zero_stats, h_pid_seen = (\<lambda>_. False),
     h_pid_types = (\<lambda>_. 0), h_pid_is_pmt = (\<lambda>_. False), h_pid_is_scte35 = (\<lambda>_. False),
     h_pid_filtering_enabled = False, h_pid_allowed = (\<lambda>_. False), h_es_tracks = new_es_track,
     h_pid_labels = (\<lambda>_. []), h_last_packet_rx_ns = 0,
     h_phys_stats = \<lparr>last_snap_bytes = 0, last_bps = 0, phys_window_start_ns = 0, pid_last_snap_pkts = (\<lambda>_. 0)\<rparr>, h_programs = [], h_seen_pat = False,
     h_seen_pmt = False, h_last_pat_ns = 0, h_last_pmt_ns = 0, h_last_sdt_ns = 0, h_last_nit_ns = 0,
     h_pid_active_list = [], h_pid_to_active_idx = (\<lambda>_. None),
     h_op_mode = (case cfg of None \<Rightarrow> TSA_MODE_LIVE | Some c \<Rightarrow> cfg_op_mode c),
     h_pool_offset = 0, h_pool_size = 1024 * 1024 + 32 * 65536, h_ev_slots = replicate MAX_EVENT_QUEUE zero_event,
     h_ev_head = 0, h_ev_tail = 0, h_webhook = (cfg_webhook_url config \<noteq> [] \<and> webhook_up), h_lua = lua_up,
     h_outbox = [], h_current_ns = 0, h_processed_bytes = 0, h_current_packet_offset = 0, h_current_res = zero_decode,
     h_last_pcr_ticks = INVALID_PCR, h_master_pcr_pid = 0x1FFF, h_stc_wall_drift_ppm = 0,
     h_pcr_tracks = (\<lambda>i. (tsa_pcr_track_init (ucast i) 0)\<lparr>tr_live := True\<rparr>),
     h_pkt_pool = the (tsa_packet_pool_create 16384), h_pid_histograms = (\<lambda>_. None),
     h_plugins = tsa_plugins_attach_builtin tsa_plugins_init_registry (replicate MAX_TSA_PLUGINS None, 0), h_prev_snap_base = zero_stats, h_buffers = (\<lambda>_. zero_snapshot), h_active_idx = 0,
     h_last_health_score = 100, h_srt_live = zero_srt, h_last_trigger_reason = 0, h_last_forensic_alarm_count = 0\<rparr>)"

lemma create_fields [simp]:
  "h_config (tsa_create cfg webhook_up lua_up) = (case cfg of None \<Rightarrow> zero_config | Some c \<Rightarrow> c)"
  "h_alerts (tsa_create cfg webhook_up lua_up) = (\<lambda>_. zero_alert)"
  "h_agg_entries (tsa_create cfg webhook_up lua_up) = (\<lambda>_. zero_entry)"
  "h_agg_window_ms (tsa_create cfg webhook_up lua_up) = (let config = (case cfg of None \<Rightarrow> zero_config | Some c \<Rightarrow> c) in if suppression_window_ms config = 0 then 10000 else suppression_window_ms config)"
  "h_sync_state (tsa_create cfg webhook_up lua_up) = TS_SYNC_HUNTING"
  "h_sync_confirm_count (tsa_create cfg webhook_up lua_up) = 0"
  "h_sync_buffer (tsa_create cfg webhook_up lua_up) = []"
  "h_consecutive_sync_errors (tsa_create cfg webhook_up lua_up) = 0"
  "h_consecutive_good_syncs (tsa_create cfg webhook_up lua_up) = 0"
  "h_signal_lock (tsa_create cfg webhook_up lua_up) = False"
  "h_engine_started (tsa_create cfg webhook_up lua_up) = False"
  "h_start_ns (tsa_create cfg webhook_up lua_up) = 0"
  "h_last_snap_ns (tsa_create cfg webhook_up lua_up) = 0"
  "h_last_snap_wall_ns (tsa_create cfg webhook_up lua_up) = 0"
  "h_stc_ns (tsa_create cfg webhook_up lua_up) = 0"
  "h_stc_locked (tsa_create cfg webhook_up lua_up) = False"
  "h_stc_slope_q64 (tsa_create cfg webhook_up lua_up) = 2 ^ 64"
  "h_stc_intercept_q64 (tsa_create cfg webhook_up lua_up) = 0"
  "h_pkts_since_pcr (tsa_create cfg webhook_up lua_up) = 0"
  "h_live (tsa_create cfg webhook_up lua_up) = zero_stats"
  "h_pid_seen (tsa_create cfg webhook_up lua_up) = (\<lambda>_. False)"
  "h_pid_types (tsa_create cfg webhook_up lua_up) = (\<lambda>_. 0)"
  "h_pid_is_pmt (tsa_create cfg webhook_up lua_up) = (\<lambda>_. False)"
  "h_pid_is_scte35 (tsa_create cfg webhook_up lua_up) = (\<lambda>_. False)"
  "h_pid_filtering_enabled (tsa_create cfg webhook_up lua_up) = False"
  "h_pid_allowed (tsa_create cfg webhook_up lua_up) = (\<lambda>_. False)"
  "h_es_tracks (tsa_create cfg webhook_up lua_up) = new_es_track"
  "h_pid_labels (tsa_create cfg webhook_up lua_up) = (\<lambda>_. [])"
  "h_last_packet_rx_ns (tsa_create cfg webhook_up lua_up) = 0"
  "h_phys_stats (tsa_create cfg webhook_up lua_up) = \<lparr>last_snap_bytes = 0, last_bps = 0, phys_window_start_ns = 0, pid_last_snap_pkts = (\<lambda>_. 0)\<rparr>"
  "h_programs (tsa_create cfg webhook_up lua_up) = []"
  "h_seen_pat (tsa_create cfg webhook_up lua_up) = False"
  "h_seen_pmt (tsa_create cfg webhook_up lua_up) = False"
  "h_last_pat_ns (tsa_create cfg webhook_up lua_up) = 0"
  "h_last_pmt_ns (tsa_create cfg webhook_up lua_up) = 0"
  "h_last_sdt_ns (tsa_create cfg webhook_up lua_up) = 0"
  "h_last_nit_ns (tsa_create cfg webhook_up lua_up) = 0"
  "h_pid_active_list (tsa_create cfg webhook_up lua_up) = []"
  "h_pid_to_active_idx (tsa_create cfg webhook_up lua_up) = (\<lambda>_. None)"
  "h_op_mode (tsa_create cfg webhook_up lua_up) = (case cfg of None \<Rightarrow> TSA_MODE_LIVE | Some c \<Rightarrow> cfg_op_mode c)"
  "h_pool_offset (tsa_create cfg webhook_up lua_up) = 0"
  "h_pool_size (tsa_create cfg webhook_up lua_up) = 1024 * 1024 + 32 * 65536"
  "h_ev_slots (tsa_create cfg webhook_up lua_up) = replicate MAX_EVENT_QUEUE zero_event"
  "h_ev_head (tsa_create cfg webhook_up lua_up) = 0"
  "h_ev_tail (tsa_create cfg webhook_up lua_up) = 0"
  "h_webhook (tsa_create cfg webhook_up lua_up) = (cfg_webhook_url (case cfg of None \<Rightarrow> zero_config | Some c \<Rightarrow> c) \<noteq> [] \<and> webhook_up)"
  "h_lua (tsa_create cfg webhook_up lua_up) = lua_up"
  "h_outbox (tsa_create cfg webhook_up lua_up) = []"
  "h_current_ns (tsa_create cfg webhook_up lua_up) = 0"
  "h_processed_bytes (tsa_create cfg webhook_up lua_up) = 0"
  "h_current_packet_offset (tsa_create cfg webhook_up lua_up) = 0"
  "h_current_res (tsa_create cfg webhook_up lua_up) = zero_decode"
  "h_last_pcr_ticks (tsa_create cfg webhook_up lua_up) = INVALID_PCR"
  "h_master_pcr_pid (tsa_create cfg webhook_up lua_up) = 0x1FFF"
  "h_stc_wall_drift_ppm (tsa_create cfg webhook_up lua_up) = 0"
  "h_pcr_tracks (tsa_create cfg webhook_up lua_up) = (\<lambda>i. (tsa_pcr_track_init (ucast i) 0)\<lparr>tr_live := True\<rparr>)"
  "h_pkt_pool (tsa_create cfg webhook_up lua_up) = the (tsa_packet_pool_create 16384)"
  "h_pid_histograms (tsa_create cfg webhook_up lua_up) = (\<lambda>_. None)"
  "h_plugins (tsa_create cfg webhook_up lua_up) = tsa_plugins_attach_builtin tsa_plugins_init_registry (replicate MAX_TSA_PLUGINS None, 0)"
  "h_prev_snap_base (tsa_create cfg webhook_up lua_up) = zero_stats"
  "h_buffers (tsa_create cfg webhook_up lua_up) = (\<lambda>_. zero_snapshot)"
  "h_active_idx (tsa_create cfg webhook_up lua_up) = 0"
  "h_last_health_score (tsa_create cfg webhook_up lua_up) = 100"
  "h_srt_live (tsa_create cfg webhook_up lua_up) = zero_srt"
  "h_last_trigger_reason (tsa_create cfg webhook_up lua_up) = 0"
  "h_last_forensic_alarm_count (tsa_create cfg webhook_up lua_up) = 0"
  unfolding tsa_create_def Let_def tsa_handle.select_convs by (rule refl)+

end
