(* ===== verification/Tsa_Alert.thy ===== *)
theory Tsa_Alert
  imports Tsa_State "HOL-Library.Sublist"
begin

text \<open>
  The alert engine \<open>tsa_alert.c\<close>: the state machine of each alert, the
  dependency tree that suppresses secondary alerts, the aggregation window and
  the resolution pass. Log lines are left out; webhook and Lua calls are
  appended to \<open>h_outbox\<close>.
\<close>

section \<open>Masks and names\<close>

fun tsa_alert_get_mask :: "tsa_alert_id \<Rightarrow> u64" where
  "tsa_alert_get_mask TSA_ALERT_SYNC = 2 ^ 0"
| "tsa_alert_get_mask TSA_ALERT_PAT = 2 ^ 1"
| "tsa_alert_get_mask TSA_ALERT_PMT = 2 ^ 3"
| "tsa_alert_get_mask TSA_ALERT_PID = 2 ^ 4"
| "tsa_alert_get_mask TSA_ALERT_CC = 2 ^ 2"
| "tsa_alert_get_mask TSA_ALERT_TRANSPORT = 2 ^ 5"
| "tsa_alert_get_mask TSA_ALERT_CRC = 2 ^ 6"
| "tsa_alert_get_mask TSA_ALERT_PCR = 2 ^ 7"
| "tsa_alert_get_mask TSA_ALERT_PTS = 2 ^ 8"
| "tsa_alert_get_mask TSA_ALERT_TSTD = 2 ^ 9"
| "tsa_alert_get_mask TSA_ALERT_ENTROPY = 2 ^ 10"
| "tsa_alert_get_mask TSA_ALERT_SDT = 2 ^ 11"
| "tsa_alert_get_mask TSA_ALERT_NIT = 2 ^ 12"
| "tsa_alert_get_mask TSA_ALERT_CC_MISSING = 2 ^ 13"

fun tsa_alert_get_name :: "tsa_alert_id \<Rightarrow> string" where
  "tsa_alert_get_name TSA_ALERT_SYNC = ''SYNC''"
| "tsa_alert_get_name TSA_ALERT_PAT = ''PAT''"
| "tsa_alert_get_name TSA_ALERT_PMT = ''PMT''"
| "tsa_alert_get_name TSA_ALERT_PID = ''PID''"
| "tsa_alert_get_name TSA_ALERT_CC = ''CC''"
| "tsa_alert_get_name TSA_ALERT_TRANSPORT = ''TRANSPORT''"
| "tsa_alert_get_name TSA_ALERT_CRC = ''CRC''"
| "tsa_alert_get_name TSA_ALERT_PCR = ''PCR''"
| "tsa_alert_get_name TSA_ALERT_PTS = ''PTS''"
| "tsa_alert_get_name TSA_ALERT_TSTD = ''TSTD''"
| "tsa_alert_get_name TSA_ALERT_ENTROPY = ''ENTROPY''"
| "tsa_alert_get_name TSA_ALERT_SDT = ''SDT''"
| "tsa_alert_get_name TSA_ALERT_NIT = ''NIT''"
| "tsa_alert_get_name TSA_ALERT_CC_MISSING = ''CC_MISSING''"

text \<open>The test \<open>user_mask & mask\<close>, where a zero filter stands for all alerts.\<close>

definition mask_selected :: "tsa_handle \<Rightarrow> tsa_alert_id \<Rightarrow> bool" where
  "mask_selected h i = (let
      user_mask = alert_filter_mask (h_config h);
      user_mask = (if user_mask = 0 then 0xFFFFFFFFFFFFFFFF else user_mask)
    in user_mask AND tsa_alert_get_mask i \<noteq> 0)"

section \<open>Raising an alert\<close>

definition alert_aggregator_hash :: "tsa_alert_id \<Rightarrow> u16 \<Rightarrow> u32" where
  "alert_aggregator_hash i pid = (alert_code i * 31 + ucast pid) mod 4096"

definition tsa_alert_should_suppress ::
    "tsa_handle \<Rightarrow> tsa_alert_id \<Rightarrow> u16 \<Rightarrow> string \<Rightarrow> string \<Rightarrow> bool \<times> tsa_handle" where
  "tsa_alert_should_suppress h i pid name message =
    (if h_agg_window_ms h = 0 then (False, h)
     else let
       hash_idx = alert_aggregator_hash i pid;
       entry = h_agg_entries h hash_idx;
       now = h_stc_ns h;
       window_ns = ucast (h_agg_window_ms h) * 1000000
     in
       if ae_active entry \<and> ae_id entry = i \<and> ae_pid entry = pid \<and> now - window_start_ns entry < window_ns
       then (True, h\<lparr>h_agg_entries := (h_agg_entries h)(hash_idx :=
              entry\<lparr>hit_count := hit_count entry + 1, last_hit_ns := now\<rparr>)\<rparr>)
       else (False, h\<lparr>h_agg_entries := (h_agg_entries h)(hash_idx :=
              \<lparr>ae_id = i, ae_pid = pid, hit_count = 1, last_hit_ns = now, window_start_ns = now,
               ae_stream_id = take 63 (stream_label h), ae_alert_name = take 31 name,
               ae_message = take 255 message, ae_active = True\<rparr>)\<rparr>))"

definition tsa_alert_is_suppressed_by_tree :: "tsa_handle \<Rightarrow> tsa_alert_id \<Rightarrow> bool" where
  "tsa_alert_is_suppressed_by_tree h i =
    (al_status (h_alerts h TSA_ALERT_SYNC) = TSA_ALERT_STATE_FIRING \<and>
       i \<in> set [TSA_ALERT_CC, TSA_ALERT_PCR, TSA_ALERT_TSTD, TSA_ALERT_PAT, TSA_ALERT_PMT, TSA_ALERT_SDT,
         TSA_ALERT_NIT, TSA_ALERT_TRANSPORT, TSA_ALERT_CRC, TSA_ALERT_PTS]
     \<or> al_status (h_alerts h TSA_ALERT_CC) = TSA_ALERT_STATE_FIRING \<and> i \<in> set [TSA_ALERT_PCR, TSA_ALERT_TSTD])"

text \<open>The notifications of a newly firing alert.\<close>

definition alert_notify :: "tsa_handle \<Rightarrow> tsa_alert_id \<Rightarrow> string \<Rightarrow> u16 \<Rightarrow> string \<Rightarrow> tsa_handle" where
  "alert_notify h i name pid msg = (let
      h = (if h_webhook h \<and> mask_selected h i
           then h\<lparr>h_outbox := h_outbox h @ [Webhook_push (input_label (h_config h)) name msg ''CRITICAL'']\<rparr> else h)
    in if h_lua h then h\<lparr>h_outbox := h_outbox h @ [Lua_push name pid msg]\<rparr> else h)"

definition fire_text :: "string \<Rightarrow> u16 \<Rightarrow> string" where
  "fire_text name pid = snprintf_to 256 (''CRITICAL: '' @ name @ '' Error detected on PID '' @ dec_string (unat pid))"

text \<open>The step from OFF to FIRING, where \<open>s\<close> is the alert with the occurrence counted.\<close>

definition alert_fire :: "tsa_handle \<Rightarrow> tsa_alert_id \<Rightarrow> tsa_alert_state \<Rightarrow> string \<Rightarrow> u16 \<Rightarrow> tsa_handle" where
  "alert_fire h i s name pid = (let
      h = h\<lparr>h_alerts := (h_alerts h)(i := s\<lparr>al_status := TSA_ALERT_STATE_FIRING, needs_resolve_msg := True\<rparr>)\<rparr>;
      msg = fire_text name pid;
      r = tsa_alert_should_suppress h i pid name msg
    in if fst r then snd r else alert_notify (snd r) i name pid msg)"

definition tsa_alert_update :: "tsa_handle \<Rightarrow> tsa_alert_id \<Rightarrow> bool \<Rightarrow> string \<Rightarrow> u16 \<Rightarrow> tsa_handle" where
  "tsa_alert_update h i has_error name pid =
    (if has_error \<and> \<not> tsa_alert_is_suppressed_by_tree h i then let
       s = (h_alerts h i)\<lparr>last_occurrence_ns := h_stc_ns h, count_in_window := count_in_window (h_alerts h i) + 1\<rparr>
     in if al_status s = TSA_ALERT_STATE_OFF then alert_fire h i s name pid
        else h\<lparr>h_alerts := (h_alerts h)(i := s)\<rparr>
     else h)"

section \<open>The resolution pass\<close>

definition PAT_TIMEOUT_NS :: u64 where "PAT_TIMEOUT_NS = 500000000"
definition PMT_TIMEOUT_NS :: u64 where "PMT_TIMEOUT_NS = 500000000"
definition SDT_TIMEOUT_NS :: u64 where "SDT_TIMEOUT_NS = 2000000000"
definition NIT_TIMEOUT_NS :: u64 where "NIT_TIMEOUT_NS = 10000000000"
definition PID_TIMEOUT_NS :: u64 where "PID_TIMEOUT_NS = 5000000000"
definition CC_TIMEOUT_NS :: u64 where "CC_TIMEOUT_NS = 10000000000"

lemmas alert_timeouts = PAT_TIMEOUT_NS_def PMT_TIMEOUT_NS_def SDT_TIMEOUT_NS_def NIT_TIMEOUT_NS_def
  PID_TIMEOUT_NS_def CC_TIMEOUT_NS_def

text \<open>No packet for more than 500 ms.\<close>

definition check_no_packets :: "tsa_handle \<Rightarrow> tsa_handle" where
  "check_no_packets h =
    (if h_signal_lock h \<and> h_last_packet_rx_ns h < h_last_snap_wall_ns h \<and>
        PAT_TIMEOUT_NS < h_last_snap_wall_ns h - h_last_packet_rx_ns h
     then tsa_alert_update h TSA_ALERT_SYNC True ''SYNC'' 0 else h)"

text \<open>A table last seen at \<open>seen\<close>, if ever, is overdue.\<close>

definition table_overdue :: "u64 \<Rightarrow> u64 \<Rightarrow> u64 \<Rightarrow> bool" where
  "table_overdue now_stc seen limit = (0 < seen \<and> limit < now_stc - seen)"

definition check_captions :: "u64 \<Rightarrow> u16 \<Rightarrow> tsa_handle \<Rightarrow> tsa_handle" where
  "check_captions now_stc i h = (let v = es_video (h_es_tracks h i) in
    if h_pid_seen h i \<and> tsa_is_video (es_stream_type (h_es_tracks h i)) \<and> v_has_cea708 v then
      if table_overdue now_stc (last_cc_seen_ns v) CC_TIMEOUT_NS
      then tsa_alert_update h TSA_ALERT_CC_MISSING True ''CC_MISSING'' i
      else if al_status (h_alerts h TSA_ALERT_CC_MISSING) = TSA_ALERT_STATE_FIRING
      then tsa_alert_update h TSA_ALERT_CC_MISSING False ''CC_MISSING'' i else h
    else h)"

definition check_tables :: "tsa_handle \<Rightarrow> tsa_handle" where
  "check_tables h =
    (if h_signal_lock h \<and> 0 < h_stc_ns h then let
       now_stc = h_stc_ns h;
       h = (if table_overdue now_stc (h_last_pat_ns h) PAT_TIMEOUT_NS
            then tsa_alert_update h TSA_ALERT_PAT True ''PAT'' 0 else h);
       h = (if table_overdue now_stc (h_last_pmt_ns h) PMT_TIMEOUT_NS
            then tsa_alert_update h TSA_ALERT_PMT True ''PMT'' 0 else h);
       h = (if table_overdue now_stc (h_last_sdt_ns h) SDT_TIMEOUT_NS
            then tsa_alert_update h TSA_ALERT_SDT True ''SDT'' 0 else h);
       h = (if table_overdue now_stc (h_last_nit_ns h) NIT_TIMEOUT_NS
            then tsa_alert_update h TSA_ALERT_NIT True ''NIT'' 0 else h)
     in fold (\<lambda>i. check_captions now_stc (of_nat i)) [0..<TS_PID_MAX] h
     else h)"

text \<open>One round of the loop over the aggregator: a closed window with more than one hit is summarised.\<close>

definition summary_text :: "tsa_handle \<Rightarrow> tsa_alert_aggregator_entry \<Rightarrow> string" where
  "summary_text h e = snprintf_to 512 (''[Summary] Stream '' @ ae_stream_id e @ '' had '' @ dec_string (unat (hit_count e)) @
     '' occurrences of Alert '' @ ae_alert_name e @ '' on PID 0x'' @ hex4 (ae_pid e) @ '' in the last '' @
     dec_string (unat (h_agg_window_ms h)) @ '' ms'')"

definition flush_entry :: "u64 \<Rightarrow> u32 \<Rightarrow> tsa_handle \<Rightarrow> tsa_handle" where
  "flush_entry now_stc i h = (let e = h_agg_entries h i in
    if ae_active e \<and> ucast (h_agg_window_ms h) * 1000000 \<le> now_stc - window_start_ns e then let
      h = (if 1 < hit_count e \<and> h_webhook h \<and> mask_selected h (ae_id e)
           then h\<lparr>h_outbox := h_outbox h @ [Webhook_push (ae_stream_id e) (ae_alert_name e) (summary_text h e) ''SUMMARY'']\<rparr>
           else h)
    in h\<lparr>h_agg_entries := (h_agg_entries h)(i := e\<lparr>ae_active := False\<rparr>)\<rparr>
    else h)"

text \<open>One round of the loop over the alerts.\<close>

definition resolve_text :: "tsa_alert_id \<Rightarrow> string" where
  "resolve_text i = snprintf_to 256 (''OK: '' @ tsa_alert_get_name i @ '' Error resolved and stabilized'')"

definition resolve_alert :: "u64 \<Rightarrow> tsa_alert_id \<Rightarrow> tsa_handle \<Rightarrow> tsa_handle" where
  "resolve_alert now_stc i h = (let s = h_alerts h i in
    if al_status s = TSA_ALERT_STATE_FIRING \<and> PID_TIMEOUT_NS < now_stc - last_occurrence_ns s then let
      h = (if needs_resolve_msg s \<and> h_webhook h \<and> mask_selected h i
           then h\<lparr>h_outbox := h_outbox h @
             [Webhook_push (input_label (h_config h)) (tsa_alert_get_name i) (resolve_text i) ''OK'']\<rparr> else h);
      h = (if h_lua h then h\<lparr>h_outbox := h_outbox h @ [Lua_push (tsa_alert_get_name i) 0 (resolve_text i)]\<rparr> else h)
    in h\<lparr>h_alerts := (h_alerts h)(i := s\<lparr>al_status := TSA_ALERT_STATE_OFF, needs_resolve_msg := False, count_in_window := 0\<rparr>)\<rparr>
    else h)"

definition tsa_alert_check_resolutions :: "tsa_handle \<Rightarrow> tsa_handle" where
  "tsa_alert_check_resolutions h = (let
      now_stc = h_stc_ns h;
      h = check_tables (check_no_packets h);
      h = fold (\<lambda>i. flush_entry now_stc (of_nat i)) [0..<4096] h
    in fold (resolve_alert now_stc) alert_ids h)"

section \<open>What the operations keep\<close>

text \<open>Nothing but the alerts, the aggregator and the outgoing calls changes.\<close>

definition alert_undo :: "tsa_handle \<Rightarrow> tsa_handle \<Rightarrow> tsa_handle" where
  "alert_undo h h' = h'\<lparr>h_alerts := h_alerts h, h_agg_entries := h_agg_entries h, h_outbox := h_outbox h\<rparr>"

definition alert_frame :: "tsa_handle \<Rightarrow> tsa_handle \<Rightarrow> bool" where
  "alert_frame h h' \<longleftrightarrow> alert_undo h h' = h \<and> prefix (h_outbox h) (h_outbox h')"

lemma alert_undo_self [simp]: "alert_undo h h = h"
  by (simp add: alert_undo_def)

lemma alert_frame_refl [simp, intro]: "alert_frame h h"
  by (simp add: alert_frame_def)

lemma alert_undo_undo: "alert_undo h (alert_undo h1 h2) = alert_undo h h2"
  by (simp add: alert_undo_def)

lemma alert_frame_trans: "alert_frame h h1 \<Longrightarrow> alert_frame h1 h2 \<Longrightarrow> alert_frame h h2"
  unfolding alert_frame_def by (metis alert_undo_undo prefix_order.trans)

lemma alert_frame_intro:
  "alert_frame h (h\<lparr>h_alerts := a\<rparr>)" "alert_frame h (h\<lparr>h_agg_entries := g\<rparr>)" "alert_frame h (h\<lparr>h_outbox := h_outbox h @ x\<rparr>)"
  by (simp_all add: alert_frame_def alert_undo_def)

lemma should_suppress_frame: "alert_frame h (snd (tsa_alert_should_suppress h i p n m))"
  by (simp add: tsa_alert_should_suppress_def Let_def alert_frame_intro)

lemma alert_notify_frame: "alert_frame h (alert_notify h i n p m)"
  unfolding alert_notify_def Let_def
  by (auto intro: alert_frame_intro alert_frame_trans [OF alert_frame_intro(3)])

lemma alert_fire_frame: "alert_frame h (alert_fire h i s n p)"
proof -
  define k where "k = h\<lparr>h_alerts := (h_alerts h)(i := s\<lparr>al_status := TSA_ALERT_STATE_FIRING, needs_resolve_msg := True\<rparr>)\<rparr>"
  define m where "m = fire_text n p"
  let ?r = "tsa_alert_should_suppress k i p n m"
  have "alert_frame h k" unfolding k_def by (rule alert_frame_intro)
  then have "alert_frame h (snd ?r)" by (rule alert_frame_trans [OF _ should_suppress_frame])
  then have "alert_frame h (if fst ?r then snd ?r else alert_notify (snd ?r) i n p m)"
    using alert_frame_trans alert_notify_frame by auto
  then show ?thesis by (simp only: alert_fire_def Let_def k_def m_def)
qed

lemma alert_update_frame [intro]: "alert_frame h (tsa_alert_update h i e n p)"
  unfolding tsa_alert_update_def Let_def by (simp add: alert_fire_frame alert_frame_intro)

lemma alert_undo_fields [simp]:
  "h_config (alert_undo h h') = h_config h'" "h_agg_window_ms (alert_undo h h') = h_agg_window_ms h'"
  "h_sync_state (alert_undo h h') = h_sync_state h'" "h_sync_confirm_count (alert_undo h h') = h_sync_confirm_count h'"
  "h_sync_buffer (alert_undo h h') = h_sync_buffer h'"
  "h_consecutive_sync_errors (alert_undo h h') = h_consecutive_sync_errors h'"
  "h_consecutive_good_syncs (alert_undo h h') = h_consecutive_good_syncs h'"
  "h_signal_lock (alert_undo h h') = h_signal_lock h'" "h_engine_started (alert_undo h h') = h_engine_started h'"
  "h_start_ns (alert_undo h h') = h_start_ns h'" "h_last_snap_ns (alert_undo h h') = h_last_snap_ns h'"
  "h_last_snap_wall_ns (alert_undo h h') = h_last_snap_wall_ns h'" "h_stc_ns (alert_undo h h') = h_stc_ns h'"
  "h_stc_locked (alert_undo h h') = h_stc_locked h'" "h_stc_slope_q64 (alert_undo h h') = h_stc_slope_q64 h'"
  "h_stc_intercept_q64 (alert_undo h h') = h_stc_intercept_q64 h'"
  "h_pkts_since_pcr (alert_undo h h') = h_pkts_since_pcr h'" "h_live (alert_undo h h') = h_live h'"
  "h_pid_seen (alert_undo h h') = h_pid_seen h'" "h_pid_types (alert_undo h h') = h_pid_types h'"
  "h_pid_is_pmt (alert_undo h h') = h_pid_is_pmt h'" "h_pid_is_scte35 (alert_undo h h') = h_pid_is_scte35 h'"
  "h_pid_filtering_enabled (alert_undo h h') = h_pid_filtering_enabled h'"
  "h_pid_allowed (alert_undo h h') = h_pid_allowed h'" "h_es_tracks (alert_undo h h') = h_es_tracks h'"
  "h_pid_labels (alert_undo h h') = h_pid_labels h'" "h_last_packet_rx_ns (alert_undo h h') = h_last_packet_rx_ns h'"
  "h_phys_stats (alert_undo h h') = h_phys_stats h'" "h_programs (alert_undo h h') = h_programs h'"
  "h_seen_pat (alert_undo h h') = h_seen_pat h'" "h_seen_pmt (alert_undo h h') = h_seen_pmt h'"
  "h_last_pat_ns (alert_undo h h') = h_last_pat_ns h'" "h_last_pmt_ns (alert_undo h h') = h_last_pmt_ns h'"
  "h_last_sdt_ns (alert_undo h h') = h_last_sdt_ns h'" "h_last_nit_ns (alert_undo h h') = h_last_nit_ns h'"
  "h_pid_active_list (alert_undo h h') = h_pid_active_list h'"
  "h_pid_to_active_idx (alert_undo h h') = h_pid_to_active_idx h'" "h_op_mode (alert_undo h h') = h_op_mode h'"
  "h_pool_offset (alert_undo h h') = h_pool_offset h'" "h_pool_size (alert_undo h h') = h_pool_size h'"
  "h_ev_slots (alert_undo h h') = h_ev_slots h'" "h_ev_head (alert_undo h h') = h_ev_head h'"
  "h_ev_tail (alert_undo h h') = h_ev_tail h'" "h_webhook (alert_undo h h') = h_webhook h'"
  "h_lua (alert_undo h h') = h_lua h'" "h_current_ns (alert_undo h h') = h_current_ns h'"
  "h_processed_bytes (alert_undo h h') = h_processed_bytes h'"
  "h_current_packet_offset (alert_undo h h') = h_current_packet_offset h'"
  "h_current_res (alert_undo h h') = h_current_res h'" "h_last_pcr_ticks (alert_undo h h') = h_last_pcr_ticks h'"
  "h_master_pcr_pid (alert_undo h h') = h_master_pcr_pid h'"
  "h_stc_wall_drift_ppm (alert_undo h h') = h_stc_wall_drift_ppm h'" "h_pcr_tracks (alert_undo h h') = h_pcr_tracks h'"
  "h_pkt_pool (alert_undo h h') = h_pkt_pool h'" "h_pid_histograms (alert_undo h h') = h_pid_histograms h'"
  "h_plugins (alert_undo h h') = h_plugins h'" "h_prev_snap_base (alert_undo h h') = h_prev_snap_base h'"
  "h_buffers (alert_undo h h') = h_buffers h'" "h_active_idx (alert_undo h h') = h_active_idx h'"
  "h_last_health_score (alert_undo h h') = h_last_health_score h'" "h_srt_live (alert_undo h h') = h_srt_live h'"
  "h_last_trigger_reason (alert_undo h h') = h_last_trigger_reason h'"
  "h_last_forensic_alarm_count (alert_undo h h') = h_last_forensic_alarm_count h'"
  by (simp_all add: alert_undo_def)

lemma alert_frame_fields:
  assumes "alert_frame h h'"
  shows
  "h_config h' = h_config h" "h_agg_window_ms h' = h_agg_window_ms h" "h_sync_state h' = h_sync_state h"
  "h_sync_confirm_count h' = h_sync_confirm_count h" "h_sync_buffer h' = h_sync_buffer h"
  "h_consecutive_sync_errors h' = h_consecutive_sync_errors h"
  "h_consecutive_good_syncs h' = h_consecutive_good_syncs h" "h_signal_lock h' = h_signal_lock h"
  "h_engine_started h' = h_engine_started h" "h_start_ns h' = h_start_ns h" "h_last_snap_ns h' = h_last_snap_ns h"
  "h_last_snap_wall_ns h' = h_last_snap_wall_ns h" "h_stc_ns h' = h_stc_ns h" "h_stc_locked h' = h_stc_locked h"
  "h_stc_slope_q64 h' = h_stc_slope_q64 h" "h_stc_intercept_q64 h' = h_stc_intercept_q64 h"
  "h_pkts_since_pcr h' = h_pkts_since_pcr h" "h_live h' = h_live h" "h_pid_seen h' = h_pid_seen h"
  "h_pid_types h' = h_pid_types h" "h_pid_is_pmt h' = h_pid_is_pmt h" "h_pid_is_scte35 h' = h_pid_is_scte35 h"
  "h_pid_filtering_enabled h' = h_pid_filtering_enabled h" "h_pid_allowed h' = h_pid_allowed h"
  "h_es_tracks h' = h_es_tracks h" "h_pid_labels h' = h_pid_labels h" "h_last_packet_rx_ns h' = h_last_packet_rx_ns h"
  "h_phys_stats h' = h_phys_stats h" "h_programs h' = h_programs h" "h_seen_pat h' = h_seen_pat h"
  "h_seen_pmt h' = h_seen_pmt h" "h_last_pat_ns h' = h_last_pat_ns h" "h_last_pmt_ns h' = h_last_pmt_ns h"
  "h_last_sdt_ns h' = h_last_sdt_ns h" "h_last_nit_ns h' = h_last_nit_ns h"
  "h_pid_active_list h' = h_pid_active_list h" "h_pid_to_active_idx h' = h_pid_to_active_idx h"
  "h_op_mode h' = h_op_mode h" "h_pool_offset h' = h_pool_offset h" "h_pool_size h' = h_pool_size h"
  "h_ev_slots h' = h_ev_slots h" "h_ev_head h' = h_ev_head h" "h_ev_tail h' = h_ev_tail h" "h_webhook h' = h_webhook h"
  "h_lua h' = h_lua h" "h_current_ns h' = h_current_ns h" "h_processed_bytes h' = h_processed_bytes h"
  "h_current_packet_offset h' = h_current_packet_offset h" "h_current_res h' = h_current_res h"
  "h_last_pcr_ticks h' = h_last_pcr_ticks h" "h_master_pcr_pid h' = h_master_pcr_pid h"
  "h_stc_wall_drift_ppm h' = h_stc_wall_drift_ppm h" "h_pcr_tracks h' = h_pcr_tracks h" "h_pkt_pool h' = h_pkt_pool h"
  "h_pid_histograms h' = h_pid_histograms h" "h_plugins h' = h_plugins h" "h_prev_snap_base h' = h_prev_snap_base h"
  "h_buffers h' = h_buffers h" "h_active_idx h' = h_active_idx h" "h_last_health_score h' = h_last_health_score h"
  "h_srt_live h' = h_srt_live h" "h_last_trigger_reason h' = h_last_trigger_reason h"
  "h_last_forensic_alarm_count h' = h_last_forensic_alarm_count h"
proof -
  have u: "h = alert_undo h h'" using assms by (simp add: alert_frame_def)
  show
  "h_config h' = h_config h" "h_agg_window_ms h' = h_agg_window_ms h" "h_sync_state h' = h_sync_state h"
  "h_sync_confirm_count h' = h_sync_confirm_count h" "h_sync_buffer h' = h_sync_buffer h"
  "h_consecutive_sync_errors h' = h_consecutive_sync_errors h"
  "h_consecutive_good_syncs h' = h_consecutive_good_syncs h" "h_signal_lock h' = h_signal_lock h"
  "h_engine_started h' = h_engine_started h" "h_start_ns h' = h_start_ns h" "h_last_snap_ns h' = h_last_snap_ns h"
  "h_last_snap_wall_ns h' = h_last_snap_wall_ns h" "h_stc_ns h' = h_stc_ns h" "h_stc_locked h' = h_stc_locked h"
  "h_stc_slope_q64 h' = h_stc_slope_q64 h" "h_stc_intercept_q64 h' = h_stc_intercept_q64 h"
  "h_pkts_since_pcr h' = h_pkts_since_pcr h" "h_live h' = h_live h" "h_pid_seen h' = h_pid_seen h"
  "h_pid_types h' = h_pid_types h" "h_pid_is_pmt h' = h_pid_is_pmt h" "h_pid_is_scte35 h' = h_pid_is_scte35 h"
  "h_pid_filtering_enabled h' = h_pid_filtering_enabled h" "h_pid_allowed h' = h_pid_allowed h"
  "h_es_tracks h' = h_es_tracks h" "h_pid_labels h' = h_pid_labels h" "h_last_packet_rx_ns h' = h_last_packet_rx_ns h"
  "h_phys_stats h' = h_phys_stats h" "h_programs h' = h_programs h" "h_seen_pat h' = h_seen_pat h"
  "h_seen_pmt h' = h_seen_pmt h" "h_last_pat_ns h' = h_last_pat_ns h" "h_last_pmt_ns h' = h_last_pmt_ns h"
  "h_last_sdt_ns h' = h_last_sdt_ns h" "h_last_nit_ns h' = h_last_nit_ns h"
  "h_pid_active_list h' = h_pid_active_list h" "h_pid_to_active_idx h' = h_pid_to_active_idx h"
  "h_op_mode h' = h_op_mode h" "h_pool_offset h' = h_pool_offset h" "h_pool_size h' = h_pool_size h"
  "h_ev_slots h' = h_ev_slots h" "h_ev_head h' = h_ev_head h" "h_ev_tail h' = h_ev_tail h" "h_webhook h' = h_webhook h"
  "h_lua h' = h_lua h" "h_current_ns h' = h_current_ns h" "h_processed_bytes h' = h_processed_bytes h"
  "h_current_packet_offset h' = h_current_packet_offset h" "h_current_res h' = h_current_res h"
  "h_last_pcr_ticks h' = h_last_pcr_ticks h" "h_master_pcr_pid h' = h_master_pcr_pid h"
  "h_stc_wall_drift_ppm h' = h_stc_wall_drift_ppm h" "h_pcr_tracks h' = h_pcr_tracks h" "h_pkt_pool h' = h_pkt_pool h"
  "h_pid_histograms h' = h_pid_histograms h" "h_plugins h' = h_plugins h" "h_prev_snap_base h' = h_prev_snap_base h"
  "h_buffers h' = h_buffers h" "h_active_idx h' = h_active_idx h" "h_last_health_score h' = h_last_health_score h"
  "h_srt_live h' = h_srt_live h" "h_last_trigger_reason h' = h_last_trigger_reason h"
  "h_last_forensic_alarm_count h' = h_last_forensic_alarm_count h"
    by - (subst u, simp)+
qed

lemmas alert_update_simps [simp] = alert_frame_fields [OF alert_update_frame]

lemma alert_frame_fold: "(\<And>x k. x \<in> set xs \<Longrightarrow> alert_frame k (f x k)) \<Longrightarrow> alert_frame h (fold f xs h)"
proof (induction xs arbitrary: h)
  case (Cons x xs)
  then have "alert_frame h (f x h)" "alert_frame (f x h) (fold f xs (f x h))" by simp_all
  then show ?case using alert_frame_trans by simp
qed simp

section \<open>The state machine\<close>

text \<open>The calls a newly firing alert sends.\<close>

definition fire_calls :: "tsa_handle \<Rightarrow> tsa_alert_id \<Rightarrow> string \<Rightarrow> u16 \<Rightarrow> out_call list" where
  "fire_calls h i name pid = (let
      msg = fire_text name pid
    in (if h_webhook h \<and> mask_selected h i then [Webhook_push (input_label (h_config h)) name msg ''CRITICAL''] else []) @
       (if h_lua h then [Lua_push name pid msg] else []))"

text \<open>An open aggregation window of this alert and PID absorbs the notification.\<close>

definition window_open :: "tsa_handle \<Rightarrow> tsa_alert_id \<Rightarrow> u16 \<Rightarrow> bool" where
  "window_open h i pid = (let e = h_agg_entries h (alert_aggregator_hash i pid) in
     h_agg_window_ms h \<noteq> 0 \<and> ae_active e \<and> ae_id e = i \<and> ae_pid e = pid \<and>
     h_stc_ns h - window_start_ns e < ucast (h_agg_window_ms h) * 1000000)"

lemma mask_selected_cong: "h_config h' = h_config h \<Longrightarrow> mask_selected h' i = mask_selected h i"
  by (simp add: mask_selected_def)

lemma should_suppress_fst: "fst (tsa_alert_should_suppress h i p n m) = window_open h i p"
  by (simp add: tsa_alert_should_suppress_def window_open_def Let_def)

lemma should_suppress_keeps:
  "h_outbox (snd (tsa_alert_should_suppress h i p n m)) = h_outbox h"
  "h_alerts (snd (tsa_alert_should_suppress h i p n m)) = h_alerts h"
  by (simp_all add: tsa_alert_should_suppress_def Let_def)

lemma alert_notify_out:
  "h_outbox (alert_notify h i n p (fire_text n p))
    = h_outbox h @ fire_calls h i n p"
  "h_alerts (alert_notify h i n p m) = h_alerts h"
  by (simp_all add: alert_notify_def fire_calls_def Let_def)

lemma fire_calls_cong: "alert_frame h h' \<Longrightarrow> fire_calls h' i n p = fire_calls h i n p"
  by (simp only: fire_calls_def mask_selected_def alert_frame_fields)

lemma alert_fire_out:
  "h_alerts (alert_fire h i s n p) = (h_alerts h)(i := s\<lparr>al_status := TSA_ALERT_STATE_FIRING, needs_resolve_msg := True\<rparr>)"
  "h_outbox (alert_fire h i s n p) = h_outbox h @ (if window_open h i p then [] else fire_calls h i n p)"
proof -
  define k where "k = h\<lparr>h_alerts := (h_alerts h)(i := s\<lparr>al_status := TSA_ALERT_STATE_FIRING, needs_resolve_msg := True\<rparr>)\<rparr>"
  let ?r = "tsa_alert_should_suppress k i p n (fire_text n p)"
  have f: "alert_fire h i s n p = (if fst ?r then snd ?r else alert_notify (snd ?r) i n p (fire_text n p))"
    by (simp only: alert_fire_def Let_def k_def)
  have "alert_frame h k" unfolding k_def by (rule alert_frame_intro)
  then have c: "fire_calls (snd ?r) i n p = fire_calls h i n p"
    by (metis fire_calls_cong should_suppress_frame)
  have w: "window_open k i p = window_open h i p" by (simp add: window_open_def k_def)
  show "h_alerts (alert_fire h i s n p) = (h_alerts h)(i := s\<lparr>al_status := TSA_ALERT_STATE_FIRING, needs_resolve_msg := True\<rparr>)"
    by (simp add: f should_suppress_keeps alert_notify_out) (simp add: k_def)
  show "h_outbox (alert_fire h i s n p) = h_outbox h @ (if window_open h i p then [] else fire_calls h i n p)"
    by (simp add: f should_suppress_fst w should_suppress_keeps alert_notify_out c) (simp add: k_def)
qed


definition alert_example :: tsa_handle where
  "alert_example = tsa_create None False True"

lemma alert_example_fields [simp]:
  "h_alerts alert_example = (\<lambda>_. zero_alert)" "h_agg_entries alert_example = (\<lambda>_. zero_entry)"
  "h_signal_lock alert_example = False" "h_stc_ns alert_example = 0" "h_outbox alert_example = []"
  "h_webhook alert_example = False" "h_lua alert_example = True" "h_agg_window_ms alert_example = 10000"
  by (simp_all add: alert_example_def zero_config_def)


definition sync_dependents :: "tsa_alert_id list" where
  "sync_dependents = [TSA_ALERT_CC, TSA_ALERT_PCR, TSA_ALERT_TSTD, TSA_ALERT_PAT, TSA_ALERT_PMT, TSA_ALERT_SDT,
    TSA_ALERT_NIT, TSA_ALERT_TRANSPORT, TSA_ALERT_CRC, TSA_ALERT_PTS]"

lemma alert_update_alerts:
  "h_alerts (tsa_alert_update h i e n p) = (if e \<and> \<not> tsa_alert_is_suppressed_by_tree h i then
     (h_alerts h)(i := \<lparr>al_status = TSA_ALERT_STATE_FIRING, last_occurrence_ns = h_stc_ns h,
        count_in_window = count_in_window (h_alerts h i) + 1,
        needs_resolve_msg = (al_status (h_alerts h i) = TSA_ALERT_STATE_OFF \<or> needs_resolve_msg (h_alerts h i))\<rparr>)
     else h_alerts h)"
proof -
  have "al_status (h_alerts h i) = TSA_ALERT_STATE_FIRING" if "al_status (h_alerts h i) \<noteq> TSA_ALERT_STATE_OFF"
    using that by (cases "al_status (h_alerts h i)") auto
  then show ?thesis by (cases "h_alerts h i") (auto simp: Let_def tsa_alert_update_def alert_fire_out)
qed

lemma sync_suppresses:
  "al_status (h_alerts h TSA_ALERT_SYNC) = TSA_ALERT_STATE_FIRING \<Longrightarrow> i \<in> set sync_dependents \<Longrightarrow>
    tsa_alert_is_suppressed_by_tree h i"
  by (simp add: tsa_alert_is_suppressed_by_tree_def sync_dependents_def)

lemma suppressed_update: "tsa_alert_is_suppressed_by_tree h i \<Longrightarrow> tsa_alert_update h i e n p = h"
  by (simp add: tsa_alert_update_def)

lemma sync_stays:
  "al_status (h_alerts h TSA_ALERT_SYNC) = TSA_ALERT_STATE_FIRING \<Longrightarrow>
    al_status (h_alerts (tsa_alert_update h j e n p) TSA_ALERT_SYNC) = TSA_ALERT_STATE_FIRING"
  by (simp add: alert_update_alerts)

lemma sync_keeps_dependent:
  assumes "al_status (h_alerts h TSA_ALERT_SYNC) = TSA_ALERT_STATE_FIRING" "i \<in> set sync_dependents"
  shows "h_alerts (tsa_alert_update h j e n p) i = h_alerts h i"
  using sync_suppresses [OF assms] by (cases "j = i") (simp_all add: alert_update_alerts)

text \<open>
  C27. Sync loss mutes its consequences: while the sync alert is firing, no
  sequence of updates of any alerts, for any PIDs, changes one of the ten
  alerts that depend on it, and afterwards a further update of such an alert
  still changes nothing in the handle, so it sends nothing.
\<close>

theorem sync_loss_mutes:
  assumes "al_status (h_alerts h TSA_ALERT_SYNC) = TSA_ALERT_STATE_FIRING" and "i \<in> set sync_dependents"
  shows "let h' = fold (\<lambda>(j, e, n, p) h. tsa_alert_update h j e n p) us h in
    h_alerts h' i = h_alerts h i \<and> tsa_alert_update h' i e n p = h'"
proof -
  have "al_status (h_alerts (fold (\<lambda>(j, e, n, p) h. tsa_alert_update h j e n p) us h) TSA_ALERT_SYNC) = TSA_ALERT_STATE_FIRING
    \<and> h_alerts (fold (\<lambda>(j, e, n, p) h. tsa_alert_update h j e n p) us h) i = h_alerts h i"
    using assms(1)
    by (induction us arbitrary: h) (auto simp: sync_stays sync_keeps_dependent [OF _ assms(2)] split: prod.splits)
  then show ?thesis using sync_suppresses [OF _ assms(2)] by (simp add: Let_def suppressed_update)
qed

theorem sync_loss_mutes_witness:
  "let h = tsa_alert_update alert_example TSA_ALERT_SYNC True ''SYNC'' 0;
       h' = fold (\<lambda>(j, e, n, p) h. tsa_alert_update h j e n p) [(TSA_ALERT_PID, True, ''PID'', 7), (TSA_ALERT_CC, True, ''CC'', 7)] h
   in h_alerts h' TSA_ALERT_CC = zero_alert \<and> tsa_alert_update h' TSA_ALERT_CC True ''CC'' 7 = h'"
proof -
  have f: "al_status (h_alerts (tsa_alert_update alert_example TSA_ALERT_SYNC True ''SYNC'' 0) TSA_ALERT_SYNC) = TSA_ALERT_STATE_FIRING"
    "h_alerts (tsa_alert_update alert_example TSA_ALERT_SYNC True ''SYNC'' 0) TSA_ALERT_CC = zero_alert"
    by (simp_all add: alert_update_alerts tsa_alert_is_suppressed_by_tree_def)
  have d: "TSA_ALERT_CC \<in> set sync_dependents" by (simp add: sync_dependents_def)
  show ?thesis
    using sync_loss_mutes [OF f(1) d, of "[(TSA_ALERT_PID, True, ''PID'', 7), (TSA_ALERT_CC, True, ''CC'', 7)]" True "''CC''" 7]
    unfolding f(2) Let_def .
qed

section \<open>Resolution\<close>

definition alert_expired :: "u64 \<Rightarrow> tsa_alert_state \<Rightarrow> bool" where
  "alert_expired now s \<longleftrightarrow> al_status s = TSA_ALERT_STATE_FIRING \<and> PID_TIMEOUT_NS < now - last_occurrence_ns s"

definition alert_resolved :: "tsa_alert_state \<Rightarrow> tsa_alert_state" where
  "alert_resolved s = s\<lparr>al_status := TSA_ALERT_STATE_OFF, needs_resolve_msg := False, count_in_window := 0\<rparr>"

definition resolve_calls :: "tsa_handle \<Rightarrow> u64 \<Rightarrow> tsa_alert_id \<Rightarrow> out_call list" where
  "resolve_calls h now i = (if alert_expired now (h_alerts h i) then
      (if needs_resolve_msg (h_alerts h i) \<and> h_webhook h \<and> mask_selected h i
       then [Webhook_push (input_label (h_config h)) (tsa_alert_get_name i) (resolve_text i) ''OK''] else []) @
      (if h_lua h then [Lua_push (tsa_alert_get_name i) 0 (resolve_text i)] else [])
    else [])"

lemma resolve_alert_eq:
  "resolve_alert now i h = h\<lparr>h_outbox := h_outbox h @ resolve_calls h now i,
     h_alerts := (\<lambda>j. if j = i \<and> alert_expired now (h_alerts h i) then alert_resolved (h_alerts h j) else h_alerts h j)\<rparr>"
  by (auto simp: resolve_alert_def resolve_calls_def alert_expired_def alert_resolved_def Let_def mask_selected_def fun_eq_iff)

lemma fold_resolve:
  "distinct is \<Longrightarrow> fold (resolve_alert now) is h = h\<lparr>h_outbox := h_outbox h @ concat (map (resolve_calls h now) is),
     h_alerts := (\<lambda>j. if j \<in> set is \<and> alert_expired now (h_alerts h j) then alert_resolved (h_alerts h j) else h_alerts h j)\<rparr>"
proof (induction "is" arbitrary: h)
  case (Cons i "is")
  let ?h = "resolve_alert now i h"
  have "resolve_calls ?h now j = resolve_calls h now j" if "j \<in> set is" for j
    using that Cons.prems by (auto simp: resolve_calls_def resolve_alert_eq mask_selected_def)
  then have m: "map (resolve_calls ?h now) is = map (resolve_calls h now) is" by simp
  have f: "(\<lambda>j. if j \<in> set is \<and> alert_expired now (h_alerts ?h j) then alert_resolved (h_alerts ?h j) else h_alerts ?h j) =
    (\<lambda>j. if j \<in> set (i # is) \<and> alert_expired now (h_alerts h j) then alert_resolved (h_alerts h j) else h_alerts h j)"
    using Cons.prems by (auto simp: resolve_alert_eq fun_eq_iff)
  have "fold (resolve_alert now) (i # is) h = ?h\<lparr>h_outbox := h_outbox ?h @ concat (map (resolve_calls h now) is),
     h_alerts := (\<lambda>j. if j \<in> set (i # is) \<and> alert_expired now (h_alerts h j) then alert_resolved (h_alerts h j) else h_alerts h j)\<rparr>"
    using Cons.IH [of ?h] Cons.prems by (simp only: m f fold_simps distinct.simps)
  then show ?case by (simp add: resolve_alert_eq [of now i h])
qed simp

lemma flush_keeps:
  "h_alerts (flush_entry now i h) = h_alerts h" "h_stc_ns (flush_entry now i h) = h_stc_ns h"
  "h_webhook (flush_entry now i h) = h_webhook h" "h_lua (flush_entry now i h) = h_lua h"
  "h_config (flush_entry now i h) = h_config h"
  by (simp_all add: flush_entry_def Let_def)

lemma fold_flush_keeps:
  "h_alerts (fold (\<lambda>i. flush_entry now (of_nat i)) ns h) = h_alerts h"
  "h_webhook (fold (\<lambda>i. flush_entry now (of_nat i)) ns h) = h_webhook h"
  "h_lua (fold (\<lambda>i. flush_entry now (of_nat i)) ns h) = h_lua h"
  "h_config (fold (\<lambda>i. flush_entry now (of_nat i)) ns h) = h_config h"
  by (induction ns arbitrary: h) (simp_all add: flush_keeps)

lemma alert_ids_all: "set alert_ids = UNIV" "distinct alert_ids"
proof -
  have "i \<in> set alert_ids" for i by (cases i) (simp_all add: alert_ids_def)
  then show "set alert_ids = UNIV" by auto
  show "distinct alert_ids" by (simp add: alert_ids_def)
qed

text \<open>
  C28. A resolution pass leaves no stale alert: after it, every alert still
  firing occurred at most 5 seconds ago. An alert that was firing when the
  timeout checks were done and is older than that is switched off with its
  counter cleared, and with Lua attached exactly one resolution message per
  such alert is sent, in the order of the alert identifiers, as the last calls
  of the pass.
\<close>

theorem resolution_pass:
  fixes h
  defines "h1 \<equiv> check_tables (check_no_packets h)" and "h' \<equiv> tsa_alert_check_resolutions h"
  shows "(\<forall>i. al_status (h_alerts h' i) = TSA_ALERT_STATE_FIRING \<longrightarrow>
      h_stc_ns h - last_occurrence_ns (h_alerts h' i) \<le> PID_TIMEOUT_NS) \<and>
    (\<forall>i. h_alerts h' i = (if alert_expired (h_stc_ns h) (h_alerts h1 i) then alert_resolved (h_alerts h1 i) else h_alerts h1 i)) \<and>
    (\<exists>x. h_outbox h' = x @ concat (map (resolve_calls h1 (h_stc_ns h)) alert_ids))"
proof -
  define h2 where "h2 = fold (\<lambda>i. flush_entry (h_stc_ns h) (of_nat i)) [0..<4096] h1"
  have h': "h' = fold (resolve_alert (h_stc_ns h)) alert_ids h2"
    by (simp only: h'_def h2_def h1_def tsa_alert_check_resolutions_def Let_def)
  have k: "h_alerts h2 = h_alerts h1" "h_webhook h2 = h_webhook h1" "h_lua h2 = h_lua h1" "h_config h2 = h_config h1"
    unfolding h2_def by (rule fold_flush_keeps)+
  have c: "resolve_calls h2 (h_stc_ns h) = resolve_calls h1 (h_stc_ns h)"
    by (simp add: resolve_calls_def k mask_selected_def fun_eq_iff)
  note f = fold_resolve [OF alert_ids_all(2), of "h_stc_ns h" h2, folded h']
  have a: "h_alerts h' i = (if alert_expired (h_stc_ns h) (h_alerts h1 i) then alert_resolved (h_alerts h1 i) else h_alerts h1 i)" for i
    by (simp add: f alert_ids_all k)
  moreover have "h_outbox h' = h_outbox h2 @ concat (map (resolve_calls h1 (h_stc_ns h)) alert_ids)"
    by (simp add: f c)
  moreover have "h_stc_ns h - last_occurrence_ns (h_alerts h' i) \<le> PID_TIMEOUT_NS"
    if "al_status (h_alerts h' i) = TSA_ALERT_STATE_FIRING" for i
    using that a [of i] by (auto simp: alert_expired_def alert_resolved_def not_less split: if_splits)
  ultimately show ?thesis by blast
qed

theorem resolution_pass_witness:
  "let h = (tsa_alert_update alert_example TSA_ALERT_PAT True ''PAT'' 5)\<lparr>h_stc_ns := 5000000001\<rparr> in
    al_status (h_alerts h TSA_ALERT_PAT) = TSA_ALERT_STATE_FIRING \<and>
    h_alerts (tsa_alert_check_resolutions h) TSA_ALERT_PAT = alert_resolved (h_alerts h TSA_ALERT_PAT)"
proof -
  define h where "h = (tsa_alert_update alert_example TSA_ALERT_PAT True ''PAT'' 5)\<lparr>h_stc_ns := 5000000001\<rparr>"
  have "h_signal_lock h = False" unfolding h_def by simp
  then have t: "check_tables (check_no_packets h) = h" by (simp add: check_tables_def check_no_packets_def)
  have e: "alert_expired (h_stc_ns h) (h_alerts h TSA_ALERT_PAT)"
    "al_status (h_alerts h TSA_ALERT_PAT) = TSA_ALERT_STATE_FIRING" unfolding h_def
    by (simp_all add: alert_update_alerts tsa_alert_is_suppressed_by_tree_def zero_alert_def alert_expired_def PID_TIMEOUT_NS_def)
  have "h_alerts (tsa_alert_check_resolutions h) TSA_ALERT_PAT = alert_resolved (h_alerts h TSA_ALERT_PAT)"
    using resolution_pass [of h] e(1) by (simp add: t)
  then show ?thesis using e(2) unfolding h_def Let_def by blast
qed

end
