(* ===== verification/Tsa_Event.thy ===== *)
theory Tsa_Event
  imports Tsa_Alert
begin

text \<open>
  The event queue: \<open>tsa_push_event\<close> of \<open>tsa.c\<close> with the counters and alerts it
  raises, and the loop of \<open>tsa_dashboard.c\<close> that drains the queue. The printed
  lines of the dashboard are the triples of time stamp, label and event.
\<close>

section \<open>Operations\<close>

text \<open>The counter and alert of an event, once it is queued.\<close>

definition event_effect :: "tsa_event_type \<Rightarrow> u16 \<Rightarrow> tsa_handle \<Rightarrow> tsa_handle" where
  "event_effect type pid h = (case type of
      TSA_EVENT_SYNC_LOSS \<Rightarrow>
        tsa_alert_update (set_live (\<lambda>s. s\<lparr>sync_loss_count := sync_loss_count s + 1\<rparr>) h) TSA_ALERT_SYNC True ''SYNC'' pid
    | TSA_EVENT_PAT_TIMEOUT \<Rightarrow>
        tsa_alert_update (set_live (\<lambda>s. s\<lparr>pat_error_count := pat_error_count s + 1\<rparr>) h) TSA_ALERT_PAT True ''PAT'' pid
    | TSA_EVENT_PMT_TIMEOUT \<Rightarrow>
        tsa_alert_update (set_live (\<lambda>s. s\<lparr>pmt_error_count := pmt_error_count s + 1\<rparr>) h) TSA_ALERT_PMT True ''PMT'' pid
    | TSA_EVENT_PID_ERROR \<Rightarrow>
        tsa_alert_update (set_live (\<lambda>s. s\<lparr>pid_error_count := pid_error_count s + 1\<rparr>) h) TSA_ALERT_PID True ''PID'' pid
    | TSA_EVENT_CC_ERROR \<Rightarrow> tsa_alert_update h TSA_ALERT_CC True ''CC'' pid
    | TSA_EVENT_CRC_ERROR \<Rightarrow> tsa_alert_update h TSA_ALERT_CRC True ''CRC'' pid
    | TSA_EVENT_TRANSPORT_ERROR \<Rightarrow>
        tsa_alert_update (set_live (\<lambda>s. s\<lparr>tei_error_count := tei_error_count s + 1\<rparr>) h) TSA_ALERT_TRANSPORT True ''TRANSPORT'' pid
    | TSA_EVENT_PTS_ERROR \<Rightarrow> tsa_alert_update h TSA_ALERT_PTS True ''PTS'' pid
    | TSA_EVENT_PCR_REPETITION \<Rightarrow> tsa_alert_update h TSA_ALERT_PCR True ''PCR'' pid
    | TSA_EVENT_PCR_JITTER \<Rightarrow> tsa_alert_update h TSA_ALERT_PCR True ''PCR'' pid
    | TSA_EVENT_TSTD_UNDERFLOW \<Rightarrow>
        tsa_alert_update (set_live (\<lambda>s. s\<lparr>tstd_underflow_alarm := tstd_underflow_alarm s + 1\<rparr>) h) TSA_ALERT_TSTD True ''TSTD'' pid
    | TSA_EVENT_TSTD_OVERFLOW \<Rightarrow>
        tsa_alert_update (set_live (\<lambda>s. s\<lparr>tstd_overflow_alarm := tstd_overflow_alarm s + 1\<rparr>) h) TSA_ALERT_TSTD True ''TSTD'' pid
    | TSA_EVENT_ENTROPY_FREEZE \<Rightarrow>
        tsa_alert_update (set_live (\<lambda>s. s\<lparr>entropy_freeze_alarm := entropy_freeze_alarm s + 1\<rparr>) h) TSA_ALERT_ENTROPY True ''ENTROPY'' pid
    | TSA_EVENT_SDT_TIMEOUT \<Rightarrow>
        tsa_alert_update (set_live (\<lambda>s. s\<lparr>sdt_error_count := sdt_error_count s + 1\<rparr>) h) TSA_ALERT_SDT True ''SDT'' pid
    | TSA_EVENT_NIT_TIMEOUT \<Rightarrow>
        tsa_alert_update (set_live (\<lambda>s. s\<lparr>nit_error_count := nit_error_count s + 1\<rparr>) h) TSA_ALERT_NIT True ''NIT'' pid
    | _ \<Rightarrow> h)"

definition enqueue_event :: "tsa_handle \<Rightarrow> tsa_event_type \<Rightarrow> u16 \<Rightarrow> u64 \<Rightarrow> tsa_handle" where
  "enqueue_event h type pid val =
    h\<lparr>h_ev_slots := (h_ev_slots h)[unat (h_ev_head h) mod MAX_EVENT_QUEUE :=
        \<lparr>ev_type = type, ev_pid = pid, ev_timestamp_ns = h_stc_ns h, ev_value = val,
         ev_absolute_byte_offset = h_current_packet_offset h\<rparr>],
      h_ev_head := h_ev_head h + 1\<rparr>"

definition tsa_push_event :: "tsa_handle \<Rightarrow> tsa_event_type \<Rightarrow> u16 \<Rightarrow> u64 \<Rightarrow> tsa_handle" where
  "tsa_push_event h type pid val =
    (if MAX_EVENT_QUEUE \<le> unat (h_ev_head h - h_ev_tail h) then h
     else let h1 = enqueue_event h type pid val in
       if type \<noteq> TSA_EVENT_SYNC_LOSS \<and> \<not> h_signal_lock h1 then h1 else event_effect type pid h1)"

fun event_label :: "tsa_event_type \<Rightarrow> string" where
  "event_label TSA_EVENT_CC_ERROR = ''CC ERROR''"
| "event_label TSA_EVENT_PCR_JITTER = ''PCR JITTER''"
| "event_label TSA_EVENT_PCR_REPETITION = ''PCR REPETITION''"
| "event_label TSA_EVENT_SCTE35 = ''SCTE-35''"
| "event_label TSA_EVENT_SYNC_LOSS = ''SYNC LOSS''"
| "event_label TSA_EVENT_CRC_ERROR = ''CRC ERROR''"
| "event_label TSA_EVENT_PAT_TIMEOUT = ''PAT TIMEOUT''"
| "event_label TSA_EVENT_PMT_TIMEOUT = ''PMT TIMEOUT''"
| "event_label TSA_EVENT_PID_ERROR = ''PID MISSING''"
| "event_label TSA_EVENT_TRANSPORT_ERROR = ''TRANS ERROR''"
| "event_label TSA_EVENT_PTS_ERROR = ''PTS ERROR''"
| "event_label TSA_EVENT_SYNC_RECOVERED = ''SYNC RECOV''"
| "event_label TSA_EVENT_TSTD_UNDERFLOW = ''TSTD UNDER''"
| "event_label TSA_EVENT_TSTD_OVERFLOW = ''TSTD OVER''"
| "event_label TSA_EVENT_ENTROPY_FREEZE = ''ENTROPY FRZ''"
| "event_label TSA_EVENT_SDT_TIMEOUT = ''SDT TIMEOUT''"
| "event_label TSA_EVENT_NIT_TIMEOUT = ''NIT TIMEOUT''"
| "event_label _ = ''UNKNOWN''"

lemma unat_next: "t < u \<Longrightarrow> unat (t + 1) = Suc (unat t)" for t u :: u64
  using unsigned_less [of u, where 'a = nat] by (simp add: word_less_nat_alt unat_word_ariths)

function drain_loop :: "tsa_event list \<Rightarrow> u64 \<Rightarrow> u64 \<Rightarrow> tsa_event list \<times> u64" where
  "drain_loop slots tail stop =
    (if tail < stop then let r = drain_loop slots (tail + 1) stop in (slots ! (unat tail mod MAX_EVENT_QUEUE) # fst r, snd r)
     else ([], tail))"
  by auto
termination
proof (relation "measure (\<lambda>(_, tail, stop). unat stop - unat tail)")
  fix slots :: "tsa_event list" and t u :: u64
  assume "t < u"
  then show "((slots, t + 1, u), slots, t, u) \<in> measure (\<lambda>(_, tail, stop). unat stop - unat tail)"
    using unat_next [of t u] by (simp add: word_less_nat_alt)
qed simp

declare drain_loop.simps [simp del]

definition drain_events :: "tsa_handle \<Rightarrow> (u64 \<times> string \<times> tsa_event) list \<times> tsa_handle" where
  "drain_events h = (let r = drain_loop (h_ev_slots h) (h_ev_tail h) (h_ev_head h) in
     (map (\<lambda>ev. (ev_timestamp_ns ev div 1000000, event_label (ev_type ev), ev)) (fst r), h\<lparr>h_ev_tail := snd r\<rparr>))"

section \<open>The queue as a list\<close>

definition ev_inv :: "tsa_handle \<Rightarrow> bool" where
  "ev_inv h \<longleftrightarrow> length (h_ev_slots h) = MAX_EVENT_QUEUE \<and> unat (h_ev_tail h) \<le> unat (h_ev_head h) \<and>
     unat (h_ev_head h) \<le> unat (h_ev_tail h) + MAX_EVENT_QUEUE"

definition ev_contents :: "tsa_handle \<Rightarrow> tsa_event list" where
  "ev_contents h = ring_slice (h_ev_slots h) MAX_EVENT_QUEUE (unat (h_ev_tail h)) (unat (h_ev_head h) - unat (h_ev_tail h))"

lemma event_effect_ring [simp]:
  "h_ev_slots (event_effect type pid h) = h_ev_slots h" "h_ev_head (event_effect type pid h) = h_ev_head h"
  "h_ev_tail (event_effect type pid h) = h_ev_tail h" "h_signal_lock (event_effect type pid h) = h_signal_lock h"
  "h_stc_ns (event_effect type pid h) = h_stc_ns h"
  by (cases type; simp add: event_effect_def)+

lemma ring_length: "ev_inv h \<Longrightarrow> unat (h_ev_head h - h_ev_tail h) = length (ev_contents h)"
  by (simp add: ev_contents_def ev_inv_def word_le_nat_alt unat_sub)

lemma ev_contents_bound: "ev_inv h \<Longrightarrow> length (ev_contents h) \<le> MAX_EVENT_QUEUE"
  by (auto simp: ev_contents_def ev_inv_def)

lemma enqueue_contents:
  assumes "ev_inv h" "length (ev_contents h) < MAX_EVENT_QUEUE" "h_ev_head h \<noteq> - 1"
  shows "ev_inv (enqueue_event h type pid val)"
    "ev_contents (enqueue_event h type pid val) = ev_contents h @
       [\<lparr>ev_type = type, ev_pid = pid, ev_timestamp_ns = h_stc_ns h, ev_value = val,
         ev_absolute_byte_offset = h_current_packet_offset h\<rparr>]"
proof -
  define n where "n = unat (h_ev_head h) - unat (h_ev_tail h)"
  have "h_ev_head h < - 1" using assms(3) by (simp add: word_order.not_eq_extremum)
  then have s: "unat (h_ev_head h + 1) = Suc (unat (h_ev_head h))" by (rule unat_next)
  have n: "n < MAX_EVENT_QUEUE" "unat (h_ev_head h) = unat (h_ev_tail h) + n"
    using assms by (simp_all add: n_def ev_contents_def ev_inv_def)
  show "ev_inv (enqueue_event h type pid val)" using assms n s by (simp add: ev_inv_def enqueue_event_def)
  show "ev_contents (enqueue_event h type pid val) = ev_contents h @
       [\<lparr>ev_type = type, ev_pid = pid, ev_timestamp_ns = h_stc_ns h, ev_value = val,
         ev_absolute_byte_offset = h_current_packet_offset h\<rparr>]"
    using ring_slice_update [OF n(1), of "h_ev_slots h" "unat (h_ev_tail h)"] assms(1) n s
    by (simp add: ev_contents_def enqueue_event_def ev_inv_def)
qed

lemma drain_loop_slice:
  "drain_loop slots t u = (ring_slice slots MAX_EVENT_QUEUE (unat t) (unat u - unat t), if t < u then u else t)"
proof (induction slots t u rule: drain_loop.induct)
  case (1 slots t u)
  show ?case
  proof (cases "t < u")
    case True
    note s = unat_next [OF True]
    have d: "unat u - unat t = Suc (unat u - unat (t + 1))" using True s by (simp add: word_less_nat_alt)
    have l: "t + 1 < u \<or> t + 1 = u" using True s by (simp add: word_less_nat_alt word_eq_iff_unsigned [where 'a = nat]) linarith
    show ?thesis using True 1 [OF True] l unfolding d ring_slice_Suc s
      by (subst drain_loop.simps) (auto simp: Let_def)
  next
    case False
    then show ?thesis by (subst drain_loop.simps) (simp add: word_less_nat_alt)
  qed
qed

lemma drain_events_contents:
  assumes "ev_inv h"
  shows "map (\<lambda>(_, _, ev). ev) (fst (drain_events h)) = ev_contents h" "ev_contents (snd (drain_events h)) = []"
    "ev_inv (snd (drain_events h))"
proof -
  have "h_ev_tail h < h_ev_head h \<or> h_ev_tail h = h_ev_head h"
    using assms by (auto simp: ev_inv_def word_less_nat_alt word_eq_iff_unsigned [where 'a = nat])
  then have t: "h_ev_tail (snd (drain_events h)) = h_ev_head h"
    by (auto simp: drain_events_def drain_loop_slice Let_def)
  show "map (\<lambda>(_, _, ev). ev) (fst (drain_events h)) = ev_contents h"
    by (simp add: drain_events_def drain_loop_slice ev_contents_def Let_def comp_def)
  show "ev_contents (snd (drain_events h)) = []" "ev_inv (snd (drain_events h))"
    using assms t by (simp_all add: ev_contents_def ev_inv_def drain_events_def Let_def)
qed

lemma push_event_cases:
  assumes "ev_inv h" "h_ev_head h \<noteq> - 1"
  obtains (full) "length (ev_contents h) = MAX_EVENT_QUEUE" "tsa_push_event h type pid val = h"
  | (queued) "length (ev_contents h) < MAX_EVENT_QUEUE" "ev_inv (tsa_push_event h type pid val)"
      "ev_contents (tsa_push_event h type pid val) = ev_contents h @
        [\<lparr>ev_type = type, ev_pid = pid, ev_timestamp_ns = h_stc_ns h, ev_value = val,
          ev_absolute_byte_offset = h_current_packet_offset h\<rparr>]"
      "h_ev_head (tsa_push_event h type pid val) = h_ev_head h + 1"
proof (cases "length (ev_contents h) < MAX_EVENT_QUEUE")
  case True
  note e = enqueue_contents [OF assms(1) True assms(2), of type pid val]
  have c: "ev_contents (event_effect type pid k) = ev_contents k" "ev_inv (event_effect type pid k) = ev_inv k" for k
    by (simp_all add: ev_contents_def ev_inv_def)
  show ?thesis using queued True e c ring_length [OF assms(1)]
    by (simp add: tsa_push_event_def Let_def) (simp add: enqueue_event_def)
next
  case False
  then show ?thesis using full ring_length [OF assms(1)] ev_contents_bound [OF assms(1)]
    by (simp add: tsa_push_event_def)
qed

lemma push_event_keeps [simp]:
  "h_stc_ns (tsa_push_event h type pid val) = h_stc_ns h"
  "h_current_packet_offset (tsa_push_event h type pid val) = h_current_packet_offset h"
proof -
  have "h_current_packet_offset (event_effect type pid k) = h_current_packet_offset k" for k
    by (cases type) (simp_all add: event_effect_def)
  then show "h_stc_ns (tsa_push_event h type pid val) = h_stc_ns h"
    "h_current_packet_offset (tsa_push_event h type pid val) = h_current_packet_offset h"
    by (simp_all add: tsa_push_event_def enqueue_event_def Let_def)
qed

text \<open>Everything but the counters, the alerts and the ring stays.\<close>

lemma event_effect_fields [simp]:
  "h_config (event_effect type pid h) = h_config h"
  "h_agg_window_ms (event_effect type pid h) = h_agg_window_ms h"
  "h_sync_state (event_effect type pid h) = h_sync_state h"
  "h_sync_confirm_count (event_effect type pid h) = h_sync_confirm_count h"
  "h_sync_buffer (event_effect type pid h) = h_sync_buffer h"
  "h_consecutive_sync_errors (event_effect type pid h) = h_consecutive_sync_errors h"
  "h_consecutive_good_syncs (event_effect type pid h) = h_consecutive_good_syncs h"
  "h_engine_started (event_effect type pid h) = h_engine_started h"
  "h_start_ns (event_effect type pid h) = h_start_ns h"
  "h_last_snap_ns (event_effect type pid h) = h_last_snap_ns h"
  "h_last_snap_wall_ns (event_effect type pid h) = h_last_snap_wall_ns h"
  "h_stc_locked (event_effect type pid h) = h_stc_locked h"
  "h_stc_slope_q64 (event_effect type pid h) = h_stc_slope_q64 h"
  "h_stc_intercept_q64 (event_effect type pid h) = h_stc_intercept_q64 h"
  "h_pkts_since_pcr (event_effect type pid h) = h_pkts_since_pcr h"
  "h_pid_seen (event_effect type pid h) = h_pid_seen h"
  "h_pid_types (event_effect type pid h) = h_pid_types h"
  "h_pid_is_pmt (event_effect type pid h) = h_pid_is_pmt h"
  "h_pid_is_scte35 (event_effect type pid h) = h_pid_is_scte35 h"
  "h_pid_filtering_enabled (event_effect type pid h) = h_pid_filtering_enabled h"
  "h_pid_allowed (event_effect type pid h) = h_pid_allowed h"
  "h_es_tracks (event_effect type pid h) = h_es_tracks h"
  "h_pid_labels (event_effect type pid h) = h_pid_labels h"
  "h_last_packet_rx_ns (event_effect type pid h) = h_last_packet_rx_ns h"
  "h_phys_stats (event_effect type pid h) = h_phys_stats h"
  "h_programs (event_effect type pid h) = h_programs h"
  "h_seen_pat (event_effect type pid h) = h_seen_pat h"
  "h_seen_pmt (event_effect type pid h) = h_seen_pmt h"
  "h_last_pat_ns (event_effect type pid h) = h_last_pat_ns h"
  "h_last_pmt_ns (event_effect type pid h) = h_last_pmt_ns h"
  "h_last_sdt_ns (event_effect type pid h) = h_last_sdt_ns h"
  "h_last_nit_ns (event_effect type pid h) = h_last_nit_ns h"
  "h_pid_active_list (event_effect type pid h) = h_pid_active_list h"
  "h_pid_to_active_idx (event_effect type pid h) = h_pid_to_active_idx h"
  "h_op_mode (event_effect type pid h) = h_op_mode h"
  "h_pool_offset (event_effect type pid h) = h_pool_offset h"
  "h_pool_size (event_effect type pid h) = h_pool_size h"
  "h_webhook (event_effect type pid h) = h_webhook h"
  "h_lua (event_effect type pid h) = h_lua h"
  "h_current_ns (event_effect type pid h) = h_current_ns h"
  "h_processed_bytes (event_effect type pid h) = h_processed_bytes h"
  "h_current_res (event_effect type pid h) = h_current_res h"
  "h_last_pcr_ticks (event_effect type pid h) = h_last_pcr_ticks h"
  "h_master_pcr_pid (event_effect type pid h) = h_master_pcr_pid h"
  "h_stc_wall_drift_ppm (event_effect type pid h) = h_stc_wall_drift_ppm h"
  "h_pcr_tracks (event_effect type pid h) = h_pcr_tracks h"
  "h_pkt_pool (event_effect type pid h) = h_pkt_pool h"
  "h_pid_histograms (event_effect type pid h) = h_pid_histograms h"
  "h_plugins (event_effect type pid h) = h_plugins h"
  "h_prev_snap_base (event_effect type pid h) = h_prev_snap_base h"
  "h_buffers (event_effect type pid h) = h_buffers h"
  "h_active_idx (event_effect type pid h) = h_active_idx h"
  "h_last_health_score (event_effect type pid h) = h_last_health_score h"
  "h_srt_live (event_effect type pid h) = h_srt_live h"
  "h_last_trigger_reason (event_effect type pid h) = h_last_trigger_reason h"
  "h_last_forensic_alarm_count (event_effect type pid h) = h_last_forensic_alarm_count h"
  by (cases type; simp add: event_effect_def)+

lemma push_event_fields [simp]:
  "h_config (tsa_push_event h type pid val) = h_config h"
  "h_agg_window_ms (tsa_push_event h type pid val) = h_agg_window_ms h"
  "h_sync_state (tsa_push_event h type pid val) = h_sync_state h"
  "h_sync_confirm_count (tsa_push_event h type pid val) = h_sync_confirm_count h"
  "h_sync_buffer (tsa_push_event h type pid val) = h_sync_buffer h"
  "h_consecutive_sync_errors (tsa_push_event h type pid val) = h_consecutive_sync_errors h"
  "h_consecutive_good_syncs (tsa_push_event h type pid val) = h_consecutive_good_syncs h"
  "h_engine_started (tsa_push_event h type pid val) = h_engine_started h"
  "h_start_ns (tsa_push_event h type pid val) = h_start_ns h"
  "h_last_snap_ns (tsa_push_event h type pid val) = h_last_snap_ns h"
  "h_last_snap_wall_ns (tsa_push_event h type pid val) = h_last_snap_wall_ns h"
  "h_stc_locked (tsa_push_event h type pid val) = h_stc_locked h"
  "h_stc_slope_q64 (tsa_push_event h type pid val) = h_stc_slope_q64 h"
  "h_stc_intercept_q64 (tsa_push_event h type pid val) = h_stc_intercept_q64 h"
  "h_pkts_since_pcr (tsa_push_event h type pid val) = h_pkts_since_pcr h"
  "h_pid_seen (tsa_push_event h type pid val) = h_pid_seen h"
  "h_pid_types (tsa_push_event h type pid val) = h_pid_types h"
  "h_pid_is_pmt (tsa_push_event h type pid val) = h_pid_is_pmt h"
  "h_pid_is_scte35 (tsa_push_event h type pid val) = h_pid_is_scte35 h"
  "h_pid_filtering_enabled (tsa_push_event h type pid val) = h_pid_filtering_enabled h"
  "h_pid_allowed (tsa_push_event h type pid val) = h_pid_allowed h"
  "h_es_tracks (tsa_push_event h type pid val) = h_es_tracks h"
  "h_pid_labels (tsa_push_event h type pid val) = h_pid_labels h"
  "h_last_packet_rx_ns (tsa_push_event h type pid val) = h_last_packet_rx_ns h"
  "h_phys_stats (tsa_push_event h type pid val) = h_phys_stats h"
  "h_programs (tsa_push_event h type pid val) = h_programs h"
  "h_seen_pat (tsa_push_event h type pid val) = h_seen_pat h"
  "h_seen_pmt (tsa_push_event h type pid val) = h_seen_pmt h"
  "h_last_pat_ns (tsa_push_event h type pid val) = h_last_pat_ns h"
  "h_last_pmt_ns (tsa_push_event h type pid val) = h_last_pmt_ns h"
  "h_last_sdt_ns (tsa_push_event h type pid val) = h_last_sdt_ns h"
  "h_last_nit_ns (tsa_push_event h type pid val) = h_last_nit_ns h"
  "h_pid_active_list (tsa_push_event h type pid val) = h_pid_active_list h"
  "h_pid_to_active_idx (tsa_push_event h type pid val) = h_pid_to_active_idx h"
  "h_op_mode (tsa_push_event h type pid val) = h_op_mode h"
  "h_pool_offset (tsa_push_event h type pid val) = h_pool_offset h"
  "h_pool_size (tsa_push_event h type pid val) = h_pool_size h"
  "h_webhook (tsa_push_event h type pid val) = h_webhook h"
  "h_lua (tsa_push_event h type pid val) = h_lua h"
  "h_current_ns (tsa_push_event h type pid val) = h_current_ns h"
  "h_processed_bytes (tsa_push_event h type pid val) = h_processed_bytes h"
  "h_current_res (tsa_push_event h type pid val) = h_current_res h"
  "h_last_pcr_ticks (tsa_push_event h type pid val) = h_last_pcr_ticks h"
  "h_master_pcr_pid (tsa_push_event h type pid val) = h_master_pcr_pid h"
  "h_stc_wall_drift_ppm (tsa_push_event h type pid val) = h_stc_wall_drift_ppm h"
  "h_pcr_tracks (tsa_push_event h type pid val) = h_pcr_tracks h"
  "h_pkt_pool (tsa_push_event h type pid val) = h_pkt_pool h"
  "h_pid_histograms (tsa_push_event h type pid val) = h_pid_histograms h"
  "h_plugins (tsa_push_event h type pid val) = h_plugins h"
  "h_prev_snap_base (tsa_push_event h type pid val) = h_prev_snap_base h"
  "h_buffers (tsa_push_event h type pid val) = h_buffers h"
  "h_active_idx (tsa_push_event h type pid val) = h_active_idx h"
  "h_last_health_score (tsa_push_event h type pid val) = h_last_health_score h"
  "h_srt_live (tsa_push_event h type pid val) = h_srt_live h"
  "h_last_trigger_reason (tsa_push_event h type pid val) = h_last_trigger_reason h"
  "h_last_forensic_alarm_count (tsa_push_event h type pid val) = h_last_forensic_alarm_count h"
  "h_signal_lock (tsa_push_event h type pid val) = h_signal_lock h"
  by (simp_all add: tsa_push_event_def enqueue_event_def Let_def)

definition push_events :: "(tsa_event_type \<times> u16 \<times> u64) list \<Rightarrow> tsa_handle \<Rightarrow> tsa_handle" where
  "push_events es h = fold (\<lambda>(type, pid, val) h. tsa_push_event h type pid val) es h"

text \<open>
  C25. The event queue is a bounded queue that drops new events: pushing a list
  of events queues the first ones up to 1024 entries, in order; the dashboard's
  drain shows exactly the queued events in order and empties the queue; and once
  the queue is full, pushing does nothing at all, so that neither the error
  counters nor the alerts see the event.
\<close>

theorem event_queue_fifo:
  assumes "ev_inv h" "unat (h_ev_head h) + length es < 2 ^ 64"
  defines "h' \<equiv> push_events es h"
  defines "new \<equiv> map (\<lambda>(type, pid, val). \<lparr>ev_type = type, ev_pid = pid, ev_timestamp_ns = h_stc_ns h, ev_value = val,
          ev_absolute_byte_offset = h_current_packet_offset h\<rparr>) es"
  shows "ev_inv h' \<and> ev_contents h' = take MAX_EVENT_QUEUE (ev_contents h @ new) \<and>
    map (\<lambda>(_, _, ev). ev) (fst (drain_events h')) = ev_contents h' \<and> ev_contents (snd (drain_events h')) = [] \<and>
    (length (ev_contents h) = MAX_EVENT_QUEUE \<longrightarrow> h' = h)"
proof -
  have "ev_inv h' \<and> ev_contents h' = take MAX_EVENT_QUEUE (ev_contents h @ new) \<and>
    (length (ev_contents h) = MAX_EVENT_QUEUE \<longrightarrow> h' = h)"
    using assms(1,2) unfolding h'_def new_def
  proof (induction es arbitrary: h)
    case Nil
    then show ?case using ev_contents_bound by (simp add: push_events_def)
  next
    case (Cons e es)
    obtain ty pid val where e: "e = (ty, pid, val)" by (cases e)
    have nm: "h_ev_head h \<noteq> - 1" using Cons.prems(2) by (auto simp: unsigned_minus_1_eq_mask mask_eq_exp_minus_1)
    have p: "push_events (e # es) h = push_events es (tsa_push_event h ty pid val)" by (simp add: push_events_def e)
    from Cons.prems(1) nm show ?case
    proof (cases rule: push_event_cases [where type = ty and pid = pid and val = val])
      case full
      then show ?thesis unfolding p full(2) using Cons.IH [of h] Cons.prems by (simp add: e)
    next
      case queued
      have "unat (h_ev_head h + 1) = Suc (unat (h_ev_head h))"
        using nm by (intro unat_next [of _ "- 1"]) (simp add: word_order.not_eq_extremum)
      then show ?thesis unfolding p using Cons.IH [OF queued(2)] Cons.prems queued by (simp add: e)
    qed
  qed
  then show ?thesis using drain_events_contents [of h'] by simp
qed

theorem event_queue_fifo_witness:
  "let h' = push_events [(TSA_EVENT_CC_ERROR, 256, 1), (TSA_EVENT_SCRAMBLED, 257, 0)] (tsa_create None False False) in
   map (\<lambda>(_, _, ev). (ev_type ev, ev_pid ev)) (fst (drain_events h')) = [(TSA_EVENT_CC_ERROR, 256), (TSA_EVENT_SCRAMBLED, 257)]"
proof -
  let ?h = "tsa_create None False False"
  have i: "ev_inv ?h" "ev_contents ?h = []" by (simp_all add: ev_inv_def ev_contents_def)
  let ?es = "[(TSA_EVENT_CC_ERROR, 256, 1), (TSA_EVENT_SCRAMBLED, 257, 0)]"
  let ?d = "fst (drain_events (push_events ?es ?h))"
  have "map (\<lambda>(_, _, ev). ev) ?d = [\<lparr>ev_type = TSA_EVENT_CC_ERROR, ev_pid = 256, ev_timestamp_ns = 0, ev_value = 1,
          ev_absolute_byte_offset = 0\<rparr>, \<lparr>ev_type = TSA_EVENT_SCRAMBLED, ev_pid = 257, ev_timestamp_ns = 0, ev_value = 0,
          ev_absolute_byte_offset = 0\<rparr>]"
    using event_queue_fifo [OF i(1), of ?es] i(2) by (simp add: MAX_EVENT_QUEUE_def)
  then have "map (\<lambda>ev. (ev_type ev, ev_pid ev)) (map (\<lambda>(_, _, ev). ev) ?d) = [(TSA_EVENT_CC_ERROR, 256), (TSA_EVENT_SCRAMBLED, 257)]"
    by simp
  then show ?thesis by (simp add: Let_def comp_def case_prod_unfold)
qed

end
