(* ===== verification/Tsa_Psi.thy ===== *)
theory Tsa_Psi
  imports Tsa_State Crc32
begin

text \<open>
  Program specific information, \<open>tsa_psi.c\<close>: the PID tracker and its labels,
  the section filter, and the PAT and PMT parsers. A packet is its list of 188
  bytes and a section the rest of the packet from its table id on; a read past
  the packet's end is the result \<open>None\<close>.
\<close>

section \<open>PID tracker\<close>

definition pid_type_label :: "tsa_handle \<Rightarrow> u16 \<Rightarrow> string" where
  "pid_type_label h pid =
    (if pid = 0 then ''PAT'' else if h_pid_is_pmt h pid then ''PMT'' else if h_pid_types h pid = 1 then ''Video''
     else if h_pid_types h pid = 2 then ''Audio'' else if h_pid_types h pid = 3 then ''Data'' else ''Other'')"

definition tsa_precompile_pid_labels :: "tsa_handle \<Rightarrow> u16 \<Rightarrow> tsa_handle" where
  "tsa_precompile_pid_labels h pid = (if TS_PID_MAX \<le> unat pid then h else
     h\<lparr>h_pid_labels := (h_pid_labels h)(pid := snprintf_to TSA_LABEL_MAX
        (''{stream_id='' @ [CHR 0x22] @ stream_label h @ [CHR 0x22] @ '',pid='' @ [CHR 0x22] @ ''0x'' @ hex4 pid @ [CHR 0x22] @
         '',type='' @ [CHR 0x22] @ pid_type_label h pid @ [CHR 0x22] @ ''}''))\<rparr>)"

definition tsa_reset_pid_stats :: "tsa_handle \<Rightarrow> u16 \<Rightarrow> tsa_handle" where
  "tsa_reset_pid_stats h pid = h\<lparr>h_pid_seen := (h_pid_seen h)(pid := False)\<rparr>"

definition tsa_update_pid_tracker :: "tsa_handle \<Rightarrow> u16 \<Rightarrow> nat option \<times> tsa_handle" where
  "tsa_update_pid_tracker h p = (case h_pid_to_active_idx h p of
      Some idx \<Rightarrow> (Some idx, h)
    | None \<Rightarrow> let
        n = length (h_pid_active_list h);
        (idx, h) = (if n < MAX_ACTIVE_PIDS
          then (Some n, h\<lparr>h_pid_active_list := h_pid_active_list h @ [p],
                         h_pid_to_active_idx := (h_pid_to_active_idx h)(p \<mapsto> n)\<rparr>)
          else (None, h));
        h = h\<lparr>h_pid_seen := (h_pid_seen h)(p := True)\<rparr>
      in (idx, tsa_precompile_pid_labels h p))"

section \<open>Tables\<close>

text \<open>\<open>(((p[1] & 0x0F) << 8) | p[2]) + 3\<close>, at most 4098.\<close>

definition section_size :: "bytes \<Rightarrow> nat" where
  "section_size p = 256 * unat (p ! 1 AND 0x0F) + unat (p ! 2) + 3"

text \<open>A 16-bit and a 13-bit field of two bytes.\<close>

definition be16 :: "u8 \<Rightarrow> u8 \<Rightarrow> u16" where
  "be16 a b = push_bit 8 (ucast a) OR ucast b"

definition pid13 :: "u8 \<Rightarrow> u8 \<Rightarrow> u16" where
  "pid13 a b = push_bit 8 (ucast (a AND 0x1F)) OR ucast b"

definition pat_entry :: "bytes \<Rightarrow> nat \<Rightarrow> u16 \<times> u16" where
  "pat_entry p i = (be16 (p ! (8 + i * 4)) (p ! (9 + i * 4)), pid13 (p ! (10 + i * 4)) (p ! (11 + i * 4)))"

text \<open>The search loop: the first program with the number gets the PID.\<close>

fun set_pmt_pid :: "u16 \<Rightarrow> u16 \<Rightarrow> tsa_program_info list \<Rightarrow> tsa_program_info list option" where
  "set_pmt_pid pn ppid [] = None"
| "set_pmt_pid pn ppid (q # qs) =
    (if program_number q = pn then Some (q\<lparr>pmt_pid := ppid\<rparr> # qs) else map_option ((#) q) (set_pmt_pid pn ppid qs))"

definition pat_register :: "u16 \<times> u16 \<Rightarrow> tsa_handle \<Rightarrow> tsa_handle" where
  "pat_register e h = (let (pn, ppid) = e in
    if pn = 0 then h
    else case set_pmt_pid pn ppid (h_programs h) of
        Some ps \<Rightarrow> h\<lparr>h_programs := ps\<rparr>
      | None \<Rightarrow> if length (h_programs h) < MAX_PROGRAMS
          then h\<lparr>h_programs := h_programs h @ [\<lparr>program_number = pn, pmt_pid = ppid, last_pmt_ns = 0, pi_streams = []\<rparr>],
                 h_pid_is_pmt := (h_pid_is_pmt h)(ppid := True)\<rparr>
          else h)"

definition process_pat :: "tsa_handle \<Rightarrow> bytes \<Rightarrow> u64 \<Rightarrow> tsa_handle" where
  "process_pat h p now = (let np = (section_size p - 12) div 4 in
    fold pat_register (map (pat_entry p) [0..<np]) (h\<lparr>h_seen_pat := True, h_last_pat_ns := now\<rparr>))"

text \<open>The loop over the elementary streams, as the list of types and PIDs it meets.\<close>

function pmt_streams :: "bytes \<Rightarrow> nat \<Rightarrow> nat \<Rightarrow> (u8 \<times> u16) list" where
  "pmt_streams p sl offset =
    (if offset < sl - 4 then
       (p ! offset, pid13 (p ! (offset + 1)) (p ! (offset + 2))) #
       pmt_streams p sl (offset + 5 + (256 * unat (p ! (offset + 3) AND 0x0F) + unat (p ! (offset + 4))))
     else [])"
  by auto
termination by (relation "measure (\<lambda>(p, sl, offset). sl - offset)") auto

declare pmt_streams.simps [simp del]

definition pmt_pid_type :: "u8 \<Rightarrow> u8" where
  "pmt_pid_type t = (if t = 0x1B \<or> t = 0x10 \<or> t = 0x06 then 1 else if t = 0x0F \<or> t = 0x03 \<or> t = 0x04 then 2 else 3)"

text \<open>The first program whose PMT is on the PID is rewritten.\<close>

fun set_streams :: "u16 \<Rightarrow> u64 \<Rightarrow> tsa_stream_info list \<Rightarrow> tsa_program_info list \<Rightarrow> tsa_program_info list" where
  "set_streams pid now ss [] = []"
| "set_streams pid now ss (q # qs) =
    (if pmt_pid q = pid then q\<lparr>last_pmt_ns := now, pi_streams := ss\<rparr> # qs else q # set_streams pid now ss qs)"

definition process_pmt :: "tsa_handle \<Rightarrow> u16 \<Rightarrow> bytes \<Rightarrow> u64 \<Rightarrow> tsa_handle option" where
  "process_pmt h pid p now = (let h = h\<lparr>h_seen_pmt := True\<rparr> in
    if \<not> (\<exists>q \<in> set (h_programs h). pmt_pid q = pid) then Some h
    else if length p < 12 then None
    else let
      xs = pmt_streams p (section_size p) (12 + (256 * unat (p ! 10 AND 0x0F) + unat (p ! 11)));
      ss = map (\<lambda>(t, q). \<lparr>si_pid = q, si_stream_type = t\<rparr>) (take MAX_STREAMS_PER_PROG xs)
    in Some (h\<lparr>h_pid_types := fold (\<lambda>(t, q) f. f(q := pmt_pid_type t)) xs (h_pid_types h),
               h_programs := set_streams pid now ss (h_programs h)\<rparr>))"

section \<open>Section filter\<close>

text \<open>
  Where the section starts in the packet, or \<open>None\<close> where the filter returns
  early: no payload, no payload unit start, no room, or stuffing, or a section
  that does not end in this packet.
\<close>

definition section_start :: "bytes \<Rightarrow> ts_decode_result \<Rightarrow> nat option" where
  "section_start pkt r = (let afc = drop_bit 4 (pkt ! 3) AND 0x03 in
    if afc AND 0x01 = 0 \<or> r_pusi r = 0 then None
    else let offset = 4 + (if afc AND 0x02 \<noteq> 0 then unat (pkt ! 4) + 1 else 0) in
      if 187 \<le> offset then None
      else let offset = offset + unat (pkt ! offset) + 1 in
        if 184 \<le> offset then None
        else if pkt ! offset = 0xFF then None
        else if 188 < offset + section_size (drop offset pkt) then None
        else Some offset)"

definition tsa_section_filter_push :: "tsa_handle \<Rightarrow> u16 \<Rightarrow> bytes \<Rightarrow> ts_decode_result \<Rightarrow> tsa_handle option" where
  "tsa_section_filter_push h pid pkt r = (case section_start pkt r of
      None \<Rightarrow> Some h
    | Some offset \<Rightarrow> let p = drop offset pkt in
        if tsa_crc32_check p (section_size p) = 0 then
          if p ! 0 = 0x00 then Some (process_pat h p (h_current_ns h))
          else if p ! 0 = 0x02 then process_pmt h pid p (h_current_ns h)
          else Some h
        else Some (set_live (\<lambda>l. l\<lparr>crc_error_alarm := crc_error_alarm l + 1\<rparr>) h))"

definition tsa_psi_process_packet :: "tsa_handle \<Rightarrow> bytes \<Rightarrow> ts_decode_result \<Rightarrow> tsa_handle option" where
  "tsa_psi_process_packet h pkt res = (let h = snd (tsa_update_pid_tracker h (r_pid res)) in
    if r_pid res = 0 \<or> h_pid_is_pmt h (r_pid res) then tsa_section_filter_push h (r_pid res) pkt res else Some h)"

section \<open>Wire format\<close>

text \<open>
  The two bytes of a 16-bit number, and the sections of ISO/IEC 13818-1 as the
  specification lays them out: header, body, CRC.
\<close>

definition hi8 :: "u16 \<Rightarrow> u8" where "hi8 w = ucast (drop_bit 8 w)"
definition lo8 :: "u16 \<Rightarrow> u8" where "lo8 w = ucast w"

lemma be16_hi_lo [simp]: "be16 (hi8 w) (lo8 w) = w"
  unfolding be16_def hi8_def lo8_def
  by (rule bit_word_eqI) (auto simp: bit_simps)

lemma hi8_small: "unat w < 2 ^ (8 + k) \<Longrightarrow> k \<le> 8 \<Longrightarrow> take_bit k (hi8 w) = hi8 w"
proof -
  assume "unat w < 2 ^ (8 + k)" "k \<le> 8"
  then have "take_bit (8 + k) w = w" by (simp add: word_eq_iff_unsigned [where 'a = nat] unsigned_take_bit_eq take_bit_nat_eq_self)
  then have "bit w n \<Longrightarrow> n < 8 + k" for n by (metis bit_take_bit_iff)
  then have "bit w (8 + n) \<Longrightarrow> n < k" for n by fastforce
  then show ?thesis unfolding hi8_def by (intro bit_word_eqI) (auto simp: bit_simps)
qed

lemma or_mask_and: "m AND c = 0 \<Longrightarrow> (m OR x) AND c = x AND c" for m c x :: u8
  by (simp add: bit.conj_disj_distrib2)

lemma pid13_enc: "unat w < 8192 \<Longrightarrow> pid13 (0xE0 OR hi8 w) (lo8 w) = w"
  using hi8_small [of w 5] be16_hi_lo [of w]
  by (simp add: pid13_def be16_def or_mask_and take_bit_eq_mask mask_eq_exp_minus_1)

lemma len12_enc: "n < 4096 \<Longrightarrow> m AND 0x0F = 0 \<Longrightarrow>
   256 * unat ((m OR hi8 (of_nat n)) AND 0x0F) + unat (lo8 (of_nat n)) = n"
proof -
  assume n: "n < 4096" "m AND 0x0F = 0"
  let ?w = "of_nat n :: u16"
  have u: "unat ?w = n" using n by (simp add: unat_of_nat_small)
  then have "(m OR hi8 ?w) AND 0x0F = hi8 ?w"
    using hi8_small [of ?w 4] n by (simp add: or_mask_and take_bit_eq_mask mask_eq_exp_minus_1)
  moreover have "unat (hi8 ?w) = n div 256" "unat (lo8 ?w) = n mod 256"
    using n u by (simp_all add: hi8_def lo8_def unsigned_ucast_eq unsigned_drop_bit_eq drop_bit_eq_div take_bit_eq_mod unat_div)
  ultimately show ?thesis by simp
qed

definition crc_bytes :: "u32 \<Rightarrow> bytes" where
  "crc_bytes c = [ucast (drop_bit 24 c), ucast (drop_bit 16 c), ucast (drop_bit 8 c), ucast c]"

text \<open>A long-form section: table id, length, the five bytes up to the section numbers, payload, CRC.\<close>

definition psi_section :: "u8 \<Rightarrow> bytes \<Rightarrow> bytes \<Rightarrow> bytes" where
  "psi_section tid hdr payload = (let
      n = of_nat (length hdr + length payload + 4);
      d = [tid, 0xB0 OR hi8 n, lo8 n] @ hdr @ payload
    in d @ crc_bytes (mpegts_crc32 d (length d)))"

definition pat_payload :: "(u16 \<times> u16) list \<Rightarrow> bytes" where
  "pat_payload ps = concat (map (\<lambda>(pn, pid). [hi8 pn, lo8 pn, 0xE0 OR hi8 pid, lo8 pid]) ps)"

definition pmt_payload :: "u16 \<Rightarrow> bytes \<Rightarrow> (u8 \<times> u16 \<times> bytes) list \<Rightarrow> bytes" where
  "pmt_payload pcr info ss = [0xE0 OR hi8 pcr, lo8 pcr, 0xF0 OR hi8 (of_nat (length info)), lo8 (of_nat (length info))] @ info @
     concat (map (\<lambda>(t, pid, d). [t, 0xE0 OR hi8 pid, lo8 pid, 0xF0 OR hi8 (of_nat (length d)), lo8 (of_nat (length d))] @ d) ss)"

text \<open>A packet that starts one section at once, and stuffing after it.\<close>

definition section_packet :: "u16 \<Rightarrow> u8 \<Rightarrow> bytes \<Rightarrow> bytes" where
  "section_packet pid cc sec = [0x47, 0x40 OR hi8 pid, lo8 pid, 0x10 OR cc, 0x00] @ sec @ replicate (183 - length sec) 0xFF"

lemma psi_section_length [simp]: "length (psi_section tid hdr payload) = length hdr + length payload + 7"
  by (simp add: psi_section_def crc_bytes_def Let_def)

lemma psi_section_nth: "psi_section tid hdr payload ! 0 = tid"
  "i < length hdr + length payload \<Longrightarrow> psi_section tid hdr payload ! (i + 3) = (hdr @ payload) ! i"
  by (simp_all add: psi_section_def Let_def nth_append flip: append_assoc)

lemma psi_section_size:
  assumes "length hdr + length payload + 4 < 4096"
  shows "section_size (psi_section tid hdr payload @ x) = length (psi_section tid hdr payload)"
proof -
  have "section_size (psi_section tid hdr payload @ x) =
      256 * unat ((0xB0 OR hi8 (of_nat (length hdr + length payload + 4))) AND 0x0F) +
      unat (lo8 (of_nat (length hdr + length payload + 4))) + 3"
    by (simp add: section_size_def psi_section_def Let_def del: of_nat_add)
  then show ?thesis using len12_enc [OF assms, of "0xB0"] by (simp del: of_nat_add)
qed

lemma psi_section_crc:
  "tsa_crc32_check (psi_section tid hdr payload @ x) (length (psi_section tid hdr payload)) = 0"
proof -
  let ?s = "psi_section tid hdr payload"
  obtain d where d: "?s = d @ crc_bytes (mpegts_crc32 d (length d))" by (simp only: psi_section_def Let_def)
  then have "length ?s = length d + 4" by (simp only: length_append) (simp add: crc_bytes_def)
  then have "tsa_crc32_check ?s (length ?s) = 0"
    using crc32_check_append [OF refl, of d] by (simp only: d crc_bytes_def)
  then show ?thesis using crc32_check_take [of "length ?s" "?s @ x"] by simp
qed

lemma payload_only_afc:
  assumes "cc < 16"
  shows "drop_bit 4 (0x10 OR cc) AND 0x03 = (0x01 :: u8)"
proof -
  have "unat (drop_bit 4 cc) = 0" using assms by (simp add: unsigned_drop_bit_eq drop_bit_eq_div word_less_nat_alt unat_div)
  then have "drop_bit 4 cc = 0" by (simp add: unat_eq_zero)
  then show ?thesis by (simp add: drop_bit_or)
qed

lemma section_packet_start:
  assumes "length hdr + length payload \<le> 176" "r_pusi r \<noteq> 0" "cc < 16" "tid \<noteq> 0xFF"
  shows "section_start (section_packet pid cc (psi_section tid hdr payload)) r = Some 5 \<and>
    drop 5 (section_packet pid cc (psi_section tid hdr payload)) =
      psi_section tid hdr payload @ replicate (176 - (length hdr + length payload)) 0xFF"
proof -
  let ?s = "psi_section tid hdr payload" and ?k = "176 - (length hdr + length payload)"
  let ?p = "section_packet pid cc ?s"
  have p: "?p = [0x47, 0x40 OR hi8 pid, lo8 pid, 0x10 OR cc, 0x00] @ ?s @ replicate ?k 0xFF"
    using assms(1) by (simp add: section_packet_def)
  have d: "drop 5 ?p = ?s @ replicate ?k 0xFF" by (simp add: p)
  have "?p ! 5 = drop 5 ?p ! 0" by (simp add: p)
  then have t: "?p ! 5 = tid" by (simp only: d) (simp add: nth_append psi_section_nth)
  have q: "?p ! 4 = 0" "drop_bit 4 (?p ! 3) AND 0x03 = 0x01"
    using payload_only_afc [OF assms(3)] by (simp_all only: p) simp_all
  have z: "section_size (drop 5 ?p) = length ?s" unfolding d using assms(1) by (intro psi_section_size) simp
  have "length ?s + 5 \<le> 188" using assms(1) by simp
  then have "section_start ?p r = Some 5"
    unfolding section_start_def using assms(2,4)
    by (simp add: Let_def q t z del: psi_section_length)
  then show ?thesis using d by simp
qed

lemma filter_push_section:
  assumes "length hdr + length payload \<le> 176" "r_pusi r \<noteq> 0" "cc < 16" "tid = 0x00 \<or> tid = 0x02"
  shows "tsa_section_filter_push h pid (section_packet pid' cc (psi_section tid hdr payload)) r =
    (let p = psi_section tid hdr payload @ replicate (176 - (length hdr + length payload)) 0xFF in
     if tid = 0x00 then Some (process_pat h p (h_current_ns h)) else process_pmt h pid p (h_current_ns h))"
proof -
  let ?s = "psi_section tid hdr payload" and ?x = "replicate (176 - (length hdr + length payload)) (0xFF :: u8)"
  have "tid \<noteq> 0xFF" using assms(4) by auto
  note st = section_packet_start [OF assms(1-3) this, of pid']
  have z: "section_size (?s @ ?x) = length ?s" using assms(1) by (intro psi_section_size) simp
  have "(?s @ ?x) ! 0 = tid" by (simp add: nth_append psi_section_nth)
  then show ?thesis
    unfolding tsa_section_filter_push_def using st psi_section_crc [of tid hdr payload ?x] assms(4)
    by (auto simp: Let_def z simp del: psi_section_length)
qed

section \<open>Program table\<close>

definition pmt_lookup :: "tsa_program_info list \<Rightarrow> u16 \<Rightarrow> u16 option" where
  "pmt_lookup ps pn = map_option pmt_pid (find (\<lambda>q. program_number q = pn) ps)"

lemma pmt_lookup_simps [simp]:
  "pmt_lookup [] m = None"
  "pmt_lookup (q # qs) m = (if program_number q = m then Some (pmt_pid q) else pmt_lookup qs m)"
  by (simp_all add: pmt_lookup_def)

lemma pmt_lookup_None: "pmt_lookup ps pn = None \<longleftrightarrow> pn \<notin> program_number ` set ps"
  by (auto simp: pmt_lookup_def find_None_iff)

lemma set_pmt_pid_None: "set_pmt_pid pn ppid ps = None \<longleftrightarrow> pmt_lookup ps pn = None"
  by (induction ps) auto

lemma set_pmt_pid_Some:
  "set_pmt_pid pn ppid ps = Some ps' \<Longrightarrow> length ps' = length ps \<and> map program_number ps' = map program_number ps \<and>
    map pi_streams ps' = map pi_streams ps \<and>
    pmt_lookup ps' m = (if m = pn then Some ppid else pmt_lookup ps m)"
proof (induction ps arbitrary: ps')
  case (Cons q qs)
  show ?case
  proof (cases "program_number q = pn")
    case True
    then have "ps' = q\<lparr>pmt_pid := ppid\<rparr> # qs" using Cons.prems by simp
    then show ?thesis using True by simp
  next
    case False
    then obtain qs' where q: "set_pmt_pid pn ppid qs = Some qs'" "ps' = q # qs'" using Cons.prems by auto
    then show ?thesis using Cons.IH [OF q(1)] False by (cases "m = pn") simp_all
  qed
qed simp

lemma pmt_lookup_append:
  "pmt_lookup (ps @ [q]) m = (case pmt_lookup ps m of None \<Rightarrow> if program_number q = m then Some (pmt_pid q) else None | Some x \<Rightarrow> Some x)"
  by (induction ps) auto

lemma pat_register_length: "length (h_programs (pat_register e h)) \<le> Suc (length (h_programs h))"
  using set_pmt_pid_Some by (cases e) (fastforce simp: pat_register_def split: option.splits)

lemma pat_register_lookup:
  assumes "pn \<noteq> 0" "length (h_programs h) < MAX_PROGRAMS"
  shows "pmt_lookup (h_programs (pat_register (pn, ppid) h)) m = (if m = pn then Some ppid else pmt_lookup (h_programs h) m)"
proof (cases "set_pmt_pid pn ppid (h_programs h)")
  case None
  then show ?thesis using assms set_pmt_pid_None [of pn ppid "h_programs h"]
    by (auto simp: pat_register_def pmt_lookup_append split: option.splits)
next
  case (Some ps)
  then show ?thesis using assms set_pmt_pid_Some [OF Some, of m] by (simp add: pat_register_def)
qed

lemma pat_register_is_pmt:
  assumes "pn \<noteq> 0" "length (h_programs h) < MAX_PROGRAMS"
  shows "h_pid_is_pmt (pat_register (pn, ppid) h) q = (h_pid_is_pmt h q \<or> q = ppid \<and> pmt_lookup (h_programs h) pn = None)"
  using assms set_pmt_pid_None [of pn ppid "h_programs h"] by (auto simp: pat_register_def split: option.splits)

lemma fold_pat_register:
  assumes "\<forall>e \<in> set es. fst e \<noteq> 0" "length (h_programs h) + length es \<le> MAX_PROGRAMS" "distinct (map fst es)"
  shows "(\<forall>m. pmt_lookup (h_programs (fold pat_register es h)) m =
      (case map_of es m of Some ppid \<Rightarrow> Some ppid | None \<Rightarrow> pmt_lookup (h_programs h) m)) \<and>
    (\<forall>q. h_pid_is_pmt (fold pat_register es h) q =
      (h_pid_is_pmt h q \<or> (\<exists>pn. (pn, q) \<in> set es \<and> pmt_lookup (h_programs h) pn = None)))"
  using assms
proof (induction es arbitrary: h)
  case (Cons e es)
  obtain pn ppid where e: "e = (pn, ppid)" by (cases e)
  let ?h = "pat_register e h"
  have l: "length (h_programs h) < MAX_PROGRAMS" "length (h_programs ?h) + length es \<le> MAX_PROGRAMS"
    using Cons.prems(2) pat_register_length [of e h] by simp_all
  have lk: "pmt_lookup (h_programs ?h) m = (if m = pn then Some ppid else pmt_lookup (h_programs h) m)" for m
    using Cons.prems(1) l(1) by (simp add: e pat_register_lookup)
  have pm: "h_pid_is_pmt ?h q = (h_pid_is_pmt h q \<or> q = ppid \<and> pmt_lookup (h_programs h) pn = None)" for q
    using Cons.prems(1) l(1) by (simp add: e pat_register_is_pmt)
  have new: "m \<in> fst ` set es \<Longrightarrow> m \<noteq> pn" for m using Cons.prems(3) e by auto
  then have nn: "map_of es pn = None" by (auto simp: map_of_eq_None_iff)
  have ih: "pmt_lookup (h_programs (fold pat_register es ?h)) m =
      (case map_of es m of Some ppid \<Rightarrow> Some ppid | None \<Rightarrow> pmt_lookup (h_programs ?h) m)"
    "h_pid_is_pmt (fold pat_register es ?h) q =
      (h_pid_is_pmt ?h q \<or> (\<exists>pn. (pn, q) \<in> set es \<and> pmt_lookup (h_programs ?h) pn = None))" for m q
    using Cons.IH [of ?h] Cons.prems(1,3) l(2) by simp_all
  have "pmt_lookup (h_programs (fold pat_register (e # es) h)) m =
      (case map_of (e # es) m of Some ppid \<Rightarrow> Some ppid | None \<Rightarrow> pmt_lookup (h_programs h) m)" for m
  proof (cases "m = pn")
    case True
    then have "pmt_lookup (h_programs (fold pat_register es ?h)) m = Some ppid" by (simp add: ih(1) nn lk)
    then show ?thesis using True by (simp add: e)
  next
    case False
    then show ?thesis using ih(1) [of m] lk [of m] by (cases "map_of es m") (simp_all add: e)
  qed
  moreover have "(\<exists>pn'. (pn', q) \<in> set es \<and> pmt_lookup (h_programs ?h) pn' = None) \<longleftrightarrow>
      (\<exists>pn'. (pn', q) \<in> set es \<and> pmt_lookup (h_programs h) pn' = None)" for q
    using new by (force simp: lk)
  then have "h_pid_is_pmt (fold pat_register (e # es) h) q =
      (h_pid_is_pmt h q \<or> (\<exists>pn. (pn, q) \<in> set (e # es) \<and> pmt_lookup (h_programs h) pn = None))" for q
    using ih(2) [of q] pm [of q] e by auto
  ultimately show ?case by blast
qed simp

lemma pat_payload_length [simp]: "length (pat_payload ps) = 4 * length ps"
  by (induction ps) (auto simp: pat_payload_def)

lemma pat_payload_nth:
  "i < length ps \<Longrightarrow> k < 4 \<Longrightarrow> pat_payload ps ! (i * 4 + k) =
    [hi8 (fst (ps ! i)), lo8 (fst (ps ! i)), 0xE0 OR hi8 (snd (ps ! i)), lo8 (snd (ps ! i))] ! k"
proof (induction ps arbitrary: i)
  case (Cons e ps)
  show ?case
  proof (cases i)
    case 0
    then show ?thesis using Cons.prems(2) by (auto simp: pat_payload_def split_beta less_Suc_eq numeral_eq_Suc)
  next
    case (Suc j)
    then show ?thesis using Cons by (simp add: pat_payload_def split_beta)
  qed
qed simp

lemma pat_entries_wire:
  assumes "length hdr = 5" "\<forall>e \<in> set ps. unat (snd e) < 8192" "length ps \<le> 42"
  shows "map (pat_entry (psi_section tid hdr (pat_payload ps) @ x)) [0..<length ps] = ps"
proof (rule nth_equalityI)
  fix i assume "i < length (map (pat_entry (psi_section tid hdr (pat_payload ps) @ x)) [0..<length ps])"
  then have i: "i < length ps" by simp
  let ?p = "psi_section tid hdr (pat_payload ps) @ x"
  have n: "?p ! (8 + i * 4 + k) = pat_payload ps ! (i * 4 + k)" if "k < 4" for k
    using psi_section_nth(2) [of "5 + i * 4 + k" hdr "pat_payload ps" tid] that i assms(1)
    by (simp add: nth_append add.commute add.left_commute)
  have f: "?p ! (8 + i * 4 + k) =
      [hi8 (fst (ps ! i)), lo8 (fst (ps ! i)), 0xE0 OR hi8 (snd (ps ! i)), lo8 (snd (ps ! i))] ! k" if "k < 4" for k
    using n [OF that] pat_payload_nth [OF i that] by (simp only:)
  have "pid13 (0xE0 OR hi8 (snd (ps ! i))) (lo8 (snd (ps ! i))) = snd (ps ! i)"
    using assms(2) i by (intro pid13_enc) simp
  then have "pat_entry ?p i = ps ! i"
    using f [of 0] f [of 1] f [of 2] f [of 3] by (simp add: pat_entry_def)
  then show "map (pat_entry ?p) [0..<length ps] ! i = ps ! i" using i by simp
qed simp

lemma process_pat_wire:
  assumes "length hdr = 5" "\<forall>e \<in> set ps. unat (snd e) < 8192" "length ps \<le> 42"
  shows "process_pat h (psi_section tid hdr (pat_payload ps) @ x) now =
    fold pat_register ps (h\<lparr>h_seen_pat := True, h_last_pat_ns := now\<rparr>)"
proof -
  have "section_size (psi_section tid hdr (pat_payload ps) @ x) = 4 * length ps + 12"
    using psi_section_size [of hdr "pat_payload ps" tid x] assms by simp
  then have "(section_size (psi_section tid hdr (pat_payload ps) @ x) - 12) div 4 = length ps" by simp
  then show ?thesis using pat_entries_wire [OF assms] by (simp only: process_pat_def Let_def)
qed



section \<open>Stream table\<close>

definition es_wire :: "(u8 \<times> u16 \<times> bytes) list \<Rightarrow> bytes" where
  "es_wire ss = concat (map (\<lambda>(t, pid, d). [t, 0xE0 OR hi8 pid, lo8 pid, 0xF0 OR hi8 (of_nat (length d)), lo8 (of_nat (length d))] @ d) ss)"

lemma es_wire_Cons:
  "es_wire ((t, pid, d) # ss) =
    t # (0xE0 OR hi8 pid) # lo8 pid # (0xF0 OR hi8 (of_nat (length d))) # lo8 (of_nat (length d)) # d @ es_wire ss"
  by (simp add: es_wire_def)

lemma pmt_streams_wire:
  assumes "\<forall>(t, pid, d) \<in> set ss. unat pid < 8192 \<and> length d < 4096"
    and "drop offset p = es_wire ss @ c" "length p = sl + k" "length c = 4 + k" "offset \<le> length p"
  shows "pmt_streams p sl offset = map (\<lambda>(t, pid, d). (t, pid)) ss"
  using assms
proof (induction ss arbitrary: offset)
  case Nil
  then have "length (drop offset p) = 4 + k" by (simp only: Nil.prems(2)) (simp add: es_wire_def)
  then have "\<not> offset < sl - 4" using Nil.prems(3) by simp
  then show ?case by (subst pmt_streams.simps) simp
next
  case (Cons s ss)
  obtain t pid d where s: "s = (t, pid, d)" by (cases s)
  have n: "p ! (offset + j) = (es_wire (s # ss) @ c) ! j" for j
    using nth_drop [OF Cons.prems(5), of j] unfolding Cons.prems(2) by (rule sym)
  have l: "length p - offset = length (es_wire (s # ss)) + 4 + k"
    using arg_cong [OF Cons.prems(2), of length] Cons.prems(4) by simp
  then have "offset < sl - 4" using Cons.prems(3) by (simp add: s es_wire_Cons)
  moreover have "256 * unat (p ! (offset + 3) AND 0x0F) + unat (p ! (offset + 4)) = length d"
    using n [of 3] n [of 4] Cons.prems(1) len12_enc [of "length d" "0xF0"] by (simp add: s es_wire_Cons)
  moreover have "pid13 (p ! (offset + 1)) (p ! (offset + 2)) = pid" "p ! offset = t"
    using n [of 0] n [of 1] n [of 2] Cons.prems(1) pid13_enc [of pid] by (simp_all add: s es_wire_Cons)
  moreover have "pmt_streams p sl (offset + 5 + length d) = map (\<lambda>(t, pid, d). (t, pid)) ss"
  proof (rule Cons.IH)
    have "drop (offset + 5 + length d) p = drop (5 + length d) (es_wire (s # ss) @ c)"
      using arg_cong [OF Cons.prems(2), of "drop (5 + length d)"] by (simp only: drop_drop ac_simps)
    moreover have "5 + length d = Suc (Suc (Suc (Suc (Suc (length d)))))" by simp
    ultimately show "drop (offset + 5 + length d) p = es_wire ss @ c" by (simp only: s es_wire_Cons) simp
    show "offset + 5 + length d \<le> length p" using l by (simp add: s es_wire_Cons)
  qed (use Cons.prems in auto)
  ultimately show ?case by (subst pmt_streams.simps) (simp add: s)
qed

lemma set_streams_lookup:
  "(\<forall>q \<in> set ps. pmt_pid q = pid \<longrightarrow> program_number q = pn) \<Longrightarrow> q \<in> set ps \<Longrightarrow> pmt_pid q = pid \<Longrightarrow>
   distinct (map program_number ps) \<Longrightarrow>
   find (\<lambda>q. program_number q = pn) (set_streams pid now ss ps) =
     map_option (\<lambda>q. q\<lparr>last_pmt_ns := now, pi_streams := ss\<rparr>) (find (\<lambda>q. program_number q = pn) ps)"
proof (induction ps)
  case (Cons a ps)
  show ?case
  proof (cases "pmt_pid a = pid")
    case True
    then show ?thesis using Cons.prems(1) by simp
  next
    case False
    then have "q \<in> set ps" using Cons.prems by auto
    moreover have "program_number q = pn" using Cons.prems by auto
    ultimately have "program_number a \<noteq> pn" using Cons.prems(4) by auto
    then show ?thesis using Cons \<open>q \<in> set ps\<close> False by simp
  qed
qed simp

lemma fold_pid_types:
  "fold (\<lambda>(t, q) f. f(q := g t)) xs f p = (case map_of (rev (map (\<lambda>(t, q). (q, g t)) xs)) p of None \<Rightarrow> f p | Some x \<Rightarrow> x)"
  by (induction xs rule: rev_induct) (auto split: prod.splits)

lemma pmt_payload_es: "pmt_payload pcr info ss =
    [0xE0 OR hi8 pcr, lo8 pcr, 0xF0 OR hi8 (of_nat (length info)), lo8 (of_nat (length info))] @ info @ es_wire ss"
  by (simp add: pmt_payload_def es_wire_def)

lemma process_pmt_wire:
  assumes "length hdr = 5" "\<forall>(t, q, d) \<in> set ss. unat q < 8192 \<and> length d < 4096" "length (pmt_payload pcr info ss) \<le> 171"
    and "\<exists>q \<in> set (h_programs h). pmt_pid q = pid"
  shows "process_pmt h pid (psi_section 0x02 hdr (pmt_payload pcr info ss) @ x) now =
    Some (h\<lparr>h_seen_pmt := True,
       h_pid_types := fold (\<lambda>(t, q) f. f(q := pmt_pid_type t)) (map (\<lambda>(t, q, d). (t, q)) ss) (h_pid_types h),
       h_programs := set_streams pid now (map (\<lambda>(t, q, d). \<lparr>si_pid = q, si_stream_type = t\<rparr>) (take MAX_STREAMS_PER_PROG ss)) (h_programs h)\<rparr>)"
proof -
  let ?s = "psi_section 0x02 hdr (pmt_payload pcr info ss)"
  let ?p = "?s @ x"
  obtain c where c: "?s = [0x02, 0xB0 OR hi8 (of_nat (length hdr + length (pmt_payload pcr info ss) + 4)),
      lo8 (of_nat (length hdr + length (pmt_payload pcr info ss) + 4))] @ hdr @ pmt_payload pcr info ss @ c" "length c = 4"
    by (simp add: psi_section_def crc_bytes_def Let_def)
  have i: "length info < 4096" using assms(3) by (simp add: pmt_payload_es)
  have n: "?p ! (j + 8) = pmt_payload pcr info ss ! j" if "j < 4" for j
    using psi_section_nth(2) [of "5 + j" hdr "pmt_payload pcr info ss" "0x02"] that assms(1)
    by (simp add: nth_append pmt_payload_es add.commute)
  have o: "256 * unat (?p ! 10 AND 0x0F) + unat (?p ! 11) = length info"
    using n [of 2] n [of 3] len12_enc [OF i, where m = "0xF0"] by (simp add: pmt_payload_es)
  have z: "section_size ?p = length ?s" using assms(1,3) by (intro psi_section_size) simp
  have d: "drop (12 + length info) ?p = es_wire ss @ c @ x"
  proof -
    define a where "a = [0x02, 0xB0 OR hi8 (of_nat (length hdr + length (pmt_payload pcr info ss) + 4)),
      lo8 (of_nat (length hdr + length (pmt_payload pcr info ss) + 4))] @ hdr @
      [0xE0 OR hi8 pcr, lo8 pcr, 0xF0 OR hi8 (of_nat (length info)), lo8 (of_nat (length info))] @ info"
    have "?p = a @ es_wire ss @ c @ x" by (subst c(1)) (simp only: a_def pmt_payload_es append_assoc)
    moreover have "length a = 12 + length info" using assms(1) by (simp add: a_def)
    ultimately show ?thesis by (metis append_eq_conv_conj)
  qed
  have "pmt_streams ?p (section_size ?p) (12 + length info) = map (\<lambda>(t, q, d). (t, q)) ss"
  proof (rule pmt_streams_wire [OF assms(2) d])
    show "length ?p = section_size ?p + length x" by (simp only: z length_append)
    show "length (c @ x) = 4 + length x" by (simp add: c(2))
    show "12 + length info \<le> length ?p" by (simp add: pmt_payload_es assms(1))
  qed
  then show ?thesis using assms(4)
    by (auto simp: process_pmt_def Let_def o assms(1) take_map case_prod_unfold comp_def)
qed

text \<open>
  C6. PMT round trip. Feed the filter a packet that carries a PMT built as the
  standard lays it out, on the PMT PID of a program. Then that program lists
  the section's streams, in order, up to 32 of them, with the arrival time;
  the type class of every PID is the one of its last stream in the section,
  and unchanged for PIDs the section does not list. No other program changes.
\<close>

theorem pmt_roundtrip:
  assumes "length hdr = 5" "\<forall>(t, q, d) \<in> set ss. unat q < 8192 \<and> length d < 4096" "length (pmt_payload pcr info ss) \<le> 171"
    and "h_programs h = ps @ [g] @ ps'" "pmt_pid g = pid" "\<forall>q \<in> set ps. pmt_pid q \<noteq> pid" "r_pusi r \<noteq> 0" "cc < 16"
  shows "\<exists>h'. tsa_section_filter_push h pid (section_packet pid cc (psi_section 0x02 hdr (pmt_payload pcr info ss))) r = Some h' \<and>
    h_programs h' = ps @ [g\<lparr>last_pmt_ns := h_current_ns h,
      pi_streams := map (\<lambda>(t, q, d). \<lparr>si_pid = q, si_stream_type = t\<rparr>) (take MAX_STREAMS_PER_PROG ss)\<rparr>] @ ps' \<and>
    (\<forall>p. h_pid_types h' p = (case map_of (rev (map (\<lambda>(t, q, d). (q, pmt_pid_type t)) ss)) p of
       None \<Rightarrow> h_pid_types h p | Some c \<Rightarrow> c))"
proof -
  let ?n = "map (\<lambda>(t, q, d). \<lparr>si_pid = q, si_stream_type = t\<rparr>) (take MAX_STREAMS_PER_PROG ss)"
  have e: "\<exists>q \<in> set (h_programs h). pmt_pid q = pid" using assms(4,5) by auto
  have f: "tsa_section_filter_push h pid (section_packet pid cc (psi_section 0x02 hdr (pmt_payload pcr info ss))) r =
      process_pmt h pid (psi_section 0x02 hdr (pmt_payload pcr info ss) @ replicate (176 - (length hdr + length (pmt_payload pcr info ss))) 0xFF) (h_current_ns h)"
    using filter_push_section [of hdr "pmt_payload pcr info ss" r cc "0x02" h pid pid] assms(1,3,7,8) by (simp add: Let_def)
  have "set_streams pid now zs (ps @ [g] @ ps') = ps @ [g\<lparr>last_pmt_ns := now, pi_streams := zs\<rparr>] @ ps'" for now zs
    using assms(5,6) by (induction ps) auto
  then show ?thesis unfolding f process_pmt_wire [OF assms(1-3) e]
    by (simp add: assms(4) fold_pid_types comp_def) (simp add: case_prod_unfold)
qed

theorem pmt_roundtrip_witness:
  "\<exists>h'. tsa_section_filter_push ((tsa_create None False False)\<lparr>h_programs := [\<lparr>program_number = 1, pmt_pid = 0x100, last_pmt_ns = 0, pi_streams = []\<rparr>]\<rparr>)
      0x100 (section_packet 0x100 0 (psi_section 0x02 [0, 1, 0xC1, 0, 0] (pmt_payload 0x101 [] [(0x1B, 0x101, []), (0x0F, 0x102, [0x0A, 0])])))
      (zero_decode\<lparr>r_pusi := 0x40\<rparr>) = Some h' \<and>
    map pi_streams (h_programs h') = [[\<lparr>si_pid = 0x101, si_stream_type = 0x1B\<rparr>, \<lparr>si_pid = 0x102, si_stream_type = 0x0F\<rparr>]] \<and>
    h_pid_types h' 0x101 = 1 \<and> h_pid_types h' 0x102 = 2"
proof -
  let ?g = "\<lparr>program_number = 1, pmt_pid = 0x100, last_pmt_ns = 0, pi_streams = []\<rparr>"
  show ?thesis
    using pmt_roundtrip [of "[0, 1, 0xC1, 0, 0]" "[(0x1B, 0x101, []), (0x0F, 0x102, [0x0A, 0])]" "0x101" "[]"
        "(tsa_create None False False)\<lparr>h_programs := [?g]\<rparr>" "[]" ?g "[]" "0x100" "zero_decode\<lparr>r_pusi := 0x40\<rparr>" 0]
    by (auto simp: pmt_payload_def MAX_STREAMS_PER_PROG_def pmt_pid_type_def zero_decode_def)
qed

section \<open>Damaged sections\<close>

text \<open>Where a section starts depends on the bytes up to its length field only.\<close>

lemma section_start_bounds:
  assumes "section_start pkt r = Some off"
  shows "5 \<le> off \<and> off < 184 \<and> off + section_size (drop off pkt) \<le> 188 \<and> pkt ! off \<noteq> 0xFF"
  using assms by (auto simp: section_start_def Let_def split: if_splits)

lemma section_start_prefix:
  assumes "section_start pkt r = Some off" "take (off + 3) pkt = take (off + 3) pkt'" "length pkt = 188" "length pkt' = 188"
  shows "section_start pkt' r = Some off"
proof -
  have off: "off < 184" "5 \<le> off" using section_start_bounds [OF assms(1)] by simp_all
  have n: "pkt' ! i = pkt ! i" if "i < off + 3" for i
    using arg_cong [OF assms(2), of "\<lambda>x. x ! i"] that by simp
  have z: "section_size (drop off pkt') = section_size (drop off pkt)"
    using off assms(3,4) n [of "off + 1"] n [of "off + 2"] by (simp add: section_size_def)
  have a: "pkt' ! 3 = pkt ! 3" "pkt' ! 4 = pkt ! 4" "pkt' ! off = pkt ! off" using n off by simp_all
  define k where "k = 4 + (if (drop_bit 4 (pkt ! 3) AND 0x03) AND 0x02 \<noteq> 0 then unat (pkt ! 4) + 1 else 0)"
  have o: "off = k + unat (pkt ! k) + 1" using assms(1) by (auto simp: section_start_def Let_def k_def split: if_splits)
  then have "pkt' ! k = pkt ! k" using n [of k] by simp
  then have e: "k + unat (pkt' ! k) + 1 = off" using o by simp
  have "\<not> ((drop_bit 4 (pkt ! 3) AND 0x03) AND 0x01 = 0 \<or> r_pusi r = 0)" "\<not> 187 \<le> k"
    using assms(1) by (auto simp: section_start_def Let_def k_def split: if_splits)
  moreover have "pkt ! off \<noteq> 0xFF" "\<not> 188 < off + section_size (drop off pkt)"
    using section_start_bounds [OF assms(1)] by simp_all
  ultimately show ?thesis
    unfolding section_start_def a(1,2) Let_def k_def [symmetric] e using a(3) z off by simp
qed

text \<open>
  C8. A damaged table is discarded. Take a packet whose section passes the
  check and damage it behind the length field by a burst of at most 32 bits.
  Then the filter leaves the analyser's state as it is, except that the CRC
  error counter goes up by one: no program, stream or PID class changes.
\<close>

theorem damaged_section_discarded:
  assumes "section_start pkt r = Some off" "length pkt = 188" "length pkt' = 188"
    and "tsa_crc32_check (drop off pkt) (section_size (drop off pkt)) = 0"
    and "take (off + 3) pkt' = take (off + 3) pkt"
    and "map2 (\<noteq>) (buf_bits (take (section_size (drop off pkt)) (drop off pkt)))
           (buf_bits (take (section_size (drop off pkt)) (drop off pkt'))) = replicate i False @ e @ replicate k False"
    and "length e \<le> 32" "True \<in> set e"
  shows "tsa_section_filter_push h pid pkt' r = Some (set_live (\<lambda>l. l\<lparr>crc_error_alarm := crc_error_alarm l + 1\<rparr>) h)"
proof -
  let ?n = "section_size (drop off pkt)"
  have s: "section_start pkt' r = Some off" using section_start_prefix [OF assms(1) assms(5) [symmetric] assms(2,3)] .
  have b: "off + ?n \<le> 188" using section_start_bounds [OF assms(1)] by simp
  have i: "pkt' ! j = pkt ! j" if "j < off + 3" for j
    using arg_cong [OF assms(5), of "\<lambda>x. x ! j"] that by simp
  have z: "section_size (drop off pkt') = ?n"
    using section_start_bounds [OF assms(1)] assms(2,3) i [of "off + 1"] i [of "off + 2"] by (simp add: section_size_def)
  have l: "length (take ?n (drop off pkt)) = ?n" "length (take ?n (drop off pkt')) = ?n" using b assms(2,3) by simp_all
  have "tsa_crc32_check (take ?n (drop off pkt)) ?n \<noteq> tsa_crc32_check (take ?n (drop off pkt')) ?n"
    using crc32_burst [OF _ assms(6-8)] l by simp
  moreover have "?n \<le> length (drop off pkt)" "?n \<le> length (drop off pkt')" using b assms(2,3) by simp_all
  ultimately have "tsa_crc32_check (drop off pkt') ?n \<noteq> 0"
    using assms(4) crc32_check_take [of ?n "drop off pkt"] crc32_check_take [of ?n "drop off pkt'"] by simp
  then show ?thesis by (simp add: tsa_section_filter_push_def s z Let_def)
qed

lemma map2_same: "map2 (\<noteq>) b b = replicate (length b) False"
  by (induction b) simp_all

theorem damaged_section_discarded_witness:
  "let s = psi_section 0x00 [0, 1, 0xC1, 0, 0] (pat_payload [(1, 0x100)]);
       h = tsa_create None False False
   in tsa_section_filter_push h 0 (section_packet 0 5 (s[9 := 0x03])) (zero_decode\<lparr>r_pusi := 0x40\<rparr>) =
      Some (set_live (\<lambda>l. l\<lparr>crc_error_alarm := crc_error_alarm l + 1\<rparr>) h)"
proof -
  let ?d = "[0x00, 0xB0 OR hi8 13, lo8 13] @ [0, 1, 0xC1, 0, 0] @ pat_payload [(1, 0x100)]"
  let ?r = "zero_decode\<lparr>r_pusi := 0x40\<rparr>"
  define s where "s = psi_section 0x00 [0, 1, 0xC1, 0, 0] (pat_payload [(1, 0x100)])"
  define c where "c = crc_bytes (mpegts_crc32 ?d (length ?d))"
  have d: "s = ?d @ c" by (simp add: s_def c_def psi_section_def pat_payload_def Let_def)
  have c: "length c = 4" by (simp add: c_def crc_bytes_def)
  have dd: "?d = [0x00, 0xB0, 0x0D, 0, 1, 0xC1, 0, 0, 0, 1, 0xE1, 0]" by code_simp
  have l: "length s = 16" by (simp only: d dd length_append c) simp
  have u: "s[9 := 0x03] = [0x00, 0xB0, 0x0D, 0, 1, 0xC1, 0, 0, 0, 3, 0xE1, 0] @ c"
    by (simp only: d dd) (simp add: numeral_eq_Suc)
  have st: "section_start (section_packet 0 5 s) ?r = Some 5 \<and> drop 5 (section_packet 0 5 s) = s @ replicate 167 0xFF"
    unfolding s_def using section_packet_start [of "[0, 1, 0xC1, 0, 0]" "pat_payload [(1, 0x100)]" ?r 5 0 0]
    by (simp add: zero_decode_def)
  have z: "section_size (s @ replicate 167 0xFF) = 16" using l unfolding s_def by (subst psi_section_size) simp_all
  show ?thesis unfolding Let_def s_def [symmetric]
  proof (rule damaged_section_discarded [where off = 5 and i = 78 and e = "[True]" and k = 49 and pkt = "section_packet 0 5 s"])
    show "tsa_crc32_check (drop 5 (section_packet 0 5 s)) (section_size (drop 5 (section_packet 0 5 s))) = 0"
      using psi_section_crc [of 0 "[0, 1, 0xC1, 0, 0]" "pat_payload [(1, 0x100)]", folded s_def] l st z by simp
    show "take (5 + 3) (section_packet 0 5 (s[9 := 0x03])) = take (5 + 3) (section_packet 0 5 s)"
      unfolding u by (simp only: d dd section_packet_def) (simp add: numeral_eq_Suc)
    have "drop 5 (section_packet 0 5 (s[9 := 0x03])) = s[9 := 0x03] @ replicate 167 0xFF" using l by (simp add: section_packet_def)
    moreover have "map2 (\<noteq>) (buf_bits s) (buf_bits (s[9 := 0x03])) = replicate 78 False @ [True] @ replicate 49 False"
    proof -
      let ?a = "[0x00, 0xB0, 0x0D, 0, 1, 0xC1, 0, 0, 0, 1, 0xE1, 0] :: bytes"
      let ?b = "[0x00, 0xB0, 0x0D, 0, 1, 0xC1, 0, 0, 0, 3, 0xE1, 0] :: bytes"
      have "map2 (\<noteq>) (buf_bits ?a) (buf_bits ?b) =
          replicate 78 False @ [True] @ replicate 17 False" by code_simp
      moreover have "map2 (\<noteq>) (buf_bits c) (buf_bits c) = replicate 32 False" using c by (simp only: map2_same) simp
      moreover have "map2 (\<noteq>) (buf_bits (?a @ c)) (buf_bits (?b @ c)) =
          map2 (\<noteq>) (buf_bits ?a) (buf_bits ?b) @ map2 (\<noteq>) (buf_bits c) (buf_bits c)"
        by (simp only: buf_bits_append) (subst zip_append, simp_all)
      ultimately have "map2 (\<noteq>) (buf_bits (?a @ c)) (buf_bits (?b @ c)) = (replicate 78 False @ [True] @ replicate 17 False) @ replicate 32 False"
        by (simp only:)
      then show ?thesis unfolding u by (simp only: d dd append_assoc) (simp add: replicate_add [symmetric])
    qed
    ultimately show "map2 (\<noteq>) (buf_bits (take (section_size (drop 5 (section_packet 0 5 s))) (drop 5 (section_packet 0 5 s))))
      (buf_bits (take (section_size (drop 5 (section_packet 0 5 s))) (drop 5 (section_packet 0 5 (s[9 := 0x03]))))) =
      replicate 78 False @ [True] @ replicate 49 False" using st z l by simp
  qed (use st l in \<open>simp_all add: section_packet_def\<close>)
qed

section \<open>Invariants\<close>

text \<open>The program table holds distinct non-zero numbers within its bounds.\<close>

definition programs_ok :: "tsa_program_info list \<Rightarrow> bool" where
  "programs_ok ps \<longleftrightarrow> length ps \<le> MAX_PROGRAMS \<and> distinct (map program_number ps) \<and> 0 \<notin> program_number ` set ps \<and>
     (\<forall>q \<in> set ps. length (pi_streams q) \<le> MAX_STREAMS_PER_PROG)"

text \<open>The list of active PIDs and the index of each PID in it are inverse to each other.\<close>

definition tracker_ok :: "tsa_handle \<Rightarrow> bool" where
  "tracker_ok h \<longleftrightarrow> length (h_pid_active_list h) \<le> MAX_ACTIVE_PIDS \<and>
     (\<forall>p i. h_pid_to_active_idx h p = Some i \<longleftrightarrow> i < length (h_pid_active_list h) \<and> h_pid_active_list h ! i = p)"

definition psi_inv :: "tsa_handle \<Rightarrow> bool" where
  "psi_inv h \<longleftrightarrow> programs_ok (h_programs h) \<and> tracker_ok h"

lemma programs_ok_maps: "programs_ok ps \<longleftrightarrow> length (map program_number ps) \<le> MAX_PROGRAMS \<and>
    distinct (map program_number ps) \<and> 0 \<notin> set (map program_number ps) \<and>
    (\<forall>s \<in> set (map pi_streams ps). length s \<le> MAX_STREAMS_PER_PROG)"
  by (simp add: programs_ok_def)

lemma programs_ok_register: "programs_ok (h_programs h) \<Longrightarrow> programs_ok (h_programs (pat_register e h))"
proof -
  assume ok: "programs_ok (h_programs h)"
  obtain pn ppid where e: "e = (pn, ppid)" by (cases e)
  show ?thesis
  proof (cases "set_pmt_pid pn ppid (h_programs h)")
    case None
    then have "pn \<notin> program_number ` set (h_programs h)" by (simp add: set_pmt_pid_None pmt_lookup_None)
    then show ?thesis using ok None by (auto simp: e pat_register_def programs_ok_def)
  next
    case (Some ps)
    then have m: "length ps = length (h_programs h)" "map program_number ps = map program_number (h_programs h)"
      "map pi_streams ps = map pi_streams (h_programs h)" using set_pmt_pid_Some [OF Some] by blast+
    then have "programs_ok ps" using ok unfolding programs_ok_maps m(2,3) by simp
    then show ?thesis using ok Some by (simp add: e pat_register_def)
  qed
qed

lemma programs_ok_fold: "programs_ok (h_programs h) \<Longrightarrow> programs_ok (h_programs (fold pat_register es h))"
  by (induction es arbitrary: h) (simp_all add: programs_ok_register)

lemma set_streams_maps:
  "map program_number (set_streams pid now ss ps) = map program_number ps"
  "length ss \<le> MAX_STREAMS_PER_PROG \<Longrightarrow> \<forall>q \<in> set ps. length (pi_streams q) \<le> MAX_STREAMS_PER_PROG \<Longrightarrow>
    q \<in> set (set_streams pid now ss ps) \<Longrightarrow> length (pi_streams q) \<le> MAX_STREAMS_PER_PROG"
  by (induction ps) (auto split: if_splits)

lemma programs_ok_set_streams:
  assumes "programs_ok ps" "length ss \<le> MAX_STREAMS_PER_PROG"
  shows "programs_ok (set_streams pid now ss ps)"
  using assms set_streams_maps(2) [OF assms(2)] unfolding programs_ok_maps set_streams_maps(1) by auto

lemma pat_register_tracker:
  "h_pid_active_list (pat_register e h) = h_pid_active_list h" "h_pid_to_active_idx (pat_register e h) = h_pid_to_active_idx h"
  by (cases e; simp add: pat_register_def split: option.splits)+

lemma fold_register_tracker:
  "h_pid_active_list (fold pat_register es h) = h_pid_active_list h"
  "h_pid_to_active_idx (fold pat_register es h) = h_pid_to_active_idx h"
  by (induction es arbitrary: h) (simp_all add: pat_register_tracker)

lemma process_pat_inv: "psi_inv h \<Longrightarrow> psi_inv (process_pat h p now)"
  unfolding psi_inv_def process_pat_def tracker_ok_def Let_def fold_register_tracker
  by (auto intro: programs_ok_fold)

lemma process_pmt_inv: "psi_inv h \<Longrightarrow> process_pmt h pid p now = Some h' \<Longrightarrow> psi_inv h'"
  unfolding psi_inv_def process_pmt_def Let_def
  by (auto simp: tracker_ok_def intro!: programs_ok_set_streams split: if_splits)

lemma filter_push_inv: "psi_inv h \<Longrightarrow> tsa_section_filter_push h pid pkt r = Some h' \<Longrightarrow> psi_inv h'"
proof -
  assume a: "psi_inv h" "tsa_section_filter_push h pid pkt r = Some h'"
  have "psi_inv (set_live f h)" for f using a(1) by (simp add: psi_inv_def tracker_ok_def)
  then show ?thesis using a process_pat_inv process_pmt_inv
    by (auto simp: tsa_section_filter_push_def Let_def split: option.splits if_splits)
qed

lemma labels_tracker:
  "h_pid_active_list (tsa_precompile_pid_labels h p) = h_pid_active_list h"
  "h_pid_to_active_idx (tsa_precompile_pid_labels h p) = h_pid_to_active_idx h"
  "h_programs (tsa_precompile_pid_labels h p) = h_programs h"
  by (simp_all add: tsa_precompile_pid_labels_def)

lemma tracker_add:
  assumes "tracker_ok h" "h_pid_to_active_idx h p = None" "length (h_pid_active_list h) < MAX_ACTIVE_PIDS"
  shows "tracker_ok (h\<lparr>h_pid_active_list := h_pid_active_list h @ [p],
    h_pid_to_active_idx := (h_pid_to_active_idx h)(p \<mapsto> length (h_pid_active_list h))\<rparr>)"
proof -
  let ?l = "h_pid_active_list h"
  have i: "h_pid_to_active_idx h q = Some i \<longleftrightarrow> i < length ?l \<and> ?l ! i = q" for q i
    using assms(1) by (simp add: tracker_ok_def)
  have np: "i < length ?l \<Longrightarrow> ?l ! i \<noteq> p" for i using i [of p i] assms(2) by simp
  have "((h_pid_to_active_idx h)(p \<mapsto> length ?l)) q = Some j \<longleftrightarrow> j < length (?l @ [p]) \<and> (?l @ [p]) ! j = q" for q j
    using i [of q j] np [of j] by (auto simp: nth_append less_Suc_eq)
  then show ?thesis using assms(3) by (simp add: tracker_ok_def)
qed

lemma tracker_update_inv: "psi_inv h \<Longrightarrow> psi_inv (snd (tsa_update_pid_tracker h p))"
proof (cases "h_pid_to_active_idx h p")
  case None
  assume "psi_inv h"
  then have t: "tracker_ok h" "programs_ok (h_programs h)" by (simp_all add: psi_inv_def)
  show ?thesis
  proof (cases "length (h_pid_active_list h) < MAX_ACTIVE_PIDS")
    case True
    then show ?thesis using tracker_add [OF t(1) None True] t(2) None
      by (simp add: tsa_update_pid_tracker_def psi_inv_def tracker_ok_def labels_tracker Let_def)
  next
    case False
    then show ?thesis using t None
      by (simp add: tsa_update_pid_tracker_def psi_inv_def tracker_ok_def labels_tracker Let_def)
  qed
qed (simp add: tsa_update_pid_tracker_def)

lemma psi_inv_create: "psi_inv (tsa_create cfg w l)"
  by (simp add: psi_inv_def tsa_create_def programs_ok_def tracker_ok_def Let_def)

text \<open>Packets in sequence; the run stops at a read outside a packet.\<close>

fun psi_run :: "tsa_handle \<Rightarrow> (bytes \<times> ts_decode_result) list \<Rightarrow> tsa_handle option" where
  "psi_run h [] = Some h"
| "psi_run h ((pkt, r) # xs) = (case tsa_psi_process_packet h pkt r of None \<Rightarrow> None | Some h' \<Rightarrow> psi_run h' xs)"

lemma psi_packet_inv: "psi_inv h \<Longrightarrow> tsa_psi_process_packet h pkt r = Some h' \<Longrightarrow> psi_inv h'"
  using tracker_update_inv [of h "r_pid r"] filter_push_inv
  by (auto simp: tsa_psi_process_packet_def Let_def split: if_splits)

text \<open>
  C7. Whatever packets a new analyser is fed, damaged or hostile ones included,
  its tables stay well formed: at most 16 programs, with distinct non-zero
  numbers and at most 32 streams each; at most 128 tracked PIDs, where the list
  of PIDs and the index of each PID are inverse to each other.
\<close>

theorem psi_tables_invariant:
  assumes "psi_run (tsa_create cfg w l) xs = Some h"
  shows "programs_ok (h_programs h) \<and> tracker_ok h"
proof -
  have "psi_run k xs = Some h \<Longrightarrow> psi_inv k \<Longrightarrow> psi_inv h" for k
  proof (induction xs arbitrary: k)
    case (Cons x xs)
    then obtain k' where "tsa_psi_process_packet k (fst x) (snd x) = Some k'" "psi_run k' xs = Some h"
      by (cases x) (auto split: option.splits)
    then show ?case using Cons.IH Cons.prems(2) psi_packet_inv by blast
  qed simp
  then show ?thesis using assms psi_inv_create by (auto simp: psi_inv_def)
qed

theorem psi_tables_invariant_witness:
  "\<exists>h. psi_run (tsa_create None False False) [(replicate 188 0, zero_decode\<lparr>r_pid := 0x21\<rparr>), (replicate 188 0, zero_decode\<lparr>r_pid := 0x22\<rparr>)] = Some h \<and>
    h_pid_active_list h = [0x21, 0x22] \<and> programs_ok (h_programs h) \<and> tracker_ok h"
proof -
  let ?x = "[(replicate 188 0, zero_decode\<lparr>r_pid := 0x21\<rparr>), (replicate 188 0, zero_decode\<lparr>r_pid := 0x22\<rparr>)]"
  have "map_option h_pid_active_list (psi_run (tsa_create None False False) ?x) = Some [0x21, 0x22]"
    by (simp add: tsa_create_def tsa_psi_process_packet_def tsa_update_pid_tracker_def tsa_precompile_pid_labels_def
        zero_decode_def MAX_ACTIVE_PIDS_def TS_PID_MAX_def Let_def)
  then obtain h where "psi_run (tsa_create None False False) ?x = Some h" "h_pid_active_list h = [0x21, 0x22]" by auto
  then show ?thesis using psi_tables_invariant by blast
qed



end
