(* ===== verification/Tsa_Core.thy ===== *)
theory Tsa_Core
  imports Tsa_Event Tsa_Psi
begin

text \<open>
  The operations of \<open>tsa.c\<close> below the packet loop: recovery of 64-bit time
  stamps, the packet decoder with its effects on the handle, the bump
  allocator, and the small updates of the live statistics.
\<close>

section \<open>Time stamps\<close>

definition tsa_recover_pts_64 :: "tsa_handle \<Rightarrow> u16 \<Rightarrow> u64 \<Rightarrow> u64 \<times> tsa_handle" where
  "tsa_recover_pts_64 h pid pts_33 = (let
      es = h_es_tracks h pid;
      last_33 = last_pts_33 (es_pes es);
      offset = pts_rollover_offset es
    in if last_33 = 0x1FFFFFFFF then
         (pts_33, set_es pid (\<lambda>es. es\<lparr>es_pes := (es_pes es)\<lparr>last_pts_33 := pts_33\<rparr>, pts_rollover_offset := 0\<rparr>) h)
       else let
         offset' = (if pts_33 < last_33 \<and> 0x100000000 < last_33 - pts_33 then offset + 0x200000000
                    else if last_33 < pts_33 \<and> 0x100000000 < pts_33 - last_33 \<and> 0x200000000 \<le> offset then offset - 0x200000000
                    else offset)
       in (pts_33 + offset',
           set_es pid (\<lambda>es. es\<lparr>es_pes := (es_pes es)\<lparr>last_pts_33 := pts_33\<rparr>, pts_rollover_offset := offset'\<rparr>) h))"

section \<open>Decoding a packet\<close>

text \<open>\<open>ph\<close> is the uninitialised PES header on the stack.\<close>

definition tsa_decode_packet_pure ::
  "tsa_pes_header \<Rightarrow> tsa_handle \<Rightarrow> bytes \<Rightarrow> ts_decode_result \<times> tsa_handle" where
  "tsa_decode_packet_pure ph h p = (let
      r = decode_header p;
      pay = drop (4 + unat (r_af_len r)) p
    in if r_pusi r \<noteq> 0 \<and> r_has_payload r then
         if 3 \<le> r_payload_len r \<and> pay ! 0 = 0 \<and> pay ! 1 = 0 \<and> pay ! 2 = 1 then
           (case tsa_parse_pes_header pay (r_payload_len r) ph of (rc, ph') \<Rightarrow>
             (if rc = 0 then r\<lparr>r_has_pes_header := True, r_has_pts := ph_has_pts ph', r_has_dts := ph_has_dts ph',
                r_pts := ph_pts ph', r_dts := ph_dts ph'\<rparr> else r, h))
         else if 3 \<le> r_payload_len r \<and> pid_is_referenced (h_live h) (r_pid r) \<and> \<not> h_pid_is_pmt h (r_pid r) \<and> 0x1F < r_pid r then
           (r, tsa_push_event (set_live (\<lambda>s. s\<lparr>pid_pes_errors := (pid_pes_errors s)(r_pid r := pid_pes_errors s (r_pid r) + 1)\<rparr>) h)
             TSA_EVENT_PES_ERROR (r_pid r) 0)
         else (r, h)
       else (r, h))"

definition tsa_decode_packet :: "tsa_pes_header \<Rightarrow> tsa_handle \<Rightarrow> bytes \<Rightarrow> ts_decode_result \<times> tsa_handle" where
  "tsa_decode_packet ph h p = (let (r, h) = tsa_decode_packet_pure ph h p in
     if r_has_pes_header r then let
       (pts, h) = tsa_recover_pts_64 h (r_pid r) (r_pts r);
       (dts, h) = tsa_recover_pts_64 h (r_pid r) (r_dts r)
     in (r\<lparr>r_pts := pts, r_dts := dts\<rparr>, h) else (r, h))"

section \<open>Memory pool and statistics\<close>

text \<open>The result is the offset of the block in the pool; NULL is \<open>None\<close>.\<close>

definition tsa_mem_pool_alloc :: "tsa_handle \<Rightarrow> u64 \<Rightarrow> u64 option \<times> tsa_handle" where
  "tsa_mem_pool_alloc h sz = (let al = (h_pool_offset h + 63) AND NOT 63 in
     if h_pool_size h < al + sz then (None, h)
     else (Some al, h\<lparr>h_pool_offset := al + (if 64 < sz then sz else 64)\<rparr>))"

definition tsa_update_srt_stats :: "tsa_handle \<Rightarrow> tsa_srt_stats \<Rightarrow> tsa_handle" where
  "tsa_update_srt_stats h s = h\<lparr>h_srt_live := s\<rparr>"

definition tsa_update_hls_stats :: "tsa_handle \<Rightarrow> rat \<Rightarrow> u64 \<Rightarrow> tsa_handle" where
  "tsa_update_hls_stats h buffer_ms errors = set_live (\<lambda>s. s\<lparr>hls_buffer_ms := buffer_ms, hls_download_errors := errors\<rparr>) h"

definition tsa_reset_latched_errors :: "tsa_handle \<Rightarrow> tsa_handle" where
  "tsa_reset_latched_errors h = set_live (\<lambda>s. s\<lparr>latched_cc_error := 0\<rparr>) h"

definition tsa_get_pid_tb_fill :: "tsa_handle \<Rightarrow> u16 \<Rightarrow> rat" where
  "tsa_get_pid_tb_fill h p = flt (of_int (drop_bit 64 (tb_fill_q64 (es_tstd (h_es_tracks h p)))))"

definition tsa_get_pid_mb_fill :: "tsa_handle \<Rightarrow> u16 \<Rightarrow> rat" where
  "tsa_get_pid_mb_fill h p = flt (of_int (drop_bit 64 (mb_fill_q64 (es_tstd (h_es_tracks h p)))))"

definition tsa_get_pid_eb_fill :: "tsa_handle \<Rightarrow> u16 \<Rightarrow> rat" where
  "tsa_get_pid_eb_fill h p = flt (of_int (drop_bit 64 (eb_fill_q64 (es_tstd (h_es_tracks h p)))))"

definition tsa_handle_internal_drop :: "tsa_handle \<Rightarrow> u64 \<Rightarrow> tsa_handle" where
  "tsa_handle_internal_drop h drop_count =
    (set_live (\<lambda>s. s\<lparr>internal_analyzer_drop := internal_analyzer_drop s + drop_count\<rparr>) h)
      \<lparr>h_es_tracks := (\<lambda>i. if unat i < TS_PID_MAX \<and> h_pid_seen h i then (h_es_tracks h i)\<lparr>ignore_next_cc := True\<rparr>
                           else h_es_tracks h i)\<rparr>"

definition tsa_get_pid_type_name :: "tsa_handle \<Rightarrow> u16 \<Rightarrow> string" where
  "tsa_get_pid_type_name h p =
    (if TS_PID_MAX \<le> unat p then ''Unknown''
     else if p = 0 then ''PAT''
     else if p = 0x1FFF then ''Stuffing''
     else if h_pid_is_pmt h p then ''PMT''
     else let
       ty = es_stream_type (h_es_tracks h p);
       ty = (if ty = 0 then foldl (\<lambda>ty pr. case find (\<lambda>s. si_pid s = p) (pi_streams pr) of
               None \<Rightarrow> ty | Some s \<Rightarrow> si_stream_type s) 0 (h_programs h) else ty)
     in if ty \<noteq> 0 then tsa_stream_type_to_str ty else ''Unknown'')"

definition tsa_forensic_trigger :: "tsa_handle \<Rightarrow> int \<Rightarrow> bool \<times> tsa_handle" where
  "tsa_forensic_trigger h reason = (let
      s = h_live h;
      c = sync_loss_alarm s + pat_error_alarm s + cc_error_alarm s + pmt_error_alarm s + pid_error_alarm s + crc_error_alarm s
    in if h_last_trigger_reason h = - 1 \<or> h_last_trigger_reason h \<noteq> reason
       then (True, h\<lparr>h_last_trigger_reason := reason, h_last_forensic_alarm_count := c\<rparr>)
       else if h_last_forensic_alarm_count h + 5 < c then (True, h\<lparr>h_last_forensic_alarm_count := c\<rparr>)
       else (False, h))"

section \<open>Unwrapping\<close>

text \<open>The track stands for the unbounded time \<open>t\<close>.\<close>

definition pts_at :: "tsa_handle \<Rightarrow> u16 \<Rightarrow> nat \<Rightarrow> bool" where
  "pts_at h pid t \<longleftrightarrow> t < 2 ^ 63 \<and> t mod 2 ^ 33 \<noteq> 2 ^ 33 - 1 \<and>
     last_pts_33 (es_pes (h_es_tracks h pid)) = of_nat (t mod 2 ^ 33) \<and>
     pts_rollover_offset (h_es_tracks h pid) = of_nat (t div 2 ^ 33 * 2 ^ 33)"

lemma pts_state [simp]:
  "last_pts_33 (es_pes (h_es_tracks (snd (tsa_recover_pts_64 h pid p)) pid)) = p"
  by (simp add: tsa_recover_pts_64_def Let_def)

lemma unat_small: "n < 2 ^ 64 \<Longrightarrow> unat (of_nat n :: u64) = n"
  by (simp add: unat_of_nat_small)

text \<open>The arithmetic of one step, on numbers: \<open>a\<close> and \<open>b\<close> are the residues, \<open>q\<close> and \<open>r\<close> the quotients.\<close>

lemma unwrap_arith:
  fixes q r a b m :: nat
  assumes "a < m" "b < m" "m = 2 ^ 33" "q * m + a < r * m + b + 2 ^ 32" "r * m + b < q * m + a + 2 ^ 32"
  shows "(if b < a \<and> 2 ^ 32 < a - b then q * m + m
          else if a < b \<and> 2 ^ 32 < b - a \<and> m \<le> q * m then q * m - m else q * m) = r * m"
proof -
  have "r = q \<or> r = Suc q \<or> q = Suc r"
  proof (rule ccontr)
    assume "\<not> ?thesis"
    then consider "Suc (Suc q) \<le> r" | "Suc (Suc r) \<le> q" by linarith
    then show False
    proof cases
      case 1
      then have "Suc (Suc q) * m \<le> r * m" by (rule mult_le_mono1)
      then show False using assms by simp
    next
      case 2
      then have "Suc (Suc r) * m \<le> q * m" by (rule mult_le_mono1)
      then show False using assms by simp
    qed
  qed
  then show ?thesis using assms by auto
qed

lemma recover_step:
  assumes "pts_at h pid t" "t' < 2 ^ 63" "t' mod 2 ^ 33 \<noteq> 2 ^ 33 - 1" "t < t' + 2 ^ 32" "t' < t + 2 ^ 32"
  defines "r \<equiv> tsa_recover_pts_64 h pid (of_nat (t' mod 2 ^ 33))"
  shows "fst r = of_nat t'" "pts_at (snd r) pid t'"
proof -
  define m :: nat where "m = 2 ^ 33"
  define a b where "a = t mod m" and "b = t' mod m"
  have ab: "a < m" "b < m" "a < 2 ^ 33" "b < 2 ^ 33" by (simp_all add: a_def b_def m_def)
  define o1 where "o1 = (if b < a \<and> 2 ^ 32 < a - b then t div m * m + m
      else if a < b \<and> 2 ^ 32 < b - a \<and> m \<le> t div m * m then t div m * m - m else t div m * m)"
  have o1: "o1 = t' div m * m"
    unfolding o1_def using assms(4,5) ab by (intro unwrap_arith [where r = "t' div m"]) (simp_all add: a_def b_def m_def)
  have big: "t div m * m < 2 ^ 63"
    using assms(1) by (meson div_times_less_eq_dividend le_less_trans pts_at_def)
  have l: "last_pts_33 (es_pes (h_es_tracks h pid)) = of_nat a" "pts_rollover_offset (h_es_tracks h pid) = of_nat (t div m * m)"
    "a \<noteq> 2 ^ 33 - 1" using assms(1) by (simp_all add: pts_at_def a_def m_def)
  have w: "unat (of_nat a :: u64) = a" "unat (of_nat b :: u64) = b" "unat (of_nat (t div m * m) :: u64) = t div m * m"
    using ab big by (simp_all add: unat_small del: of_nat_mult)
  have lt: "(of_nat b :: u64) < of_nat a \<longleftrightarrow> b < a" "(of_nat a :: u64) < of_nat b \<longleftrightarrow> a < b"
    "0x200000000 \<le> (of_nat (t div m * m) :: u64) \<longleftrightarrow> m \<le> t div m * m"
    using w by (simp_all add: word_less_nat_alt word_le_nat_alt m_def del: of_nat_mult)
  have d1: "b < a \<Longrightarrow> 0x100000000 < (of_nat a - of_nat b :: u64) \<longleftrightarrow> 2 ^ 32 < a - b"
    and d2: "a < b \<Longrightarrow> 0x100000000 < (of_nat b - of_nat a :: u64) \<longleftrightarrow> 2 ^ 32 < b - a"
    using w lt by (simp_all add: word_less_nat_alt unat_sub word_le_nat_alt)
  have n: "(of_nat a :: u64) \<noteq> 0x1FFFFFFFF" using l(3) w(1) by (auto simp: word_eq_iff_unsigned [where 'a = nat])
  have r: "r = (of_nat b + of_nat o1,
      set_es pid (\<lambda>es. es\<lparr>es_pes := (es_pes es)\<lparr>last_pts_33 := of_nat b\<rparr>, pts_rollover_offset := of_nat o1\<rparr>) h)"
  proof -
    have "(if (of_nat b :: u64) < of_nat a \<and> 0x100000000 < (of_nat a :: u64) - of_nat b then of_nat (t div m * m) + 0x200000000
           else if (of_nat a :: u64) < of_nat b \<and> 0x100000000 < (of_nat b :: u64) - of_nat a \<and> 0x200000000 \<le> (of_nat (t div m * m) :: u64)
           then of_nat (t div m * m) - 0x200000000 else of_nat (t div m * m)) = (of_nat o1 :: u64)"
      using lt d1 d2 by (auto simp: o1_def m_def of_nat_diff)
    then show ?thesis unfolding r_def tsa_recover_pts_64_def Let_def l b_def [unfolded m_def, symmetric] using n
      by (simp del: of_nat_mult)
  qed
  have "of_nat b + of_nat o1 = (of_nat t' :: u64)" unfolding o1 b_def by (metis add.commute div_mult_mod_eq of_nat_add)
  then show "fst r = of_nat t'" by (simp add: r)
  show "pts_at (snd r) pid t'" using assms(2,3) by (simp add: r pts_at_def o1 b_def m_def)
qed

fun recover_all :: "tsa_handle \<Rightarrow> u16 \<Rightarrow> u64 list \<Rightarrow> u64 list" where
  "recover_all h pid [] = []"
| "recover_all h pid (p # ps) = (let r = tsa_recover_pts_64 h pid p in fst r # recover_all (snd r) pid ps)"

definition near :: "nat \<Rightarrow> nat \<Rightarrow> bool" where
  "near t t' \<longleftrightarrow> t < t' + 2 ^ 32 \<and> t' < t + 2 ^ 32"

definition pts_ok :: "nat \<Rightarrow> bool" where
  "pts_ok t \<longleftrightarrow> t < 2 ^ 63 \<and> t mod 2 ^ 33 \<noteq> 2 ^ 33 - 1"

lemma recover_all_at:
  assumes "pts_at h pid t" "successively near (t # ts)" "list_all pts_ok ts"
  shows "recover_all h pid (map (\<lambda>t. of_nat (t mod 2 ^ 33)) ts) = map of_nat ts"
  using assms
proof (induction ts arbitrary: h t)
  case (Cons t' ts)
  have n: "t < t' + 2 ^ 32" "t' < t + 2 ^ 32" "t' < 2 ^ 63" "t' mod 2 ^ 33 \<noteq> 2 ^ 33 - 1"
    using Cons.prems by (simp_all add: near_def pts_ok_def)
  note r = recover_step [OF Cons.prems(1) n(3,4,1,2)]
  have "successively near (t' # ts)" "list_all pts_ok ts" using Cons.prems by simp_all
  then show ?case using Cons.IH [OF r(2)] r(1) by (simp add: Let_def)
qed simp

text \<open>
  C24. Recovery of 64-bit time stamps: for any sequence of times that starts
  within the first 33-bit period and moves by less than \<open>2 ^ 32\<close> ticks either way
  from one to the next, decoding the 33-bit residues gives the times back, over
  any number of wraps in both directions, as long as no residue is the value
  \<open>2 ^ 33 - 1\<close> that the track uses as its mark for "no time stamp yet".
\<close>

theorem pts_unwrap_sequence:
  assumes "last_pts_33 (es_pes (h_es_tracks h pid)) = 0x1FFFFFFFF" "t < 2 ^ 33 - 1"
    "successively near (t # ts)" "list_all pts_ok ts"
  shows "recover_all h pid (map (\<lambda>t. of_nat (t mod 2 ^ 33)) (t # ts)) = map of_nat (t # ts)"
proof -
  have t: "t mod 2 ^ 33 = t" "t div 2 ^ 33 = 0" using assms(2) by simp_all
  let ?r = "tsa_recover_pts_64 h pid (of_nat t)"
  have "?r = (of_nat t, set_es pid (\<lambda>es. es\<lparr>es_pes := (es_pes es)\<lparr>last_pts_33 := of_nat t\<rparr>, pts_rollover_offset := 0\<rparr>) h)"
    using assms(1) by (simp add: tsa_recover_pts_64_def Let_def)
  then have "fst ?r = of_nat t" "pts_at (snd ?r) pid t" using assms(2) t by (simp_all add: pts_at_def)
  then show ?thesis using recover_all_at [OF _ assms(3,4)] t by (simp add: Let_def)
qed

theorem pts_unwrap_sequence_witness:
  "recover_all (tsa_create None False False) 256 [8589934000, 100, 8589934500] = [8589934000, 8589934692, 8589934500]"
proof -
  have "successively near (8589934000 # [8589934692, 8589934500])" "list_all pts_ok [8589934692, 8589934500]"
    by (simp_all add: near_def pts_ok_def)
  then show ?thesis
    using pts_unwrap_sequence [of "tsa_create None False False" 256 8589934000 "[8589934692, 8589934500]"]
    by (simp add: new_es_track_def)
qed

section \<open>Blocks of the memory pool\<close>

lemma align_down: "w AND NOT 63 = push_bit 6 (drop_bit 6 w)" for w :: u64
proof -
  have m: "(63 :: u64) = mask 6" by (simp add: mask_eq_exp_minus_1)
  show ?thesis unfolding m by (rule bit_word_eqI) (auto simp: bit_simps)
qed

lemma unat_align_down: "unat (w AND NOT 63) = unat w div 64 * 64" for w :: u64
proof -
  have "unat w div 64 * 64 \<le> unat w" by simp
  then have "unat w div 64 * 64 < 2 ^ 64" using unsigned_less [of w, where 'a = nat] by simp
  then show ?thesis unfolding align_down unsigned_push_bit_eq unsigned_drop_bit_eq
    by (simp add: push_bit_eq_mult drop_bit_eq_div take_bit_eq_mod)
qed

definition pool_ok :: "tsa_handle \<Rightarrow> bool" where
  "pool_ok h \<longleftrightarrow> unat (h_pool_size h) < 2 ^ 62 \<and> unat (h_pool_offset h) \<le> unat (h_pool_size h) + 64"

lemma pool_alloc_step:
  assumes "pool_ok h" "unat sz < 2 ^ 62" "tsa_mem_pool_alloc h sz = (Some al, h')"
  shows "unat al mod 64 = 0 \<and> unat (h_pool_offset h) \<le> unat al \<and> unat al + unat sz \<le> unat (h_pool_size h) \<and>
    unat (h_pool_offset h') = unat al + max (unat sz) 64 \<and> h_pool_size h' = h_pool_size h \<and> pool_ok h'"
proof -
  let ?o = "unat (h_pool_offset h)" and ?s = "unat (h_pool_size h)"
  have "unat (h_pool_offset h + 63) = ?o + 63" using assms(1) by (simp add: pool_ok_def unat_word_ariths)
  moreover have "al = (h_pool_offset h + 63) AND NOT 63"
    using assms(3) by (auto simp: tsa_mem_pool_alloc_def Let_def split: if_splits)
  ultimately have al: "unat al = (?o + 63) div 64 * 64" by (simp only: unat_align_down)
  then have lo: "?o \<le> unat al" "unat al \<le> ?o + 63" by simp_all
  have e: "unat (al + sz) = unat al + unat sz" "unat (al + 64) = unat al + 64"
    using lo assms(1,2) by (simp_all add: pool_ok_def unat_word_ariths)
  have f: "al + sz \<le> h_pool_size h" "h' = h\<lparr>h_pool_offset := al + (if 64 < sz then sz else 64)\<rparr>"
    using assms(3) by (auto simp: tsa_mem_pool_alloc_def Let_def split: if_splits)
  then have hi: "unat al + unat sz \<le> ?s" using e by (simp add: word_le_nat_alt)
  have "unat (h_pool_offset h') = unat al + max (unat sz) 64"
    using e f(2) by (simp add: word_less_nat_alt)
  then show ?thesis using al lo hi f(2) assms(1) by (auto simp: pool_ok_def)
qed

text \<open>The blocks granted for a list of requests, as pairs of offset and size.\<close>

fun alloc_all :: "tsa_handle \<Rightarrow> u64 list \<Rightarrow> (nat \<times> nat) list" where
  "alloc_all h [] = []"
| "alloc_all h (sz # szs) = (case tsa_mem_pool_alloc h sz of
     (None, h') \<Rightarrow> alloc_all h' szs
   | (Some al, h') \<Rightarrow> (unat al, unat sz) # alloc_all h' szs)"

lemma alloc_all_from:
  assumes "pool_ok h" "list_all (\<lambda>sz. unat sz < 2 ^ 62) szs"
  shows "sorted_wrt (\<lambda>(a, n) (b, _). a + max n 64 \<le> b) (alloc_all h szs) \<and>
    (\<forall>(a, n) \<in> set (alloc_all h szs). a mod 64 = 0 \<and> unat (h_pool_offset h) \<le> a \<and> a + n \<le> unat (h_pool_size h))"
  using assms
proof (induction szs arbitrary: h)
  case (Cons sz szs)
  have sz: "unat sz < 2 ^ 62" "list_all (\<lambda>sz. unat sz < 2 ^ 62) szs" using Cons.prems(2) by simp_all
  obtain o1 h' where r: "tsa_mem_pool_alloc h sz = (o1, h')" by (cases "tsa_mem_pool_alloc h sz")
  show ?case
  proof (cases o1)
    case None
    then have "h' = h" using r by (auto simp: tsa_mem_pool_alloc_def Let_def split: if_splits)
    then show ?thesis using Cons.IH [OF Cons.prems(1) sz(2)] r None by simp
  next
    case (Some al)
    note st = pool_alloc_step [OF Cons.prems(1) sz(1) r [unfolded Some]]
    have "pool_ok h'" using st by blast
    note ih = Cons.IH [OF this sz(2)]
    have "unat al + max (unat sz) 64 \<le> b \<and> b mod 64 = 0 \<and> unat (h_pool_offset h) \<le> b \<and> b + n \<le> unat (h_pool_size h)"
      if "(b, n) \<in> set (alloc_all h' szs)" for b n
    proof -
      have b: "b mod 64 = 0" "unat (h_pool_offset h') \<le> b" "b + n \<le> unat (h_pool_size h')" using ih that by auto
      then show ?thesis using st by auto
    qed
    then show ?thesis using ih st r Some by auto
  qed
qed simp



end
