(* ===== verification/Nalu_Sniffer.thy ===== *)
theory Nalu_Sniffer
  imports Bitstream "HOL-Library.Monad_Syntax"
begin

text \<open>
  The NAL unit sniffer (\<open>nalu_sniffer.c\<close>): it classifies an H.264 or H.265 NAL
  unit and reads picture size, profile and level from a sequence parameter
  set. An Exp-Golomb code whose value the bit reader leaves undefined makes
  the result \<open>None\<close>. The lemmas show that a parameter set written to the
  syntax of the standard is read back.
\<close>

datatype tsa_nalu_type =
    NALU_TYPE_UNKNOWN | NALU_TYPE_SPS | NALU_TYPE_PPS | NALU_TYPE_IDR | NALU_TYPE_NON_IDR | NALU_TYPE_SEI

record tsa_nalu_info =
  nalu_type_raw :: u8
  nalu_type_abstract :: tsa_nalu_type
  is_h265 :: bool
  ni_width :: u16
  ni_height :: u16
  ni_profile :: u8
  ni_level :: u8
  ni_is_high_tier :: bool
  ni_chroma_format :: u8
  ni_bit_depth :: u8
  ni_has_cea708 :: bool
  is_slice :: bool
  slice_type :: int
  ni_is_closed_gop :: bool

definition zero_info :: tsa_nalu_info where
  "zero_info = \<lparr>nalu_type_raw = 0, nalu_type_abstract = NALU_TYPE_UNKNOWN, is_h265 = False, ni_width = 0, ni_height = 0,
     ni_profile = 0, ni_level = 0, ni_is_high_tier = False, ni_chroma_format = 0, ni_bit_depth = 0, ni_has_cea708 = False,
     is_slice = False, slice_type = 0, ni_is_closed_gop = False\<rparr>"

section \<open>Reading with an undefined result\<close>

definition rd :: "nat \<Rightarrow> bit_reader \<Rightarrow> (u32 \<times> bit_reader) option" where
  "rd n r = Some (br_read r n)"

definition rd_ue :: "bit_reader \<Rightarrow> (u32 \<times> bit_reader) option" where
  "rd_ue r = (case br_read_ue r of (None, _) \<Rightarrow> None | (Some v, r') \<Rightarrow> Some (v, r'))"

definition rd_se :: "bit_reader \<Rightarrow> (int \<times> bit_reader) option" where
  "rd_se r = (case br_read_se r of (None, _) \<Rightarrow> None | (Some v, r') \<Rightarrow> Some (v, r'))"

section \<open>H.264\<close>

text \<open>The remainder of C, with the sign of the dividend.\<close>

definition rem256 :: "int \<Rightarrow> int" where
  "rem256 a = (if 0 \<le> a then a mod 256 else - ((- a) mod 256))"

fun skip_scaling_list :: "nat \<Rightarrow> int \<Rightarrow> int \<Rightarrow> bit_reader \<Rightarrow> bit_reader option" where
  "skip_scaling_list 0 last_scale next_scale r = Some r"
| "skip_scaling_list (Suc k) last_scale next_scale r =
    (if next_scale \<noteq> 0 then do {
       (delta_scale, r) \<leftarrow> rd_se r;
       let n = rem256 (last_scale + delta_scale + 256);
       skip_scaling_list k (if n = 0 then last_scale else n) n r
     } else skip_scaling_list k last_scale next_scale r)"

text \<open>The lists \<open>i\<close> to \<open>limit - 1\<close>, \<open>k\<close> of them left.\<close>

fun skip_scaling_matrix :: "nat \<Rightarrow> nat \<Rightarrow> bit_reader \<Rightarrow> bit_reader option" where
  "skip_scaling_matrix i 0 r = Some r"
| "skip_scaling_matrix i (Suc k) r = do {
     (present, r) \<leftarrow> rd 1 r;
     r \<leftarrow> (if present \<noteq> 0 then skip_scaling_list (if i < 6 then 16 else 64) 8 8 r else Some r);
     skip_scaling_matrix (i + 1) k r
   }"

definition h264_high_profiles :: "u8 list" where
  "h264_high_profiles = [100, 110, 122, 244, 44, 83, 86, 118, 128, 138, 139, 134]"

definition h264_chroma :: "tsa_nalu_info \<Rightarrow> bit_reader \<Rightarrow> (tsa_nalu_info \<times> bit_reader) option" where
  "h264_chroma out r =
    (if ni_profile out \<in> set h264_high_profiles then do {
       (cf, r) \<leftarrow> rd_ue r;
       let out = out\<lparr>ni_chroma_format := ucast cf\<rparr>;
       (_, r) \<leftarrow> (if ni_chroma_format out = 3 then rd 1 r else Some (0, r));
       (bd, r) \<leftarrow> rd_ue r;
       (_, r) \<leftarrow> rd_ue r;
       (_, r) \<leftarrow> rd 1 r;
       (scaling, r) \<leftarrow> rd 1 r;
       r \<leftarrow> (if scaling \<noteq> 0 then skip_scaling_matrix 0 (if ni_chroma_format out \<noteq> 3 then 8 else 12) r else Some r);
       Some (out\<lparr>ni_bit_depth := ucast (bd + 8)\<rparr>, r)
     } else Some (out\<lparr>ni_chroma_format := 1\<rparr>, r))"

fun skip_ref_offsets :: "nat \<Rightarrow> bit_reader \<Rightarrow> bit_reader option" where
  "skip_ref_offsets 0 r = Some r"
| "skip_ref_offsets (Suc k) r = do { (_, r) \<leftarrow> rd_se r; skip_ref_offsets k r }"

definition h264_poc :: "bit_reader \<Rightarrow> bit_reader option" where
  "h264_poc r = do {
     (pic_order_cnt_type, r) \<leftarrow> rd_ue r;
     if pic_order_cnt_type = 0 then do { (_, r) \<leftarrow> rd_ue r; Some r }
     else if pic_order_cnt_type = 1 then do {
       (_, r) \<leftarrow> rd 1 r;
       (_, r) \<leftarrow> rd_se r;
       (_, r) \<leftarrow> rd_se r;
       (num_ref_frames_in_pic_order_cnt_cycle, r) \<leftarrow> rd_ue r;
       skip_ref_offsets (unat num_ref_frames_in_pic_order_cnt_cycle) r
     } else Some r
   }"

text \<open>The sums of the crop offsets are taken in 32 bits and cut to the 16 bits of the field.\<close>

definition h264_crop :: "bool \<Rightarrow> tsa_nalu_info \<Rightarrow> bit_reader \<Rightarrow> tsa_nalu_info option" where
  "h264_crop frame_mbs_only_flag out r = do {
     (left, r) \<leftarrow> rd_ue r;
     (right, r) \<leftarrow> rd_ue r;
     (top_offset, r) \<leftarrow> rd_ue r;
     (bottom, r) \<leftarrow> rd_ue r;
     let (crop_unit_x, crop_unit_y) =
       (if ni_chroma_format out = 1 then (2, if frame_mbs_only_flag then 2 else 4)
        else if ni_chroma_format out = 2 then (2, if frame_mbs_only_flag then 1 else 2) else (1, 1));
     Some (out\<lparr>ni_width := ucast (ucast (ni_width out) - (left + right) * crop_unit_x :: u32),
       ni_height := ucast (ucast (ni_height out) - (top_offset + bottom) * crop_unit_y :: u32)\<rparr>)
   }"

definition h264_size :: "tsa_nalu_info \<Rightarrow> bit_reader \<Rightarrow> tsa_nalu_info option" where
  "h264_size out r = do {
     (pic_width_in_mbs_minus1, r) \<leftarrow> rd_ue r;
     (pic_height_in_map_units_minus1, r) \<leftarrow> rd_ue r;
     (fmo, r) \<leftarrow> rd 1 r;
     let frame_mbs_only_flag = (fmo \<noteq> 0);
     let hgt = (ucast ((pic_height_in_map_units_minus1 + 1) * 16) :: u16);
     let out = out\<lparr>ni_width := ucast ((pic_width_in_mbs_minus1 + 1) * 16),
       ni_height := (if frame_mbs_only_flag then hgt else hgt * 2)\<rparr>;
     (_, r) \<leftarrow> (if frame_mbs_only_flag then Some (0, r) else rd 1 r);
     (_, r) \<leftarrow> rd 1 r;
     (cropping, r) \<leftarrow> rd 1 r;
     if cropping \<noteq> 0 then h264_crop frame_mbs_only_flag out r else Some out
   }"

definition sniff_h264_sps :: "bytes \<Rightarrow> tsa_nalu_info \<Rightarrow> tsa_nalu_info option" where
  "sniff_h264_sps buf out =
    (if length buf < 10 then Some out
     else do {
       (_, r) \<leftarrow> rd 8 (br_init buf);
       (profile, r) \<leftarrow> rd 8 r;
       (_, r) \<leftarrow> rd 8 r;
       (level, r) \<leftarrow> rd 8 r;
       (_, r) \<leftarrow> rd_ue r;
       (out, r) \<leftarrow> h264_chroma (out\<lparr>ni_profile := ucast profile, ni_level := ucast level\<rparr>) r;
       (_, r) \<leftarrow> rd_ue r;
       r \<leftarrow> h264_poc r;
       (_, r) \<leftarrow> rd_ue r;
       (_, r) \<leftarrow> rd 1 r;
       h264_size out r
     })"

section \<open>H.265\<close>

text \<open>The present flags of the sub-layers, in pairs of profile and level flag.\<close>

fun sub_layer_flags :: "nat \<Rightarrow> bit_reader \<Rightarrow> ((bool \<times> bool) list \<times> bit_reader) option" where
  "sub_layer_flags 0 r = Some ([], r)"
| "sub_layer_flags (Suc k) r = do {
     (p, r) \<leftarrow> rd 1 r;
     (l, r) \<leftarrow> rd 1 r;
     (fs, r) \<leftarrow> sub_layer_flags k r;
     Some ((p \<noteq> 0, l \<noteq> 0) # fs, r)
   }"

fun skip_bits :: "nat list \<Rightarrow> bit_reader \<Rightarrow> bit_reader option" where
  "skip_bits [] r = Some r"
| "skip_bits (n # ns) r = do { (_, r) \<leftarrow> rd n r; skip_bits ns r }"

fun skip_sub_layers :: "(bool \<times> bool) list \<Rightarrow> bit_reader \<Rightarrow> bit_reader option" where
  "skip_sub_layers [] r = Some r"
| "skip_sub_layers ((p, l) # fs) r = do {
     r \<leftarrow> (if p then skip_bits [2, 1, 5, 32, 48] r else Some r);
     r \<leftarrow> (if l then skip_bits [8] r else Some r);
     skip_sub_layers fs r
   }"

definition h265_window :: "tsa_nalu_info \<Rightarrow> bit_reader \<Rightarrow> (tsa_nalu_info \<times> bit_reader) option" where
  "h265_window out r = do {
     (left, r) \<leftarrow> rd_ue r;
     (right, r) \<leftarrow> rd_ue r;
     (top_offset, r) \<leftarrow> rd_ue r;
     (bottom, r) \<leftarrow> rd_ue r;
     let sub_wc = (if ni_chroma_format out = 1 \<or> ni_chroma_format out = 2 then 2 else 1);
     let sub_hc = (if ni_chroma_format out = 1 then 2 else 1);
     Some (out\<lparr>ni_width := ucast (ucast (ni_width out) - (left + right) * sub_wc :: u32),
       ni_height := ucast (ucast (ni_height out) - (top_offset + bottom) * sub_hc :: u32)\<rparr>, r)
   }"

definition sniff_h265_sps :: "bytes \<Rightarrow> tsa_nalu_info \<Rightarrow> tsa_nalu_info option" where
  "sniff_h265_sps buf out =
    (if length buf < 16 then Some out
     else do {
       (_, r) \<leftarrow> rd 16 (br_init buf);
       (_, r) \<leftarrow> rd 4 r;
       (sub, r) \<leftarrow> rd 3 r;
       (_, r) \<leftarrow> rd 1 r;
       (_, r) \<leftarrow> rd 2 r;
       (tier, r) \<leftarrow> rd 1 r;
       (profile, r) \<leftarrow> rd 5 r;
       (_, r) \<leftarrow> rd 32 r;
       (_, r) \<leftarrow> rd 48 r;
       (level, r) \<leftarrow> rd 8 r;
       let n = unat sub;
       (flags, r) \<leftarrow> sub_layer_flags n r;
       r \<leftarrow> (if 0 < n then skip_bits (replicate (8 - n) 2) r else Some r);
       r \<leftarrow> skip_sub_layers flags r;
       (_, r) \<leftarrow> rd_ue r;
       (cf, r) \<leftarrow> rd_ue r;
       let out = out\<lparr>ni_profile := ucast profile, ni_is_high_tier := tier \<noteq> 0, ni_level := ucast level,
         ni_chroma_format := ucast cf\<rparr>;
       (_, r) \<leftarrow> (if ni_chroma_format out = 3 then rd 1 r else Some (0, r));
       (w, r) \<leftarrow> rd_ue r;
       (hgt, r) \<leftarrow> rd_ue r;
       let out = out\<lparr>ni_width := ucast w, ni_height := ucast hgt\<rparr>;
       (win, r) \<leftarrow> rd 1 r;
       (out, r) \<leftarrow> (if win \<noteq> 0 then h265_window out r else Some (out, r));
       (bd, r) \<leftarrow> rd_ue r;
       (_, r) \<leftarrow> rd_ue r;
       Some (out\<lparr>ni_bit_depth := ucast (bd + 8)\<rparr>)
     })"

section \<open>Classification\<close>

text \<open>The marker "GA94" of caption data within the first 128 positions.\<close>

definition sei_has_cea708 :: "bytes \<Rightarrow> bool" where
  "sei_has_cea708 buf \<longleftrightarrow> (\<exists>i \<in> set [0..<min (length buf - 4) 128]. take 4 (drop i buf) = [0x47, 0x41, 0x39, 0x34])"

definition sniff_h265 :: "bytes \<Rightarrow> tsa_nalu_info \<Rightarrow> tsa_nalu_info option" where
  "sniff_h265 buf out = (let
      t = drop_bit 1 (buf ! 0 AND 0x7E);
      out = out\<lparr>nalu_type_raw := t\<rparr>
    in if t = 33 then sniff_h265_sps buf (out\<lparr>nalu_type_abstract := NALU_TYPE_SPS\<rparr>)
       else if t = 34 then Some (out\<lparr>nalu_type_abstract := NALU_TYPE_PPS\<rparr>)
       else if 16 \<le> t \<and> t \<le> 21 then
         Some (out\<lparr>nalu_type_abstract := NALU_TYPE_IDR, is_slice := True, slice_type := 2, ni_is_closed_gop := (t = 19 \<or> t = 20)\<rparr>)
       else if t \<le> 9 then let out = out\<lparr>nalu_type_abstract := NALU_TYPE_NON_IDR, is_slice := True\<rparr> in
         (if 3 \<le> length buf then do {
            (first_slice, r) \<leftarrow> rd 1 (br_init (drop 2 buf));
            if first_slice \<noteq> 0 then do { (_, r) \<leftarrow> rd_ue r; Some (out\<lparr>slice_type := 0\<rparr>) } else Some out
          } else Some out)
       else if t = 39 \<or> t = 40 then Some (out\<lparr>nalu_type_abstract := NALU_TYPE_SEI, ni_has_cea708 := sei_has_cea708 buf\<rparr>)
       else Some out)"

text \<open>\<open>out_info->slice_type\<close> is an \<open>int\<close>: an unsigned slice type out of its range turns negative.\<close>

definition sniff_h264 :: "bytes \<Rightarrow> tsa_nalu_info \<Rightarrow> tsa_nalu_info option" where
  "sniff_h264 buf out = (let
      t = buf ! 0 AND 0x1F;
      out = out\<lparr>nalu_type_raw := t\<rparr>
    in if t = 7 then sniff_h264_sps buf (out\<lparr>nalu_type_abstract := NALU_TYPE_SPS\<rparr>)
       else if t = 8 then Some (out\<lparr>nalu_type_abstract := NALU_TYPE_PPS\<rparr>)
       else if t = 5 then
         Some (out\<lparr>nalu_type_abstract := NALU_TYPE_IDR, is_slice := True, slice_type := 2, ni_is_closed_gop := True\<rparr>)
       else if t = 1 then let out = out\<lparr>nalu_type_abstract := NALU_TYPE_NON_IDR, is_slice := True\<rparr> in do {
         (_, r) \<leftarrow> rd_ue (br_init (drop 1 buf));
         (st, r) \<leftarrow> rd_ue r;
         Some (out\<lparr>slice_type := sint (if 4 < st then st - 5 else st)\<rparr>)
       }
       else if t = 6 then Some (out\<lparr>nalu_type_abstract := NALU_TYPE_SEI, ni_has_cea708 := sei_has_cea708 buf\<rparr>)
       else Some out)"

text \<open>A unit of fewer than two bytes leaves the caller's memory \<open>out_info\<close> as it is.\<close>

definition tsa_nalu_sniff :: "bytes \<Rightarrow> bool \<Rightarrow> tsa_nalu_info \<Rightarrow> tsa_nalu_info option" where
  "tsa_nalu_sniff buf h265 out_info =
    (if length buf < 2 then Some out_info
     else let out = zero_info\<lparr>is_h265 := h265, slice_type := - 1\<rparr> in
       if h265 then sniff_h265 buf out else sniff_h264 buf out)"

section \<open>Parameter sets in the syntax of the standard\<close>

text \<open>The reader stands before the bits \<open>bs\<close>.\<close>

definition feeds :: "bit_reader \<Rightarrow> bool list \<Rightarrow> bool" where
  "feeds r bs \<longleftrightarrow> br_inv r \<and> br_bits r = bs"

lemma feeds_init: "feeds (br_init buf) (buf_bits buf)"
  by (simp add: feeds_def br_init_bits br_init_inv)

text \<open>Stepping over one syntax element in a sequence of reads.\<close>

lemma ue_step:
  assumes "feeds r (ue_code v @ rest)" "v + 1 < 2 ^ 31" "\<And>r'. feeds r' rest \<Longrightarrow> f (of_nat v, r') = res"
  shows "rd_ue r \<bind> f = res"
proof -
  have i: "br_inv r" "br_bits r = ue_code v @ rest" using assms(1) by (simp_all add: feeds_def)
  note u = br_read_ue_code [OF i assms(2)]
  then have "rd_ue r = Some (of_nat v, snd (br_read_ue r))" by (cases "br_read_ue r") (simp add: rd_ue_def)
  moreover have "feeds (snd (br_read_ue r)) rest" using u by (simp add: feeds_def)
  ultimately show ?thesis using assms(3) by simp
qed

lemma se_step:
  assumes "feeds r (se_code v @ rest)" "\<bar>v\<bar> < 2 ^ 30" "\<And>r'. feeds r' rest \<Longrightarrow> f (v, r') = res"
  shows "rd_se r \<bind> f = res"
proof -
  have i: "br_inv r" "br_bits r = se_code v @ rest" using assms(1) by (simp_all add: feeds_def)
  note u = br_read_se_code [OF i assms(2)]
  then have "rd_se r = Some (v, snd (br_read_se r))" by (cases "br_read_se r") (simp add: rd_se_def)
  moreover have "feeds (snd (br_read_se r)) rest" using u by (simp add: feeds_def)
  ultimately show ?thesis using assms(3) by simp
qed

lemma field_step:
  assumes "feeds r (bs @ rest)" "length bs = n" "n \<le> 32" "\<And>r'. feeds r' rest \<Longrightarrow> f (of_nat (bits_val bs), r') = res"
  shows "rd n r \<bind> f = res"
proof -
  have i: "br_inv r" "br_bits r = bs @ rest" using assms(1) by (simp_all add: feeds_def)
  have "br_read r n = (of_nat (bits_val bs), snd (br_read r n))"
    using br_read_peek [of r n] br_peek_spec [OF i(1) assms(3)] i(2) assms(2) by (cases "br_read r n") simp
  moreover have "feeds (snd (br_read r n)) rest"
    using br_read_rest [OF i(1) assms(3)] i(2) assms(2) by (simp add: feeds_def)
  ultimately obtain r' where "br_read r n = (of_nat (bits_val bs), r')" "feeds r' rest" by blast
  then show ?thesis using assms(4) by (simp add: rd_def)
qed

lemma flag_step:
  assumes "feeds r (b # rest)" "\<And>r'. feeds r' rest \<Longrightarrow> f (of_bool b, r') = res"
  shows "rd (Suc 0) r \<bind> f = res"
  using assms by (intro field_step [where bs = "[b]" and rest = rest]) (simp_all add: bits_val_def)

lemma byte_step:
  assumes "feeds r (byte_bits b @ rest)" "\<And>r'. feeds r' rest \<Longrightarrow> f (ucast b, r') = res"
  shows "rd 8 r \<bind> f = res"
proof (rule field_step [OF assms(1)])
  fix r' assume "feeds r' rest"
  moreover have "of_nat (bits_val (byte_bits b)) = (ucast b :: u32)"
    using bits_word_byte [of b] by (simp add: bits_word_def)
  ultimately show "f (of_nat (bits_val (byte_bits b)), r') = res" using assms(2) by simp
qed simp_all

text \<open>
  The bits of an H.264 sequence parameter set (ISO/IEC 14496-10, 7.3.2.1.1)
  up to the cropping window, without scaling matrices.
\<close>

record h264_chroma_syntax =
  hc_chroma_format_idc :: nat
  hc_separate_plane :: bool
  hc_depth_luma_minus8 :: nat
  hc_depth_chroma_minus8 :: nat
  hc_bypass :: bool

datatype h264_poc_syntax = Poc_lsb nat | Poc_cycle bool int int "int list" | Poc_none

record h264_size_syntax =
  hs_width_mbs_minus1 :: nat
  hs_height_units_minus1 :: nat
  hs_frame_mbs_only :: bool
  hs_mb_adaptive :: bool
  hs_direct :: bool
  hs_crop :: "(nat \<times> nat \<times> nat \<times> nat) option"

definition chroma_bits :: "u8 \<Rightarrow> h264_chroma_syntax \<Rightarrow> bool list" where
  "chroma_bits profile c =
    (if profile \<in> set h264_high_profiles
     then ue_code (hc_chroma_format_idc c) @ (if hc_chroma_format_idc c = 3 then [hc_separate_plane c] else []) @
       ue_code (hc_depth_luma_minus8 c) @ ue_code (hc_depth_chroma_minus8 c) @ [hc_bypass c, False]
     else [])"

fun poc_bits :: "h264_poc_syntax \<Rightarrow> bool list" where
  "poc_bits (Poc_lsb n) = ue_code 0 @ ue_code n"
| "poc_bits (Poc_cycle z a b os) = ue_code 1 @ [z] @ se_code a @ se_code b @ ue_code (length os) @ concat (map se_code os)"
| "poc_bits Poc_none = ue_code 2"

definition size_bits :: "h264_size_syntax \<Rightarrow> bool list" where
  "size_bits z = ue_code (hs_width_mbs_minus1 z) @ ue_code (hs_height_units_minus1 z) @ [hs_frame_mbs_only z] @
     (if hs_frame_mbs_only z then [] else [hs_mb_adaptive z]) @ [hs_direct z] @
     (case hs_crop z of None \<Rightarrow> [False]
      | Some (l, r, t, b) \<Rightarrow> True # ue_code l @ ue_code r @ ue_code t @ ue_code b)"

definition h264_sps_bits ::
  "u8 \<Rightarrow> u8 \<Rightarrow> u8 \<Rightarrow> nat \<Rightarrow> h264_chroma_syntax \<Rightarrow> nat \<Rightarrow> h264_poc_syntax \<Rightarrow> nat \<Rightarrow> bool \<Rightarrow> h264_size_syntax \<Rightarrow> bool list" where
  "h264_sps_bits profile constraints level sps_id c log2_frame poc refs gaps z =
     byte_bits 0x67 @ byte_bits profile @ byte_bits constraints @ byte_bits level @ ue_code sps_id @ chroma_bits profile c @
     ue_code log2_frame @ poc_bits poc @ ue_code refs @ [gaps] @ size_bits z"

text \<open>The values the elements may have: Exp-Golomb codes below \<open>2 ^ 31 - 1\<close>.\<close>

definition ue_ok :: "nat \<Rightarrow> bool" where "ue_ok v \<longleftrightarrow> v + 1 < 2 ^ 31"

definition chroma_ok :: "h264_chroma_syntax \<Rightarrow> bool" where
  "chroma_ok c \<longleftrightarrow> hc_chroma_format_idc c \<le> 3 \<and> ue_ok (hc_depth_luma_minus8 c) \<and> ue_ok (hc_depth_chroma_minus8 c)"

fun poc_ok :: "h264_poc_syntax \<Rightarrow> bool" where
  "poc_ok (Poc_lsb n) = ue_ok n"
| "poc_ok (Poc_cycle z a b os) = (list_all (\<lambda>v. \<bar>v\<bar> < 2 ^ 30) (a # b # os) \<and> ue_ok (length os))"
| "poc_ok Poc_none = True"

definition size_ok :: "h264_size_syntax \<Rightarrow> bool" where
  "size_ok z \<longleftrightarrow> ue_ok (hs_width_mbs_minus1 z) \<and> ue_ok (hs_height_units_minus1 z) \<and>
     (case hs_crop z of None \<Rightarrow> True | Some (l, r, t, b) \<Rightarrow> ue_ok l \<and> ue_ok r \<and> ue_ok t \<and> ue_ok b)"

lemma ue_okD: "ue_ok v \<Longrightarrow> v + 1 < 2 ^ 31"
  by (simp add: ue_ok_def)

lemma ue_ok_small [simp]: "ue_ok 0" "ue_ok (Suc 0)" "ue_ok 2"
  by (simp_all add: ue_ok_def)

lemma skip_ref_offsets_step:
  "feeds r (concat (map se_code os) @ rest) \<Longrightarrow> list_all (\<lambda>v. \<bar>v\<bar> < 2 ^ 30) os \<Longrightarrow> (\<And>r'. feeds r' rest \<Longrightarrow> f r' = res) \<Longrightarrow>
    skip_ref_offsets (length os) r \<bind> f = res"
proof (induction os arbitrary: r)
  case (Cons v os)
  have "rd_se r \<bind> (\<lambda>(_, r). skip_ref_offsets (length os) r \<bind> f) = res"
    using Cons by (intro se_step [where v = v and rest = "concat (map se_code os) @ rest"]) simp_all
  then show ?case by (simp add: bind_assoc case_prod_unfold)
qed simp

lemma poc_step:
  assumes "feeds r (poc_bits p @ rest)" "poc_ok p" "\<And>r'. feeds r' rest \<Longrightarrow> f r' = res"
  shows "h264_poc r \<bind> f = res"
proof (cases p)
  case (Poc_lsb n)
  then show ?thesis using assms by (auto simp: h264_poc_def bind_assoc case_prod_unfold ue_ok_def elim!: ue_step)
next
  case (Poc_cycle z a b os)
  show ?thesis using assms Poc_cycle
    by (auto simp: h264_poc_def bind_assoc case_prod_unfold unat_of_nat_small ue_ok_def
        elim!: ue_step flag_step se_step intro!: skip_ref_offsets_step)
next
  case Poc_none
  then show ?thesis using assms by (auto simp: h264_poc_def bind_assoc elim!: ue_step)
qed

text \<open>Cutting a 32-bit value to a narrower field commutes with the arithmetic.\<close>

lemma narrow_of_nat:
  "LENGTH('b) \<le> LENGTH('a) \<Longrightarrow> ucast (of_nat n :: 'a::len word) = (of_nat n :: 'b::len word)"
  by (simp add: unsigned_of_nat word_of_nat_eq_iff take_bit_take_bit min_def)

lemma narrow_of_int:
  "LENGTH('b) \<le> LENGTH('a) \<Longrightarrow> ucast (of_int k :: 'a::len word) = (of_int k :: 'b::len word)"
  by (simp add: unsigned_of_int word_of_int_eq_iff take_bit_take_bit min_def)

lemma narrow_minus:
  fixes w :: "'b::len word"
  assumes "LENGTH('b) \<le> LENGTH('a)"
  shows "ucast (ucast w - of_nat n :: 'a::len word) = w - of_nat n"
proof -
  have "ucast w - of_nat n = (of_int (uint w - int n) :: 'a word)" by simp
  then have "ucast (ucast w - of_nat n :: 'a word) = (of_int (uint w - int n) :: 'b word)"
    by (simp only: narrow_of_int [OF assms])
  then show ?thesis by simp
qed

lemma chroma_step:
  assumes "feeds r (chroma_bits (ni_profile out) c @ rest)" "chroma_ok c"
    "\<And>r'. feeds r' rest \<Longrightarrow> f (out\<lparr>ni_chroma_format := (if ni_profile out \<in> set h264_high_profiles then of_nat (hc_chroma_format_idc c) else 1),
        ni_bit_depth := (if ni_profile out \<in> set h264_high_profiles then of_nat (hc_depth_luma_minus8 c + 8) else ni_bit_depth out)\<rparr>, r') = res"
  shows "h264_chroma out r \<bind> f = res"
proof (cases "ni_profile out \<in> set h264_high_profiles")
  case True
  have c: "ue_ok (hc_chroma_format_idc c)" "ucast (of_nat (hc_chroma_format_idc c) :: u32) = (of_nat (hc_chroma_format_idc c) :: u8)"
    "(of_nat (hc_chroma_format_idc c) :: u8) = 3 \<longleftrightarrow> hc_chroma_format_idc c = 3"
    "ucast (of_nat (hc_depth_luma_minus8 c) + 8 :: u32) = (of_nat (hc_depth_luma_minus8 c) + 8 :: u8)"
  proof -
    have n: "hc_chroma_format_idc c \<in> {0, 1, 2, 3}" using assms(2) by (auto simp: chroma_ok_def)
    then show "ue_ok (hc_chroma_format_idc c)" "(of_nat (hc_chroma_format_idc c) :: u8) = 3 \<longleftrightarrow> hc_chroma_format_idc c = 3"
      by (auto simp: ue_ok_def)
    show "ucast (of_nat (hc_chroma_format_idc c) :: u32) = (of_nat (hc_chroma_format_idc c) :: u8)" by (simp add: narrow_of_nat)
    show "ucast (of_nat (hc_depth_luma_minus8 c) + 8 :: u32) = (of_nat (hc_depth_luma_minus8 c) + 8 :: u8)"
      using narrow_of_nat [of "hc_depth_luma_minus8 c + 8", where 'a = 32 and 'b = 8] by simp
  qed
  show ?thesis using assms True c unfolding chroma_bits_def chroma_ok_def
    by (cases "hc_chroma_format_idc c = 3")
      (auto simp: h264_chroma_def bind_assoc case_prod_unfold Let_def ue_ok_def elim!: ue_step flag_step)
next
  case False
  then show ?thesis using assms by (simp add: h264_chroma_def chroma_bits_def)
qed

text \<open>What the size part means: the crop units depend on the chroma format.\<close>

definition crop_units :: "nat \<Rightarrow> bool \<Rightarrow> nat \<times> nat" where
  "crop_units cf fmo = (if cf = 1 then (2, if fmo then 2 else 4) else if cf = 2 then (2, if fmo then 1 else 2) else (1, 1))"

definition sps_dims :: "nat \<Rightarrow> h264_size_syntax \<Rightarrow> u16 \<times> u16" where
  "sps_dims cf z = (let
      (ux, uy) = crop_units cf (hs_frame_mbs_only z);
      (l, r, t, b) = (case hs_crop z of None \<Rightarrow> (0, 0, 0, 0) | Some c \<Rightarrow> c)
    in (of_nat ((hs_width_mbs_minus1 z + 1) * 16) - of_nat ((l + r) * ux),
        of_nat ((hs_height_units_minus1 z + 1) * 16 * (if hs_frame_mbs_only z then 1 else 2)) - of_nat ((t + b) * uy)))"

lemma crop_reads:
  assumes "feeds r (ue_code a @ ue_code b @ ue_code c @ ue_code d @ rest)" "ue_ok a" "ue_ok b" "ue_ok c" "ue_ok d"
    "cf \<le> 3" "ni_chroma_format out = of_nat cf"
  shows "h264_crop fmo out r = Some (out\<lparr>ni_width := ni_width out - of_nat ((a + b) * fst (crop_units cf fmo)),
    ni_height := ni_height out - of_nat ((c + d) * snd (crop_units cf fmo))\<rparr>)"
proof -
  have n: "cf \<in> {0, 1, 2, 3}" using assms(6) by auto
  define ux uy where "ux = fst (crop_units cf fmo)" and "uy = snd (crop_units cf fmo)"
  have u: "(if ni_chroma_format out = 1 then (2, if fmo then 2 else 4)
        else if ni_chroma_format out = 2 then (2, if fmo then 1 else 2) else (1, 1)) = (of_nat ux :: u32, of_nat uy :: u32)"
    using n unfolding assms(7) by (auto simp: ux_def uy_def crop_units_def)
  have m: "(of_nat a + of_nat b) * of_nat ux = (of_nat ((a + b) * ux) :: u32)"
    "(of_nat c + of_nat d) * of_nat uy = (of_nat ((c + d) * uy) :: u32)" by simp_all
  have w: "ucast (ucast (ni_width out) - of_nat ((a + b) * ux) :: u32) = ni_width out - of_nat ((a + b) * ux)"
    "ucast (ucast (ni_height out) - of_nat ((c + d) * uy) :: u32) = ni_height out - of_nat ((c + d) * uy)"
    by (rule narrow_minus, simp)+
  show ?thesis
    unfolding h264_crop_def u Let_def prod.case ux_def [symmetric] uy_def [symmetric]
    by (rule ue_step [OF assms(1) ue_okD [OF assms(2)]], unfold prod.case,
        erule ue_step [OF _ ue_okD [OF assms(3)]], unfold prod.case,
        erule ue_step [OF _ ue_okD [OF assms(4)]], unfold prod.case,
        erule ue_step [OF _ ue_okD [OF assms(5)]], unfold prod.case m w, rule refl)
qed

lemma size_step:
  assumes "feeds r (ue_code w @ ue_code h @ [fmo] @ rest)" "ue_ok w" "ue_ok h"
    "\<And>r o'. feeds r rest \<Longrightarrow> o' = out\<lparr>ni_width := of_nat ((w + 1) * 16), ni_height := of_nat ((h + 1) * 16 * (if fmo then 1 else 2))\<rparr> \<Longrightarrow>
       do { (_, r) \<leftarrow> (if fmo then Some (0, r) else rd 1 r);
            (_, r) \<leftarrow> rd 1 r;
            (cropping, r) \<leftarrow> rd 1 r;
            if cropping \<noteq> 0 then h264_crop fmo o' r else Some o' } = res"
  shows "h264_size out r = res"
proof -
  have e: "ucast ((of_nat n + 1) * 16 :: u32) = (of_nat ((n + 1) * 16) :: u16)" for n
    using narrow_of_nat [of "(n + 1) * 16", where 'a = 32 and 'b = 16] by (simp add: algebra_simps)
  have o: "(if fmo then of_nat ((h + 1) * 16) else of_nat ((h + 1) * 16) * 2) = (of_nat ((h + 1) * 16 * (if fmo then 1 else 2)) :: u16)"
    by simp
  have f: "((of_bool fmo :: u32) \<noteq> 0) = fmo" by simp
  show ?thesis
    unfolding h264_size_def Let_def
    by (rule ue_step [OF assms(1) ue_okD [OF assms(2)]], unfold prod.case,
        erule ue_step [OF _ ue_okD [OF assms(3)]], unfold prod.case One_nat_def append_Cons append_Nil,
        erule flag_step, unfold prod.case e [unfolded One_nat_def] f o [unfolded One_nat_def], rule assms(4) [unfolded One_nat_def], assumption, rule refl)
qed

lemma size_reads:
  assumes "feeds r (size_bits z @ rest)" "size_ok z" "cf \<le> 3" "ni_chroma_format out = of_nat cf"
  shows "h264_size out r = Some (out\<lparr>ni_width := fst (sps_dims cf z), ni_height := snd (sps_dims cf z)\<rparr>)"
proof (rule size_step)
  let ?crop = "case hs_crop z of None \<Rightarrow> [False] | Some (l, r, t, b) \<Rightarrow> True # ue_code l @ ue_code r @ ue_code t @ ue_code b"
  let ?rest = "(if hs_frame_mbs_only z then [] else [hs_mb_adaptive z]) @ [hs_direct z] @ ?crop @ rest"
  show "feeds r (ue_code (hs_width_mbs_minus1 z) @ ue_code (hs_height_units_minus1 z) @ [hs_frame_mbs_only z] @ ?rest)"
    using assms(1) by (simp add: size_bits_def)
  show "ue_ok (hs_width_mbs_minus1 z)" "ue_ok (hs_height_units_minus1 z)" using assms(2) by (simp_all add: size_ok_def)
  fix r o'
  assume r: "feeds r ?rest" and o: "o' = out\<lparr>ni_width := of_nat ((hs_width_mbs_minus1 z + 1) * 16),
    ni_height := of_nat ((hs_height_units_minus1 z + 1) * 16 * (if hs_frame_mbs_only z then 1 else 2))\<rparr>"
  have cf: "ni_chroma_format o' = of_nat cf" using assms(4) o by simp
  show "do { (_, r) \<leftarrow> (if hs_frame_mbs_only z then Some (0, r) else rd 1 r); (_, r) \<leftarrow> rd 1 r; (cropping, r) \<leftarrow> rd 1 r;
      if cropping \<noteq> 0 then h264_crop (hs_frame_mbs_only z) o' r else Some o' } =
    Some (out\<lparr>ni_width := fst (sps_dims cf z), ni_height := snd (sps_dims cf z)\<rparr>)"
  proof (cases "hs_crop z")
    case None
    have "Some o' = Some (out\<lparr>ni_width := fst (sps_dims cf z), ni_height := snd (sps_dims cf z)\<rparr>)"
      using None o by (simp add: sps_dims_def case_prod_unfold)
    then show ?thesis using r None
      by (cases "hs_frame_mbs_only z") (auto elim!: flag_step)
  next
    case (Some q)
    obtain a b c d where q: "q = (a, b, c, d)" by (cases q)
    have k: "ue_ok a" "ue_ok b" "ue_ok c" "ue_ok d" using assms(2) Some q by (simp_all add: size_ok_def)
    have "h264_crop (hs_frame_mbs_only z) o' r' = Some (out\<lparr>ni_width := fst (sps_dims cf z), ni_height := snd (sps_dims cf z)\<rparr>)"
      if "feeds r' (ue_code a @ ue_code b @ ue_code c @ ue_code d @ rest)" for r'
      unfolding crop_reads [OF that k assms(3) cf] using o by (simp add: sps_dims_def Some q case_prod_unfold Let_def)
    then show ?thesis using r Some q
      by (cases "hs_frame_mbs_only z") (auto elim!: flag_step)
  qed
qed

lemma byte_of_u32: "ucast (ucast b :: u32) = (b :: u8)"
  using narrow_minus [of b 0, where 'a = 32] by simp

lemma h264_sps_reads:
  assumes "buf_bits buf = h264_sps_bits profile constraints level sps_id c log2_frame poc refs gaps z @ rest"
    "10 \<le> length buf" "ue_ok sps_id" "chroma_ok c" "ue_ok log2_frame" "poc_ok poc" "ue_ok refs" "size_ok z"
  defines "high \<equiv> profile \<in> set h264_high_profiles"
  defines "cf \<equiv> (if high then hc_chroma_format_idc c else 1)"
  shows "sniff_h264_sps buf out = Some (out\<lparr>ni_profile := profile, ni_level := level,
    ni_chroma_format := of_nat cf, ni_bit_depth := (if high then of_nat (hc_depth_luma_minus8 c + 8) else ni_bit_depth out),
    ni_width := fst (sps_dims cf z), ni_height := snd (sps_dims cf z)\<rparr>)"
proof -
  note b = assms(1) [unfolded h264_sps_bits_def append_assoc]
  have cf: "cf \<le> 3" using assms(4) by (simp add: cf_def chroma_ok_def)
  show ?thesis
    unfolding sniff_h264_sps_def if_not_P [OF assms(2) [unfolded linorder_not_less [symmetric]]]
    apply (rule byte_step [OF feeds_init [of buf, unfolded b]], unfold prod.case)
    apply (erule byte_step, unfold prod.case)
    apply (erule byte_step, unfold prod.case)
    apply (erule byte_step, unfold prod.case)
    apply (erule ue_step [OF _ ue_okD [OF assms(3)]], unfold prod.case)
    apply (unfold byte_of_u32, rule chroma_step [OF _ assms(4)], simp, unfold prod.case)
    apply (erule ue_step [OF _ ue_okD [OF assms(5)]], unfold prod.case)
    apply (erule poc_step [OF _ assms(6)])
    apply (erule ue_step [OF _ ue_okD [OF assms(7)]], unfold prod.case One_nat_def append_Cons append_Nil)
    apply (erule flag_step, unfold prod.case)
    apply (subst size_reads [OF _ assms(8) cf], assumption)
     apply (simp_all add: cf_def high_def)
    done
qed



end
