(* ===== verification/Tsa_Es.thy ===== *)
theory Tsa_Es
  imports Tsa_Core Nalu_Sniffer "HOL-Library.Sublist"
begin

text \<open>
  Elementary streams (\<open>src/tsa_es.c\<close>): the zero-copy accumulator of PES packets,
  the scan for NAL units in it, the frame and splice statistics, and the
  entropy of the payload.

  A packet argument is its bytes and, for a packet that lies in the pool, its
  index there: the source computes the \<open>tsa_packet_t\<close> around the bytes and
  counts a reference on it, which is undefined for any other buffer. A segment
  of the accumulator is read inside its packet, which \<open>acc_ok\<close> makes true.
\<close>

unbundle bit_operations_syntax

type_synonym packet = "bytes \<times> nat option"

text \<open>
  What the code takes from outside: the wall clock at the unit of an offset,
  \<open>log2\<close> of the C library, whether \<open>ebur128_init\<close> succeeds, and the contents of
  the uninitialised locals \<open>ph\<close> and \<open>info\<close>.
\<close>

record es_env =
  env_utc_ms :: "u32 \<Rightarrow> u64"
  env_log2 :: "rat \<Rightarrow> rat"
  env_ebur128_init :: "u8 \<Rightarrow> u32 \<Rightarrow> bool"
  env_header :: tsa_pes_header
  env_info :: "u32 \<Rightarrow> tsa_nalu_info"

section \<open>Reading the accumulator\<close>

text \<open>The result is the memory from the returned pointer up to \<open>*available\<close> bytes.\<close>

fun get_ptr_from :: "tsa_packet_pool \<Rightarrow> pes_segment list \<Rightarrow> u32 \<Rightarrow> u32 \<Rightarrow> bytes option" where
  "get_ptr_from pool [] current offset = None"
| "get_ptr_from pool ((i, off, len) # segs) current offset =
    (if current \<le> offset \<and> offset < current + ucast len then
       let local_off = offset - current in
       Some (take (unat (ucast len - local_off)) (drop (unat off + unat local_off) (pk_data (pool_packets pool ! i))))
     else get_ptr_from pool segs (current + ucast len) offset)"

definition tsa_pes_get_ptr :: "tsa_packet_pool \<Rightarrow> tsa_pes_acc \<Rightarrow> u32 \<Rightarrow> bytes option" where
  "tsa_pes_get_ptr pool pes offset = get_ptr_from pool (pes_segs pes) 0 offset"

text \<open>
  The copied bytes; the last argument is \<open>len - copied\<close>. A pointer always comes
  with at least one byte.
\<close>

function tsa_pes_copy_data :: "tsa_packet_pool \<Rightarrow> tsa_pes_acc \<Rightarrow> u32 \<Rightarrow> nat \<Rightarrow> bytes" where
  "tsa_pes_copy_data pool pes offset n =
    (if n = 0 then []
     else case tsa_pes_get_ptr pool pes offset of
       None \<Rightarrow> []
     | Some p \<Rightarrow> let to_copy = min n (length p) in
         if to_copy = 0 then [] else take to_copy p @ tsa_pes_copy_data pool pes (offset + of_nat to_copy) (n - to_copy))"
  by pat_completeness auto
termination by (relation "measure (\<lambda>(_, _, _, n). n)") auto

declare tsa_pes_copy_data.simps [simp del]

definition tsa_pes_check_start_code :: "tsa_packet_pool \<Rightarrow> tsa_pes_acc \<Rightarrow> u32 \<Rightarrow> bool" where
  "tsa_pes_check_start_code pool pes offset \<longleftrightarrow> tsa_pes_copy_data pool pes offset 3 = [0, 0, 1]"

section \<open>Level limits\<close>

definition h264_base_kbps :: "u8 \<Rightarrow> u32" where
  "h264_base_kbps level =
    (case map_of [(10, 64), (11, 192), (12, 384), (13, 768), (20, 2000), (21, 4000), (22, 4000), (30, 10000), (31, 14000),
       (32, 20000), (40, 20000), (41, 50000), (42, 50000), (50, 135000), (51, 240000), (52, 240000)] level of
       None \<Rightarrow> 20000 | Some b \<Rightarrow> b)"

text \<open>The products with 1.25, 3 and 4 are exact doubles, and so is the truncated result.\<close>

definition get_h264_max_bitrate_kbps :: "u8 \<Rightarrow> u8 \<Rightarrow> u32" where
  "get_h264_max_bitrate_kbps profile level = (let
      factor = (if profile = 100 then 5 / 4 else if profile = 110 then 3 else if 122 \<le> profile then 4 else 1)
    in of_int (trunc (dbl (of_int (uint (h264_base_kbps level)) * factor))))"

definition h265_base_kbps :: "u8 \<Rightarrow> u32" where
  "h265_base_kbps level =
    (case map_of [(30, 128), (60, 1500), (63, 3000), (90, 6000), (93, 10000), (120, 12000), (123, 20000), (150, 25000),
       (153, 40000), (156, 60000), (180, 60000), (183, 120000), (186, 240000)] level of
       None \<Rightarrow> 20000 | Some b \<Rightarrow> b)"

definition get_h265_max_bitrate_kbps :: "bool \<Rightarrow> u8 \<Rightarrow> u32" where
  "get_h265_max_bitrate_kbps is_high_tier level = (let base_br = h265_base_kbps level in
    if is_high_tier \<and> 150 \<le> level then base_br * 4
    else if is_high_tier \<and> 120 \<le> level then base_br * 5 div 2 else base_br)"

definition tsa_tstd_sync_params :: "tsa_es_track \<Rightarrow> tsa_es_track" where
  "tsa_tstd_sync_params es = (let
      st = es_stream_type es;
      v = es_video es;
      max_br_kbps = (if tsa_is_h264 st then get_h264_max_bitrate_kbps (v_profile v) (v_level v)
                     else if tsa_is_hevc st then get_h265_max_bitrate_kbps (v_is_high_tier v) (v_level v) else 0)
    in if 0 < max_br_kbps
       then es\<lparr>es_tstd := (es_tstd es)\<lparr>leak_rate_eb := ucast max_br_kbps * 1000 * 12 div 10,
              leak_rate_rx := ucast max_br_kbps * 1000 * 2\<rparr>\<rparr>
       else es)"

section \<open>Supplemental information\<close>

definition ltn_uuid_sei_timestamp :: bytes where
  "ltn_uuid_sei_timestamp = [0x59, 0x96, 0xFF, 0x28, 0x17, 0xCA, 0x41, 0x96, 0x8D, 0xE3, 0xE5, 0x3F, 0xE2, 0xF9, 0x92, 0xAE]"

text \<open>\<open>memmem\<close>: the first position where the needle occurs.\<close>

definition memmem :: "bytes \<Rightarrow> bytes \<Rightarrow> nat option" where
  "memmem hay needle = find (\<lambda>k. take (length needle) (drop k hay) = needle) [0..<Suc (length hay)]"

text \<open>A field of the identifier block: bytes 0, 1, 3 and 4 of its six.\<close>

definition sei_field :: "bytes \<Rightarrow> nat \<Rightarrow> u32" where
  "sei_field p i = push_bit 24 (ucast (p ! (6 * i))) OR push_bit 16 (ucast (p ! (6 * i + 1))) OR
     push_bit 8 (ucast (p ! (6 * i + 3))) OR ucast (p ! (6 * i + 4))"

definition sei_latency :: "u64 \<Rightarrow> bytes \<Rightarrow> tsa_video \<Rightarrow> tsa_video" where
  "sei_latency now_ms p v = (let
      ms = (\<lambda>i. ucast (sei_field p i) * 1000 + ucast (sei_field p (i + 1)) div 1000 :: u64);
      begin_ms = ms 4; end_ms = ms 6;
      v = (if begin_ms \<le> end_ms then v\<lparr>encoder_latency_ms := end_ms - begin_ms\<rparr> else v);
      v = (if end_ms \<le> now_ms then v\<lparr>network_latency_ms := now_ms - end_ms\<rparr> else v)
    in v\<lparr>last_sei_utc_ms := end_ms\<rparr>)"

abbreviation set_video :: "u16 \<Rightarrow> (tsa_video \<Rightarrow> tsa_video) \<Rightarrow> tsa_handle \<Rightarrow> tsa_handle" where
  "set_video pid f h \<equiv> set_es pid (\<lambda>es. es\<lparr>es_video := f (es_video es)\<rparr>) h"

abbreviation set_pes :: "u16 \<Rightarrow> (tsa_pes_acc \<Rightarrow> tsa_pes_acc) \<Rightarrow> tsa_handle \<Rightarrow> tsa_handle" where
  "set_pes pid f h \<equiv> set_es pid (\<lambda>es. es\<lparr>es_pes := f (es_pes es)\<rparr>) h"

definition tsa_handle_sei :: "u64 \<Rightarrow> tsa_handle \<Rightarrow> u16 \<Rightarrow> bytes \<Rightarrow> tsa_handle" where
  "tsa_handle_sei now_ms h pid payload = (let
      h = (if h_lua h then h\<lparr>h_outbox := h_outbox h @ [Lua_section (es_pid (h_es_tracks h pid)) 0x06 payload]\<rparr> else h)
    in if length payload < 64 then h
       else case memmem payload ltn_uuid_sei_timestamp of
         None \<Rightarrow> h
       | Some k \<Rightarrow> if length payload - k < 64 then h else set_video pid (sei_latency now_ms (drop (k + 16) payload)) h)"

section \<open>Units and frames\<close>

definition note_sps :: "tsa_nalu_info \<Rightarrow> tsa_es_track \<Rightarrow> tsa_es_track" where
  "note_sps info es = (let v = es_video es in tsa_tstd_sync_params (es\<lparr>es_video := v\<lparr>
      v_profile := ni_profile info, v_level := ni_level info, v_is_high_tier := ni_is_high_tier info,
      v_chroma_format := ni_chroma_format info,
      v_bit_depth := (if 0 < ni_bit_depth info then ni_bit_depth info else v_bit_depth v),
      v_width := (if 0 < ni_width info then ni_width info else v_width v),
      v_height := (if 0 < ni_height info then ni_height info else v_height v)\<rparr>\<rparr>))"

text \<open>
  The distance of the splice point: the product is unsigned, so the quotient of
  a negative distance is not its negative. \<open>abs\<close> of the least \<open>int\<close> is undefined.
\<close>

definition splice_error :: "u64 \<Rightarrow> u64 \<Rightarrow> int" where
  "splice_error cur_pts target = sint ((cur_pts - target) * 1000000 div 90 :: u64)"

definition audit_splice :: "tsa_handle \<Rightarrow> u16 \<Rightarrow> tsa_handle option" where
  "audit_splice h pid = (let es = h_es_tracks h pid; sp = es_scte35 es in
    if pending_splice sp then let
      err = splice_error (last_pts_33 (es_pes es)) (target_pts sp);
      n = sint (of_int err :: u32);
      h = set_es pid (\<lambda>es. es\<lparr>es_scte35 := (es_scte35 es)\<lparr>alignment_error_ns := err\<rparr>\<rparr>) h
    in if n = - (2 ^ 31) then None
       else Some (set_es pid (\<lambda>es. es\<lparr>es_scte35 := (es_scte35 es)\<lparr>pending_splice := False\<rparr>\<rparr>)
                   (tsa_push_event h TSA_EVENT_SCTE35 pid (of_int \<bar>n\<bar>)))
    else Some h)"

definition note_gop :: "bool \<Rightarrow> tsa_video \<Rightarrow> tsa_video" where
  "note_gop cl v = (let v = v\<lparr>v_is_closed_gop := cl\<rparr> in
    if cl then v\<lparr>closed_gops := closed_gops v + 1\<rparr> else v\<lparr>open_gops := open_gops v + 1\<rparr>)"

definition count_idr_frame :: "tsa_es_track \<Rightarrow> tsa_es_track" where
  "count_idr_frame es = (let
      pes = es_pes es; v = es_video es; ft = current_frame_type pes;
      v = (if ft = Some CHR ''P'' then v\<lparr>p_frames := p_frames v - 1\<rparr>
           else if ft = Some CHR ''B'' then v\<lparr>b_frames := b_frames v - 1\<rparr> else v);
      g = gop_structure v
    in if ft = Some CHR ''I'' then es
       else es\<lparr>es_pes := pes\<lparr>current_frame_type := Some CHR ''I''\<rparr>,
              es_video := v\<lparr>i_frames := i_frames v + 1,
                gop_structure := (if g \<noteq> [] then butlast g @ [CHR ''I''] else [CHR ''I''])\<rparr>\<rparr>)"

definition count_slice :: "bool \<Rightarrow> int \<Rightarrow> tsa_es_track \<Rightarrow> tsa_es_track \<times> bool" where
  "count_slice frame_counted st es = (let pes = es_pes es; v = es_video es in
    if st = 2 then
      (if current_frame_type pes = Some CHR ''I'' then es
       else es\<lparr>es_pes := pes\<lparr>current_frame_type := Some CHR ''I''\<rparr>, es_video := v\<lparr>i_frames := i_frames v + 1\<rparr>\<rparr>, frame_counted)
    else if frame_counted then (es, frame_counted)
    else let
      ftype = (if st = 1 then CHR ''B'' else CHR ''P'');
      v = (if st = 1 then v\<lparr>b_frames := b_frames v + 1\<rparr> else v\<lparr>p_frames := p_frames v + 1\<rparr>);
      v = (if length (gop_structure v) < 127 then v\<lparr>gop_structure := gop_structure v @ [ftype]\<rparr> else v)
    in (es\<lparr>es_pes := pes\<lparr>current_frame_type := Some ftype\<rparr>, es_video := v\<rparr>, True))"

definition note_unit :: "u64 \<Rightarrow> tsa_nalu_info \<Rightarrow> tsa_handle \<Rightarrow> u16 \<Rightarrow> bytes \<Rightarrow> bool \<Rightarrow> (tsa_handle \<times> bool) option" where
  "note_unit now_ms info h pid d frame_counted = (case nalu_type_abstract info of
      NALU_TYPE_SPS \<Rightarrow> Some (set_es pid (note_sps info) h, frame_counted)
    | NALU_TYPE_SEI \<Rightarrow> let h = tsa_handle_sei now_ms h pid d in
        Some (if ni_has_cea708 info then set_video pid (\<lambda>v. v\<lparr>v_has_cea708 := True, last_cc_seen_ns := h_stc_ns h\<rparr>) h else h,
              frame_counted)
    | NALU_TYPE_IDR \<Rightarrow> map_option (\<lambda>h. (set_es pid count_idr_frame h, True))
        (audit_splice (set_video pid (note_gop (ni_is_closed_gop info)) h) pid)
    | _ \<Rightarrow> if is_slice info
        then let (es, fc) = count_slice frame_counted (slice_type info) (h_es_tracks h pid) in Some (set_es pid (\<lambda>_. es) h, fc)
        else Some (h, frame_counted))"

text \<open>The unit behind a start code at \<open>offset\<close>.\<close>

definition visit_unit :: "es_env \<Rightarrow> tsa_handle \<Rightarrow> u16 \<Rightarrow> bool \<Rightarrow> u32 \<Rightarrow> bool \<Rightarrow> (tsa_handle \<times> bool) option" where
  "visit_unit env h pid hevc offset frame_counted = (let
      get = tsa_pes_get_ptr (h_pkt_pool h) (es_pes (h_es_tracks h pid));
      data_off = (case get (offset + 3) of Some (b # _) \<Rightarrow> if b = 1 then offset + 4 else offset + 3 | _ \<Rightarrow> offset + 3)
    in case get data_off of
         Some d \<Rightarrow> if d = [] then Some (h, frame_counted) else do {
           info \<leftarrow> tsa_nalu_sniff d hevc (env_info env offset);
           note_unit (env_utc_ms env offset) info h pid d frame_counted
         }
       | None \<Rightarrow> Some (h, frame_counted))"

text \<open>
  The scan. Its rounds are bounded by the first argument, and running out of
  rounds is a result of its own.
\<close>

datatype scan_end = Scan_done tsa_handle | Scan_undefined | Scan_rounds

fun scan_units :: "nat \<Rightarrow> es_env \<Rightarrow> tsa_handle \<Rightarrow> u16 \<Rightarrow> bool \<Rightarrow> u32 \<Rightarrow> u32 \<Rightarrow> bool \<Rightarrow> scan_end" where
  "scan_units 0 env h pid hevc total_len offset frame_counted = Scan_rounds"
| "scan_units (Suc k) env h pid hevc total_len offset frame_counted = (let pes = es_pes (h_es_tracks h pid) in
    if \<not> offset + 4 \<le> total_len then Scan_done h
    else case tsa_pes_get_ptr (h_pkt_pool h) pes offset of
      None \<Rightarrow> Scan_done h
    | Some p \<Rightarrow> if 0 \<notin> set p then scan_units k env h pid hevc total_len (offset + of_nat (length p)) frame_counted
        else let offset = offset + of_nat (length (takeWhile (\<lambda>b. b \<noteq> 0) p)) in
          if total_len < offset + 3 then Scan_done h
          else if tsa_pes_check_start_code (h_pkt_pool h) pes offset then
            (case visit_unit env h pid hevc offset frame_counted of
               None \<Rightarrow> Scan_undefined
             | Some (h, fc) \<Rightarrow> scan_units k env h pid hevc total_len (offset + 3) fc)
          else scan_units k env h pid hevc total_len (offset + 1) frame_counted)"

definition tsa_handle_es_payload :: "es_env \<Rightarrow> tsa_handle \<Rightarrow> u16 \<Rightarrow> tsa_handle option" where
  "tsa_handle_es_payload env h pid = (let
      es = h_es_tracks h pid; pes = es_pes es;
      header_buf = tsa_pes_copy_data (h_pkt_pool h) pes 0 32;
      (rc, ph) = tsa_parse_pes_header header_buf (int (length header_buf)) (env_header env);
      st_id = es_stream_type es
    in if pes_total_length pes < 6 \<or> rc \<noteq> 0 \<or> \<not> tsa_is_h264 st_id \<and> \<not> tsa_is_hevc st_id then Some h
       else case scan_units (Suc (unat (pes_total_length pes))) env h pid (tsa_is_hevc st_id) (pes_total_length pes)
                  (of_int (ph_header_len ph)) False of
         Scan_done h \<Rightarrow> Some h | Scan_undefined \<Rightarrow> None | Scan_rounds \<Rightarrow> None)"

section \<open>The accumulator\<close>

definition TSA_PES_MAX_REFS :: nat where "TSA_PES_MAX_REFS = 16384"

text \<open>\<open>None\<close> is a return to the pool that spins forever.\<close>

fun unref_all :: "tsa_packet_pool \<Rightarrow> pes_segment list \<Rightarrow> tsa_packet_pool option" where
  "unref_all pool [] = Some pool"
| "unref_all pool ((i, _, _) # segs) = do { pool \<leftarrow> tsa_packet_unref pool i; unref_all pool segs }"

definition tsa_es_track_clear_accumulator :: "tsa_handle \<Rightarrow> u16 \<Rightarrow> tsa_handle option" where
  "tsa_es_track_clear_accumulator h pid = (let segs = pes_segs (es_pes (h_es_tracks h pid)) in do {
     pool \<leftarrow> (if length segs \<le> TSA_PES_MAX_REFS then unref_all (h_pkt_pool h) segs else Some (h_pkt_pool h));
     Some (set_pes pid (\<lambda>pes. pes\<lparr>pes_segs := [], pes_total_length := 0, current_frame_type := None\<rparr>)
       (h\<lparr>h_pkt_pool := pool\<rparr>)) })"

definition note_frame_size :: "tsa_es_track \<Rightarrow> tsa_es_track" where
  "note_frame_size es = (let v = es_video es; n = ucast (pes_total_length (es_pes es)) in es\<lparr>es_video :=
     (case current_frame_type (es_pes es) of
        Some c \<Rightarrow> if c = CHR ''I'' then v\<lparr>i_frame_size_bytes := i_frame_size_bytes v + n\<rparr>
          else if c = CHR ''P'' then v\<lparr>p_frame_size_bytes := p_frame_size_bytes v + n\<rparr>
          else if c = CHR ''B'' then v\<lparr>b_frame_size_bytes := b_frame_size_bytes v + n\<rparr> else v
      | None \<Rightarrow> v)\<rparr>)"

definition queue_au :: "tsa_es_track \<Rightarrow> tsa_es_track" where
  "queue_au es = (let q = es_au_q es; next_tail = (au_tail q + 1) mod 32 in
    if 0 < pending_dts_ns (es_pes es) \<and> next_tail \<noteq> au_head q
    then es\<lparr>es_au_q := q\<lparr>au_slots := (au_slots q)[unat (au_tail q) := (pending_dts_ns (es_pes es), pes_total_length (es_pes es) * 8)],
           au_tail := next_tail\<rparr>\<rparr>
    else es)"

definition finish_pes :: "es_env \<Rightarrow> tsa_handle \<Rightarrow> u16 \<Rightarrow> tsa_handle option" where
  "finish_pes env h pid =
    (if pes_segs (es_pes (h_es_tracks h pid)) = [] then Some h
     else do {
       h \<leftarrow> tsa_handle_es_payload env h pid;
       tsa_es_track_clear_accumulator (set_es pid (\<lambda>es. queue_au (note_frame_size es)) h) pid
     })"

definition to_u32 :: "rat \<Rightarrow> u32 option" where
  "to_u32 x = (if - 1 < x \<and> x < 2 ^ 32 then Some (of_int (trunc x)) else None)"

definition note_dts :: "ts_decode_result \<Rightarrow> tsa_es_track \<Rightarrow> tsa_es_track option" where
  "note_dts res es = (let
      pes = es_pes es;
      dts_ticks = (if r_has_dts res then r_dts res else if r_has_pts res then r_pts res else 0)
    in do {
      dts_ticks \<leftarrow> (if dts_ticks = 0 \<and> 0 < last_dts_33 pes then do {
          increment \<leftarrow> (if 0 < exact_fps (es_video es) then to_u32 (flt (90000 / exact_fps (es_video es))) else Some 3600);
          Some (last_dts_33 pes + ucast increment)
        } else Some dts_ticks);
      Some (if 0 < dts_ticks
            then es\<lparr>es_pes := pes\<lparr>pending_dts_ns := dts_ticks * 1000000 div 90, last_dts_33 := dts_ticks\<rparr>\<rparr> else es)
    })"

definition pts_offset_ms :: "u64 \<Rightarrow> u64 \<Rightarrow> rat" where
  "pts_offset_ms pts stc = dbl (dbl (of_u64 pts / 90) - dbl (of_u64 stc / 1000000))"

definition note_jitter_ms :: "u64 \<Rightarrow> u64 \<Rightarrow> tsa_es_track \<Rightarrow> tsa_es_track option" where
  "note_jitter_ms pts stc es = (let
      offset_ms = pts_offset_ms pts stc;
      jitter_ms = \<bar>dbl (offset_ms - pts_offset_ms (last_pts_val es) (last_pts_vstc es))\<bar>
    in do {
      es \<leftarrow> (if 1 < pts_count es then do {
          j \<leftarrow> to_i64 (dbl (jitter_ms * 90));
          Some (es\<lparr>pts_offset_ms_avg := dbl (dbl (dbl (pts_offset_ms_avg es * of_u64 (pts_count es - 1)) + offset_ms) / of_u64 (pts_count es)),
            pts_offset_ms_max := (if \<bar>pts_offset_ms_max es\<bar> < \<bar>offset_ms\<bar> then offset_ms else pts_offset_ms_max es),
            pts_jitter_ms_peak := (if pts_jitter_ms_peak es < jitter_ms then jitter_ms else pts_jitter_ms_peak es),
            pts_jitter_q64 := j * 2 ^ 64\<rparr>)
        } else Some es);
      Some (es\<lparr>last_pts_val := pts, last_pts_vstc := stc, pts_count := pts_count es + 1\<rparr>)
    })"

definition note_pes_header :: "u64 \<Rightarrow> ts_decode_result \<Rightarrow> tsa_es_track \<Rightarrow> tsa_es_track option" where
  "note_pes_header stc res es =
    (if r_has_pes_header res then do {
       es \<leftarrow> note_dts res es;
       es \<leftarrow> (if r_has_pts res then note_jitter_ms (r_pts res) stc es else Some es);
       Some (es\<lparr>es_pes := (es_pes es)\<lparr>last_pts_33 := r_pts res, pes_has_pts := r_has_pts res, pes_has_dts := r_has_dts res\<rparr>\<rparr>)
     } else Some es)"

section \<open>Entropy\<close>

definition calculate_shannon_entropy :: "(rat \<Rightarrow> rat) \<Rightarrow> u32 list \<Rightarrow> rat" where
  "calculate_shannon_entropy log2 counts = (let total = foldl (\<lambda>t c. t + ucast c) (0 :: u64) counts in
    if total = 0 then 0
    else foldl (\<lambda>e c. if 0 < c then let p = dbl (of_int (uint c) / of_u64 total) in dbl (e - dbl (p * log2 p)) else e) 0 counts)"

definition count_bytes :: "bytes \<Rightarrow> (u8 \<Rightarrow> u32) \<Rightarrow> u8 \<Rightarrow> u32" where
  "count_bytes payload counts = fold (\<lambda>b c. c(b := c b + 1)) payload counts"

definition track_entropy :: "es_env \<Rightarrow> tsa_handle \<Rightarrow> u16 \<Rightarrow> bytes \<Rightarrow> tsa_handle option" where
  "track_entropy env h pid payload = (let
      h = set_video pid (\<lambda>v. v\<lparr>entropy_counts := count_bytes payload (entropy_counts v), entropy_pkts_seen := entropy_pkts_seen v + 1\<rparr>) h;
      v = es_video (h_es_tracks h pid);
      window = (if entropy_window_packets (h_config h) = 0 then 1000 else entropy_window_packets (h_config h))
    in if entropy_pkts_seen v < window then Some h
       else let
         e = calculate_shannon_entropy (env_log2 env) (map (\<lambda>i. entropy_counts v (of_nat i)) [0..<256]);
         h = set_video pid (\<lambda>v. v\<lparr>last_entropy := e\<rparr>) h
       in do {
         h \<leftarrow> (if e < 1 then do { n \<leftarrow> to_u64 (dbl (e * 100)); Some (tsa_push_event h TSA_EVENT_ENTROPY_FREEZE pid n) } else Some h);
         Some (set_video pid (\<lambda>v. v\<lparr>entropy_pkts_seen := 0, entropy_counts := (\<lambda>_. 0)\<rparr>) h)
       })"

text \<open>Lines 469 to 500: the packet becomes a segment and a reference is counted on it.\<close>

definition append_packet :: "es_env \<Rightarrow> tsa_handle \<Rightarrow> u16 \<Rightarrow> packet \<Rightarrow> ts_decode_result \<Rightarrow> tsa_handle option" where
  "append_packet env h pid pkt res =
    (if TSA_PES_MAX_REFS \<le> length (pes_segs (es_pes (h_es_tracks h pid))) then Some h
     else do {
       i \<leftarrow> snd pkt;
       let h = set_pes pid (\<lambda>pes. pes\<lparr>pes_segs := pes_segs pes @ [(i, 4 + ucast (r_af_len res), of_int (r_payload_len res))],
                 pes_total_length := pes_total_length pes + of_int (r_payload_len res)\<rparr>) h;
       let h = h\<lparr>h_pkt_pool := tsa_packet_ref (h_pkt_pool h) i\<rparr>;
       if tsa_is_video (es_stream_type (h_es_tracks h pid)) \<and> 0 < r_payload_len res
       then track_entropy env h pid (take (nat (r_payload_len res)) (drop (4 + unat (r_af_len res)) (fst pkt)))
       else Some h
     })"

definition tsa_es_track_push_packet :: "es_env \<Rightarrow> tsa_handle \<Rightarrow> u16 \<Rightarrow> packet \<Rightarrow> ts_decode_result \<Rightarrow> tsa_handle option" where
  "tsa_es_track_push_packet env h pid pkt res =
    (if r_pusi res = 0 \<and> (\<not> r_has_payload res \<or> r_payload_len res = 0) then Some h
     else do {
       h \<leftarrow> (if r_pusi res \<noteq> 0 then do {
           h \<leftarrow> finish_pes env h pid;
           es \<leftarrow> note_pes_header (h_stc_ns h) res (h_es_tracks h pid);
           Some (set_es pid (\<lambda>_. es) h)
         } else Some h);
       append_packet env h pid pkt res
     })"

section \<open>The accumulator as one buffer\<close>

definition seg_bytes :: "tsa_packet_pool \<Rightarrow> pes_segment \<Rightarrow> bytes" where
  "seg_bytes pool = (\<lambda>(i, off, len). take (unat len) (drop (unat off) (pk_data (pool_packets pool ! i))))"

definition seg_ok :: "tsa_packet_pool \<Rightarrow> pes_segment \<Rightarrow> bool" where
  "seg_ok pool = (\<lambda>(i, off, len). i < length (pool_packets pool) \<and>
     unat off + unat len \<le> length (pk_data (pool_packets pool ! i)))"

definition acc_bytes :: "tsa_packet_pool \<Rightarrow> tsa_pes_acc \<Rightarrow> bytes" where
  "acc_bytes pool pes = concat (map (seg_bytes pool) (pes_segs pes))"

definition acc_ok :: "tsa_packet_pool \<Rightarrow> tsa_pes_acc \<Rightarrow> bool" where
  "acc_ok pool pes \<longleftrightarrow> list_all (seg_ok pool) (pes_segs pes) \<and> length (pes_segs pes) \<le> TSA_PES_MAX_REFS \<and>
     pes_total_length pes = of_nat (length (acc_bytes pool pes))"

lemma seg_length: "seg_ok pool (i, off, len) \<Longrightarrow> length (seg_bytes pool (i, off, len)) = unat len"
  by (auto simp: seg_ok_def seg_bytes_def)

lemma segs_length: "list_all (seg_ok pool) segs \<Longrightarrow> length (concat (map (seg_bytes pool) segs)) \<le> 255 * length segs"
proof (induction segs)
  case (Cons x segs)
  obtain i off len where x: "x = (i, off, len)" by (cases x)
  have "unat len < 256" using unsigned_less [of len, where 'a = nat] by simp
  then show ?case using Cons seg_length [of pool i off len] x by simp
qed simp

lemma acc_length: "acc_ok pool pes \<Longrightarrow> length (acc_bytes pool pes) \<le> 255 * 16384"
  using segs_length [of pool "pes_segs pes"] by (auto simp: acc_ok_def acc_bytes_def TSA_PES_MAX_REFS_def)

text \<open>The two ways to find an offset in the segments.\<close>

lemma get_ptr_from_spec:
  assumes "list_all (seg_ok pool) segs" "unat current + 255 * length segs < 2 ^ 32"
  shows "case get_ptr_from pool segs current offset of
      None \<Rightarrow> unat offset < unat current \<or> unat current + length (concat (map (seg_bytes pool) segs)) \<le> unat offset
    | Some p \<Rightarrow> unat current \<le> unat offset \<and> p \<noteq> [] \<and>
        prefix p (drop (unat offset - unat current) (concat (map (seg_bytes pool) segs)))"
  using assms
proof (induction segs arbitrary: current)
  case (Cons x segs)
  obtain i off len where x: "x = (i, off, len)" by (cases x)
  have l: "unat len < 256" using unsigned_less [of len, where 'a = nat] by simp
  have u: "unat (ucast len :: u32) = unat len" using l by (simp add: unsigned_ucast_eq take_bit_nat_eq_self)
  have c: "unat (current + ucast len) = unat current + unat len"
    using Cons.prems(2) l by (simp add: unat_word_ariths u)
  have k: "length (seg_bytes pool x) = unat len" using Cons.prems(1) seg_length x by simp
  show ?case
  proof (cases "current \<le> offset \<and> offset < current + ucast len")
    case True
    then have o: "unat current \<le> unat offset" "unat offset < unat current + unat len"
      using c by (simp_all add: word_le_nat_alt word_less_nat_alt)
    define j where "j = unat offset - unat current"
    have j: "unat (offset - current) = j" "j < unat len" using True o by (simp_all add: j_def unat_sub word_le_nat_alt)
    have "unat (ucast len - (offset - current)) = unat len - j"
      using j u by (subst unat_sub) (simp_all add: word_le_nat_alt)
    then have g: "get_ptr_from pool (x # segs) current offset = Some (drop j (seg_bytes pool x))"
      using True j by (simp add: x seg_bytes_def Let_def drop_take ac_simps)
    show ?thesis unfolding g using o(1) j(2) k by (simp add: j_def [symmetric] prefix_def)
  next
    case False
    then have o: "unat offset < unat current \<or> unat current + unat len \<le> unat offset"
      using c by (auto simp: word_le_nat_alt word_less_nat_alt not_le not_less)
    have g: "get_ptr_from pool (x # segs) current offset = get_ptr_from pool segs (current + ucast len) offset"
      by (simp only: x get_ptr_from.simps False if_False)
    have "list_all (seg_ok pool) segs" "unat (current + ucast len) + 255 * length segs < 2 ^ 32"
      using Cons.prems l by (simp_all add: c)
    from Cons.IH [OF this] show ?thesis
      unfolding g using o k by (auto simp: c split: option.splits)
  qed
qed auto

lemma get_ptr_spec:
  assumes "acc_ok pool pes"
  shows "case tsa_pes_get_ptr pool pes offset of
      None \<Rightarrow> length (acc_bytes pool pes) \<le> unat offset
    | Some p \<Rightarrow> p \<noteq> [] \<and> prefix p (drop (unat offset) (acc_bytes pool pes))"
proof -
  have "unat (0 :: u32) + 255 * length (pes_segs pes) < 2 ^ 32"
    using assms by (simp add: acc_ok_def TSA_PES_MAX_REFS_def)
  moreover have "list_all (seg_ok pool) (pes_segs pes)" using assms by (simp add: acc_ok_def)
  ultimately show ?thesis using get_ptr_from_spec [of pool "pes_segs pes" 0 offset]
    by (auto simp: tsa_pes_get_ptr_def acc_bytes_def split: option.splits)
qed

lemma offset_add:
  fixes offset :: u32
  assumes "acc_ok pool pes" "prefix p (drop (unat offset) (acc_bytes pool pes))" "k \<le> length p + 4" "p \<noteq> []"
  shows "unat (offset + of_nat k) = unat offset + k"
proof -
  have "length p \<le> length (drop (unat offset) (acc_bytes pool pes))" using assms(2) by (rule prefix_length_le)
  then have "unat offset + k < 2 ^ 32" using acc_length [OF assms(1)] assms(3,4) by (cases p) simp_all
  then show ?thesis by (simp add: unat_word_ariths unat_of_nat_small take_bit_nat_eq_self)
qed

lemma copy_data_spec:
  assumes "acc_ok pool pes"
  shows "tsa_pes_copy_data pool pes offset n = take n (drop (unat offset) (acc_bytes pool pes))"
proof (induction n arbitrary: offset rule: less_induct)
  case (less n)
  let ?b = "drop (unat offset) (acc_bytes pool pes)"
  note g = get_ptr_spec [OF assms, of offset]
  show ?case
  proof (cases "tsa_pes_get_ptr pool pes offset")
    case None
    then show ?thesis using g by (subst tsa_pes_copy_data.simps) simp
  next
    case (Some p)
    then have p: "p \<noteq> []" "prefix p ?b" using g by simp_all
    define k where "k = min n (length p)"
    obtain r where r: "?b = p @ r" using p(2) by (auto simp: prefix_def)
    show ?thesis
    proof (cases "n = 0")
      case False
      then have k: "0 < k" "n - k < n" using p(1) by (simp_all add: k_def)
      have "unat (offset + of_nat k) = unat offset + k" by (rule offset_add [OF assms p(2) _ p(1)]) (simp add: k_def)
      then have "tsa_pes_copy_data pool pes (offset + of_nat k) (n - k) = take (n - k) (drop k ?b)"
        using less [OF k(2)] by (simp add: ac_simps)
      then have "tsa_pes_copy_data pool pes offset n = take k p @ take (n - k) (drop k ?b)"
        using Some k False by (subst tsa_pes_copy_data.simps) (simp add: Let_def k_def [symmetric])
      also have "take k p = take k ?b" by (simp add: r k_def)
      finally show ?thesis using k by (metis add_diff_inverse_nat k_def min.cobounded1 not_le take_add)
    qed (simp add: tsa_pes_copy_data.simps)
  qed
qed

text \<open>
  C11. The zero-copy accumulator reads like one contiguous buffer: for segments
  that lie in their packets, copying from an offset gives exactly the bytes of
  the concatenated payloads there, over any number of packet boundaries, and
  the start-code test finds exactly the three bytes 0, 0, 1.
\<close>

theorem accumulator_contiguous:
  assumes "acc_ok pool pes"
  shows "tsa_pes_copy_data pool pes offset n = take n (drop (unat offset) (acc_bytes pool pes)) \<and>
    (tsa_pes_check_start_code pool pes offset \<longleftrightarrow> take 3 (drop (unat offset) (acc_bytes pool pes)) = [0, 0, 1])"
  using copy_data_spec [OF assms] by (simp add: tsa_pes_check_start_code_def)

definition two_packets :: tsa_packet_pool where
  "two_packets = \<lparr>pool_packets = map (\<lambda>d. zero_packet\<lparr>pk_data := d\<rparr>) [[7, 7, 0, 0], [1, 0x65, 9]], pool_capacity = 2,
     free_queue = mpmc_queue_create 2\<rparr>"

definition two_segments :: tsa_pes_acc where
  "two_segments = (es_pes (new_es_track 0))\<lparr>pes_segs := [(0, 1, 3), (1, 0, 3)], pes_total_length := 6\<rparr>"

lemma two_segments_ok: "acc_ok two_packets two_segments"
  by code_simp

theorem accumulator_contiguous_witness:
  "tsa_pes_copy_data two_packets two_segments 1 4 = [0, 0, 1, 0x65] \<and> tsa_pes_check_start_code two_packets two_segments 1"
proof -
  have "acc_bytes two_packets two_segments = [7, 0, 0, 1, 0x65, 9]" by code_simp
  then show ?thesis using accumulator_contiguous [OF two_segments_ok, of 1 4] by simp
qed

section \<open>The scan ends\<close>

lemma handle_sei_keeps [simp]:
  "h_pkt_pool (tsa_handle_sei now h pid d) = h_pkt_pool h"
  "es_pes (h_es_tracks (tsa_handle_sei now h pid d) q) = es_pes (h_es_tracks h q)"
  "es_stream_type (h_es_tracks (tsa_handle_sei now h pid d) q) = es_stream_type (h_es_tracks h q)"
  by (simp_all add: tsa_handle_sei_def Let_def split: option.split)

definition same_acc :: "u16 \<Rightarrow> tsa_handle \<Rightarrow> tsa_handle \<Rightarrow> bool" where
  "same_acc pid h h' \<longleftrightarrow> h_pkt_pool h' = h_pkt_pool h \<and> pes_segs (es_pes (h_es_tracks h' pid)) = pes_segs (es_pes (h_es_tracks h pid)) \<and>
     pes_total_length (es_pes (h_es_tracks h' pid)) = pes_total_length (es_pes (h_es_tracks h pid)) \<and>
     (\<forall>q. q \<noteq> pid \<longrightarrow> h_es_tracks h' q = h_es_tracks h q) \<and> h_stc_ns h' = h_stc_ns h"

lemma note_sps_pes [simp]: "es_pes (note_sps info es) = es_pes es"
  by (simp add: note_sps_def tsa_tstd_sync_params_def Let_def)

lemma count_idr_acc [simp]:
  "pes_segs (es_pes (count_idr_frame es)) = pes_segs (es_pes es)"
  "pes_total_length (es_pes (count_idr_frame es)) = pes_total_length (es_pes es)"
  by (simp_all add: count_idr_frame_def Let_def)

lemma count_slice_acc [simp]:
  "pes_segs (es_pes (fst (count_slice fc st es))) = pes_segs (es_pes es)"
  "pes_total_length (es_pes (fst (count_slice fc st es))) = pes_total_length (es_pes es)"
  by (simp_all add: count_slice_def Let_def)

lemma audit_splice_acc: "audit_splice h pid = Some h' \<Longrightarrow> same_acc pid h h'"
  by (auto simp: audit_splice_def same_acc_def Let_def split: if_splits)

lemma same_acc_trans: "same_acc pid h h' \<Longrightarrow> same_acc pid h' h'' \<Longrightarrow> same_acc pid h h''"
  by (simp add: same_acc_def)

lemma same_acc_refl [simp]: "same_acc pid h h"
  by (simp add: same_acc_def)

lemma same_acc_set_es:
  "pes_segs (es_pes (f (h_es_tracks h pid))) = pes_segs (es_pes (h_es_tracks h pid)) \<Longrightarrow>
   pes_total_length (es_pes (f (h_es_tracks h pid))) = pes_total_length (es_pes (h_es_tracks h pid)) \<Longrightarrow>
   same_acc pid h (set_es pid f h)"
  by (simp add: same_acc_def)

lemma handle_sei_acc: "same_acc pid h (tsa_handle_sei now h pid d)"
  by (simp add: same_acc_def tsa_handle_sei_def Let_def split: option.split)

lemma note_unit_acc:
  assumes "note_unit now info h pid d fc = Some (h', fc')"
  shows "same_acc pid h h'"
proof -
  have slice: "same_acc pid h h'" if "nalu_type_abstract info \<notin> {NALU_TYPE_SPS, NALU_TYPE_SEI, NALU_TYPE_IDR}"
    using assms that count_slice_acc [of fc "slice_type info" "h_es_tracks h pid"]
    by (cases "nalu_type_abstract info"; cases "count_slice fc (slice_type info) (h_es_tracks h pid)")
      (auto simp: note_unit_def same_acc_def split: if_splits)
  show ?thesis
  proof (cases "nalu_type_abstract info")
  case NALU_TYPE_SPS
  then show ?thesis using assms by (auto simp: note_unit_def intro: same_acc_set_es)
next
  case NALU_TYPE_SEI
  then have "h' = tsa_handle_sei now h pid d \<or>
      h' = (let k = tsa_handle_sei now h pid d in set_video pid (\<lambda>v. v\<lparr>v_has_cea708 := True, last_cc_seen_ns := h_stc_ns k\<rparr>) k)"
    using assms by (auto simp: note_unit_def Let_def split: if_splits)
  then show ?thesis using handle_sei_acc [of pid h now d]
    by (auto simp: same_acc_def Let_def)
next
  case NALU_TYPE_IDR
  let ?k = "set_video pid (note_gop (ni_is_closed_gop info)) h"
  obtain k' where k: "audit_splice ?k pid = Some k'" "h' = set_es pid count_idr_frame k'"
    using assms NALU_TYPE_IDR by (auto simp: note_unit_def)
  have "same_acc pid h ?k" by (rule same_acc_set_es) simp_all
  moreover have "same_acc pid k' h'" unfolding k(2) by (rule same_acc_set_es) simp_all
  ultimately show ?thesis using audit_splice_acc [OF k(1)] same_acc_trans by blast
next
  case NALU_TYPE_NON_IDR
  then show ?thesis using assms slice by simp
next
  case NALU_TYPE_PPS
  then show ?thesis using assms slice by simp
next
  case NALU_TYPE_UNKNOWN
  then show ?thesis using assms slice by simp
qed
qed

lemma visit_unit_acc: "visit_unit env h pid hevc offset fc = Some (h', fc') \<Longrightarrow> same_acc pid h h'"
  by (auto simp: visit_unit_def Let_def bind_eq_Some_conv dest: note_unit_acc split: option.splits list.splits if_splits)

lemma acc_ok_same: "same_acc pid h h' \<Longrightarrow> acc_ok (h_pkt_pool h') (es_pes (h_es_tracks h' pid)) = acc_ok (h_pkt_pool h) (es_pes (h_es_tracks h pid))"
  by (simp add: same_acc_def acc_ok_def acc_bytes_def)

lemma acc_bytes_same: "same_acc pid h h' \<Longrightarrow> acc_bytes (h_pkt_pool h') (es_pes (h_es_tracks h' pid)) = acc_bytes (h_pkt_pool h) (es_pes (h_es_tracks h pid))"
  by (simp add: same_acc_def acc_bytes_def)

lemma scan_units_rounds:
  assumes "acc_ok (h_pkt_pool h) (es_pes (h_es_tracks h pid))"
    "length (acc_bytes (h_pkt_pool h) (es_pes (h_es_tracks h pid))) < k + unat offset"
  shows "scan_units (Suc k) env h pid hevc total_len offset fc \<noteq> Scan_rounds"
  using assms
proof (induction k arbitrary: h offset fc)
  case 0
  then show ?case using get_ptr_spec [OF 0(1), of offset] by (auto simp: Let_def split: option.splits)
next
  case (Suc k)
  let ?pes = "es_pes (h_es_tracks h pid)"
  show ?case
  proof (cases "tsa_pes_get_ptr (h_pkt_pool h) ?pes offset")
    case (Some p)
    then have p: "p \<noteq> []" "prefix p (drop (unat offset) (acc_bytes (h_pkt_pool h) ?pes))"
      using get_ptr_spec [OF Suc.prems(1), of offset] by simp_all
    have go: "scan_units (Suc k) env h' pid hevc total_len (offset + of_nat m) fc' \<noteq> Scan_rounds"
      if "same_acc pid h h'" "0 < m" "m \<le> length p + 4" for h' m fc'
      using that Suc.prems offset_add [OF Suc.prems(1) p(2) that(3) p(1)]
      by (intro Suc.IH) (simp_all add: acc_ok_same acc_bytes_same)
    let ?z = "length (takeWhile (\<lambda>b. b \<noteq> 0) p)"
    have "?z \<le> length p" by (rule length_takeWhile_le)
    then have go3: "scan_units (Suc k) env h' pid hevc total_len (offset + of_nat ?z + 3) fc' \<noteq> Scan_rounds"
      and go1: "scan_units (Suc k) env h' pid hevc total_len (offset + of_nat ?z + 1) fc' \<noteq> Scan_rounds" if "same_acc pid h h'" for h' fc'
      using go [OF that, of "?z + 3" fc'] go [OF that, of "?z + 1" fc'] by (simp_all add: ac_simps del: scan_units.simps)
    show ?thesis
      unfolding scan_units.simps(2) [of "Suc k"] Let_def Some option.case
      using go [OF same_acc_refl, of "length p" fc] p(1) go3 go1 [OF same_acc_refl]
      by (simp del: scan_units.simps split: option.split) (auto dest: visit_unit_acc simp del: scan_units.simps)
  qed (simp add: Let_def)
qed

text \<open>
  C13. The scan of a PES packet for NAL units ends: whatever bytes the packet
  holds and whatever the units in them do to the statistics, one round per
  accumulated byte is enough, so the call for a finished packet never runs out
  of its \<open>total_length + 1\<close> rounds.
\<close>

theorem es_scan_terminates:
  assumes "acc_ok (h_pkt_pool h) (es_pes (h_es_tracks h pid))" "0 < offset"
  shows "scan_units (Suc (unat (pes_total_length (es_pes (h_es_tracks h pid))))) env h pid hevc
      (pes_total_length (es_pes (h_es_tracks h pid))) offset False \<noteq> Scan_rounds"
proof (rule scan_units_rounds [OF assms(1)])
  let ?n = "length (acc_bytes (h_pkt_pool h) (es_pes (h_es_tracks h pid)))"
  have "unat (pes_total_length (es_pes (h_es_tracks h pid))) = ?n"
    using acc_length [OF assms(1)] assms(1) by (simp add: acc_ok_def unat_of_nat_small)
  moreover have "0 < unat offset" using assms(2) by (simp add: word_less_nat_alt)
  ultimately show "?n < unat (pes_total_length (es_pes (h_es_tracks h pid))) + unat offset" by simp
qed

definition plain_env :: es_env where
  "plain_env = \<lparr>env_utc_ms = (\<lambda>_. 0), env_log2 = (\<lambda>x. x), env_ebur128_init = (\<lambda>_ _. True),
     env_header = \<lparr>ph_stream_id = 0, ph_has_pts = False, ph_has_dts = False, ph_pts = 0, ph_dts = 0, ph_header_len = 0\<rparr>,
     env_info = (\<lambda>_. zero_info)\<rparr>"

definition two_packet_handle :: tsa_handle where
  "two_packet_handle = (tsa_create None False False)\<lparr>h_pkt_pool := two_packets,
     h_es_tracks := new_es_track(256 := (new_es_track 256)\<lparr>es_stream_type := 0x1B, es_pes := two_segments\<rparr>)\<rparr>"

theorem es_scan_terminates_witness:
  "scan_units 7 plain_env two_packet_handle 256 False 6 1 False \<noteq> Scan_rounds"
proof -
  have "h_pkt_pool two_packet_handle = two_packets" "es_pes (h_es_tracks two_packet_handle 256) = two_segments"
    "pes_total_length two_segments = 6"
    by (simp_all add: two_packet_handle_def two_segments_def)
  then show ?thesis
    using es_scan_terminates [of two_packet_handle 256 1 plain_env False] two_segments_ok by (simp del: scan_units.simps)
qed

section \<open>Accumulating packets\<close>

declare scan_units.simps [simp del]

definition pool_data :: "tsa_packet_pool \<Rightarrow> bytes list" where
  "pool_data pool = map pk_data (pool_packets pool)"

lemma pool_data_set: "i < length (pool_packets pool) \<Longrightarrow> pk_data x = pk_data (pool_packets pool ! i) \<Longrightarrow>
    map pk_data ((pool_packets pool)[i := x]) = map pk_data (pool_packets pool)"
  by (simp add: map_update list_update_same_conv)

lemma pool_data_ref [simp]: "i < length (pool_packets pool) \<Longrightarrow> pool_data (tsa_packet_ref pool i) = pool_data pool"
  by (simp add: pool_data_def tsa_packet_ref_def pool_data_set)

lemma pool_data_unref:
  "i < length (pool_packets pool) \<Longrightarrow> tsa_packet_unref pool i = Some pool' \<Longrightarrow> pool_data pool' = pool_data pool"
  by (auto simp: pool_data_def tsa_packet_unref_def pool_data_set Let_def split: if_splits option.splits)

lemma pool_data_length: "pool_data p = pool_data q \<Longrightarrow> length (pool_packets p) = length (pool_packets q)"
  unfolding pool_data_def by (rule map_eq_imp_length_eq)

lemma pool_data_nth: "pool_data p = pool_data q \<Longrightarrow> i < length (pool_packets q) \<Longrightarrow>
    pk_data (pool_packets p ! i) = pk_data (pool_packets q ! i)"
  using pool_data_length [of p q] by (metis nth_map pool_data_def)

lemma seg_ok_data: "pool_data p = pool_data q \<Longrightarrow> seg_ok p x = seg_ok q x"
  using pool_data_length [of p q] pool_data_nth [of p q] by (auto simp: seg_ok_def)

lemma seg_bytes_data: "pool_data p = pool_data q \<Longrightarrow> seg_ok q x \<Longrightarrow> seg_bytes p x = seg_bytes q x"
  using pool_data_nth [of p q] by (auto simp: seg_bytes_def seg_ok_def)

lemma acc_bytes_data:
  assumes "pool_data p = pool_data q" "list_all (seg_ok q) (pes_segs pes)"
  shows "acc_bytes p pes = acc_bytes q pes"
proof -
  have "map (seg_bytes p) (pes_segs pes) = map (seg_bytes q) (pes_segs pes)"
    using assms(2) by (simp add: list_all_iff seg_bytes_data [OF assms(1)])
  then show ?thesis by (simp only: acc_bytes_def)
qed

lemma segs_ok_data:
  assumes "pool_data p = pool_data q"
  shows "list_all (seg_ok p) segs = list_all (seg_ok q) segs"
proof -
  have "seg_ok p = seg_ok q" using seg_ok_data [OF assms] by blast
  then show ?thesis by simp
qed

lemma unref_all_data: "list_all (seg_ok pool) segs \<Longrightarrow> unref_all pool segs = Some pool' \<Longrightarrow> pool_data pool' = pool_data pool"
proof (induction segs arbitrary: pool)
  case (Cons x segs)
  obtain i off len where x: "x = (i, off, len)" by (cases x)
  then obtain pool1 where u: "tsa_packet_unref pool i = Some pool1" "unref_all pool1 segs = Some pool'"
    using Cons.prems(2) by (auto simp: bind_eq_Some_conv)
  have d: "pool_data pool1 = pool_data pool" using u(1) Cons.prems(1) x by (auto intro: pool_data_unref simp: seg_ok_def)
  then show ?case using Cons.IH [OF _ u(2)] Cons.prems(1) segs_ok_data [OF d] by simp
qed simp

lemma scan_units_acc: "scan_units k env h pid hevc total_len offset fc = Scan_done h' \<Longrightarrow> same_acc pid h h'"
proof (induction k arbitrary: h offset fc)
  case (Suc k)
  have v: "same_acc pid h h'" if "visit_unit env h pid hevc o' fc = Some (h1, fc')"
    "scan_units k env h1 pid hevc total_len o'' fc' = Scan_done h'" for h1 o' o'' fc'
    using Suc.IH [OF that(2)] visit_unit_acc [OF that(1)] same_acc_trans by blast
  from Suc.prems show ?case
    unfolding scan_units.simps(2) Let_def
    by (simp split: if_split_asm option.split_asm prod.split_asm) (blast intro: Suc.IH v)+
qed (simp add: scan_units.simps)

lemma es_payload_acc: "tsa_handle_es_payload env h pid = Some h' \<Longrightarrow> same_acc pid h h'"
  by (auto simp: tsa_handle_es_payload_def Let_def split: prod.splits if_splits scan_end.splits dest: scan_units_acc)

lemma queue_au_pes [simp]: "es_pes (queue_au (note_frame_size es)) = es_pes es"
  by (simp add: queue_au_def note_frame_size_def Let_def)

lemma clear_accumulator_acc:
  assumes "tsa_es_track_clear_accumulator h pid = Some h'" "list_all (seg_ok (h_pkt_pool h)) (pes_segs (es_pes (h_es_tracks h pid)))"
  shows "pool_data (h_pkt_pool h') = pool_data (h_pkt_pool h) \<and> pes_segs (es_pes (h_es_tracks h' pid)) = [] \<and>
    pes_total_length (es_pes (h_es_tracks h' pid)) = 0 \<and> (\<forall>q. q \<noteq> pid \<longrightarrow> h_es_tracks h' q = h_es_tracks h q) \<and>
    h_stc_ns h' = h_stc_ns h"
  using assms
  by (auto simp: tsa_es_track_clear_accumulator_def Let_def bind_eq_Some_conv dest: unref_all_data split: if_splits)

lemma finish_pes_acc:
  assumes "finish_pes env h pid = Some h'" "acc_ok (h_pkt_pool h) (es_pes (h_es_tracks h pid))"
  shows "pool_data (h_pkt_pool h') = pool_data (h_pkt_pool h) \<and> pes_segs (es_pes (h_es_tracks h' pid)) = [] \<and>
    pes_total_length (es_pes (h_es_tracks h' pid)) = 0 \<and> (\<forall>q. q \<noteq> pid \<longrightarrow> h_es_tracks h' q = h_es_tracks h q)"
proof (cases "pes_segs (es_pes (h_es_tracks h pid)) = []")
  case True
  then show ?thesis using assms by (auto simp: finish_pes_def acc_ok_def acc_bytes_def)
next
  case False
  then obtain k where k: "tsa_handle_es_payload env h pid = Some k"
    "tsa_es_track_clear_accumulator (set_es pid (\<lambda>es. queue_au (note_frame_size es)) k) pid = Some h'"
    using assms(1) by (auto simp: finish_pes_def bind_eq_Some_conv)
  have s: "same_acc pid h k" using k(1) by (rule es_payload_acc)
  have "list_all (seg_ok (h_pkt_pool k)) (pes_segs (es_pes (h_es_tracks k pid)))"
    using s assms(2) by (simp add: same_acc_def acc_ok_def)
  then show ?thesis using clear_accumulator_acc [OF k(2)] s by (simp add: same_acc_def)
qed

lemma note_dts_pes: "note_dts res es = Some es' \<Longrightarrow>
    pes_segs (es_pes es') = pes_segs (es_pes es) \<and> pes_total_length (es_pes es') = pes_total_length (es_pes es)"
  by (clarsimp simp: note_dts_def Let_def bind_eq_Some_conv)

lemma note_jitter_pes: "note_jitter_ms pts stc es = Some es' \<Longrightarrow> es_pes es' = es_pes es"
  by (clarsimp simp: note_jitter_ms_def Let_def bind_eq_Some_conv split: if_splits)

lemma note_header_pes: "note_pes_header stc res es = Some es' \<Longrightarrow>
    pes_segs (es_pes es') = pes_segs (es_pes es) \<and> pes_total_length (es_pes es') = pes_total_length (es_pes es)"
  by (cases "r_has_pts res")
    (auto simp: note_pes_header_def bind_eq_Some_conv split: if_splits dest!: note_dts_pes note_jitter_pes)

lemma track_entropy_acc: "track_entropy env h pid payload = Some h' \<Longrightarrow> same_acc pid h h'"
  by (auto simp: track_entropy_def same_acc_def Let_def bind_eq_Some_conv split: if_splits)

text \<open>A result of decoding the packet: the payload ends with it.\<close>

definition decoded :: "ts_decode_result \<Rightarrow> bool" where
  "decoded res \<longleftrightarrow> 0 \<le> r_payload_len res \<and> 4 + uint (r_af_len res) + r_payload_len res \<le> 188"

lemma append_segment:
  assumes "acc_ok pool pes" "length (pes_segs pes) < TSA_PES_MAX_REFS" "decoded res" "i < length (pool_packets pool)"
    "pk_data (pool_packets pool ! i) = p" "length p = 188"
  defines "pes' \<equiv> pes\<lparr>pes_segs := pes_segs pes @ [(i, 4 + ucast (r_af_len res), of_int (r_payload_len res))],
    pes_total_length := pes_total_length pes + of_int (r_payload_len res)\<rparr>"
  shows "acc_ok pool pes' \<and> acc_bytes pool pes' = acc_bytes pool pes @ take (nat (r_payload_len res)) (drop (4 + unat (r_af_len res)) p)"
proof -
  define n where "n = nat (r_payload_len res)"
  have n: "r_payload_len res = int n" "4 + unat (r_af_len res) + n \<le> 188"
    using assms(3) unfolding decoded_def n_def uint_nat by linarith+
  have l: "unat (of_nat n :: u8) = n" using n(2) by (intro unat_of_nat_small) simp
  have "(4 + ucast (r_af_len res) :: u16) = of_nat (4 + unat (r_af_len res))" by simp
  also have "unat \<dots> = 4 + unat (r_af_len res)" using n(2) by (intro unat_of_nat_small) simp
  finally have o: "unat (4 + ucast (r_af_len res) :: u16) = 4 + unat (r_af_len res)" .
  let ?x = "(i, 4 + ucast (r_af_len res) :: u16, of_nat n :: u8)"
  have x: "seg_ok pool ?x" "seg_bytes pool ?x = take n (drop (4 + unat (r_af_len res)) p)"
    using assms(4-6) n(2) by (simp_all add: seg_ok_def seg_bytes_def l o)
  have k: "length (take n (drop (4 + unat (r_af_len res)) p)) = n" using n(2) assms(6) by simp
  have s: "pes_segs pes' = pes_segs pes @ [?x]" "pes_total_length pes' = pes_total_length pes + of_nat n"
    unfolding pes'_def n(1) by simp_all
  have b: "acc_bytes pool pes' = acc_bytes pool pes @ take n (drop (4 + unat (r_af_len res)) p)"
    unfolding acc_bytes_def s by (simp add: x(2))
  have "acc_ok pool pes'"
    unfolding acc_ok_def s b length_append k using assms(1,2) x(1) by (simp add: acc_ok_def)
  then show ?thesis using b n(1) by simp
qed

lemma append_packet_acc:
  assumes "append_packet env h pid (p, Some i) res = Some h'" "acc_ok (h_pkt_pool h) (es_pes (h_es_tracks h pid))"
    "length (pes_segs (es_pes (h_es_tracks h pid))) < TSA_PES_MAX_REFS" "decoded res" "i < length (pool_packets (h_pkt_pool h))"
    "pk_data (pool_packets (h_pkt_pool h) ! i) = p" "length p = 188"
  shows "acc_ok (h_pkt_pool h') (es_pes (h_es_tracks h' pid)) \<and>
    acc_bytes (h_pkt_pool h') (es_pes (h_es_tracks h' pid)) =
      acc_bytes (h_pkt_pool h) (es_pes (h_es_tracks h pid)) @ take (nat (r_payload_len res)) (drop (4 + unat (r_af_len res)) p) \<and>
    pool_data (h_pkt_pool h') = pool_data (h_pkt_pool h) \<and> (\<forall>q. q \<noteq> pid \<longrightarrow> h_es_tracks h' q = h_es_tracks h q)"
proof -
  let ?pes = "es_pes (h_es_tracks h pid)"
  let ?k = "set_pes pid (\<lambda>pes. pes\<lparr>pes_segs := pes_segs pes @ [(i, 4 + ucast (r_af_len res), of_int (r_payload_len res))],
       pes_total_length := pes_total_length pes + of_int (r_payload_len res)\<rparr>) h"
  let ?k' = "?k\<lparr>h_pkt_pool := tsa_packet_ref (h_pkt_pool h) i\<rparr>"
  have d: "pool_data (h_pkt_pool ?k') = pool_data (h_pkt_pool h)" using assms(5) by simp
  have a: "acc_ok (h_pkt_pool h) (es_pes (h_es_tracks ?k' pid)) \<and> acc_bytes (h_pkt_pool h) (es_pes (h_es_tracks ?k' pid)) =
      acc_bytes (h_pkt_pool h) ?pes @ take (nat (r_payload_len res)) (drop (4 + unat (r_af_len res)) p)"
    using append_segment [OF assms(2-7)] by simp
  then have b: "acc_bytes (h_pkt_pool ?k') (es_pes (h_es_tracks ?k' pid)) = acc_bytes (h_pkt_pool h) (es_pes (h_es_tracks ?k' pid))"
    by (intro acc_bytes_data [OF d]) (simp add: acc_ok_def)
  then have c: "acc_ok (h_pkt_pool ?k') (es_pes (h_es_tracks ?k' pid))"
    using a segs_ok_data [OF d] by (simp only: acc_ok_def)
  have s: "same_acc pid ?k' h'"
    using assms(1,3) by (auto simp: append_packet_def Let_def dest: track_entropy_acc split: if_splits)
  show ?thesis
    using acc_ok_same [OF s] acc_bytes_same [OF s] a b c d s by (simp add: same_acc_def)
qed

text \<open>The state a packet is appended to: the former PES packet is finished first.\<close>

definition pushes_onto :: "es_env \<Rightarrow> tsa_handle \<Rightarrow> u16 \<Rightarrow> ts_decode_result \<Rightarrow> tsa_handle \<Rightarrow> bool" where
  "pushes_onto env h pid res k \<longleftrightarrow>
    (if r_pusi res \<noteq> 0 then \<exists>h1 es. finish_pes env h pid = Some h1 \<and>
       note_pes_header (h_stc_ns h1) res (h_es_tracks h1 pid) = Some es \<and> k = set_es pid (\<lambda>_. es) h1
     else k = h)"

lemma pushes_onto_acc:
  assumes "pushes_onto env h pid res k" "acc_ok (h_pkt_pool h) (es_pes (h_es_tracks h pid))"
    "length (pes_segs (es_pes (h_es_tracks h pid))) < TSA_PES_MAX_REFS"
  shows "acc_ok (h_pkt_pool k) (es_pes (h_es_tracks k pid)) \<and> length (pes_segs (es_pes (h_es_tracks k pid))) < TSA_PES_MAX_REFS \<and>
    acc_bytes (h_pkt_pool k) (es_pes (h_es_tracks k pid)) =
      (if r_pusi res \<noteq> 0 then [] else acc_bytes (h_pkt_pool h) (es_pes (h_es_tracks h pid))) \<and>
    pool_data (h_pkt_pool k) = pool_data (h_pkt_pool h) \<and> (\<forall>q. q \<noteq> pid \<longrightarrow> h_es_tracks k q = h_es_tracks h q)"
proof (cases "r_pusi res = 0")
  case True
  then show ?thesis using assms by (simp add: pushes_onto_def)
next
  case False
  then obtain h1 es where f: "finish_pes env h pid = Some h1"
    "note_pes_header (h_stc_ns h1) res (h_es_tracks h1 pid) = Some es" "k = set_es pid (\<lambda>_. es) h1"
    using assms(1) by (auto simp: pushes_onto_def)
  show ?thesis using finish_pes_acc [OF f(1) assms(2)] note_header_pes [OF f(2)] False
    by (simp add: f(3) acc_ok_def acc_bytes_def TSA_PES_MAX_REFS_def)
qed

lemma acc_other:
  assumes "h_es_tracks h' q = h_es_tracks h q" "pool_data (h_pkt_pool h') = pool_data (h_pkt_pool h)"
    "acc_ok (h_pkt_pool h) (es_pes (h_es_tracks h q))"
  shows "acc_bytes (h_pkt_pool h') (es_pes (h_es_tracks h' q)) = acc_bytes (h_pkt_pool h) (es_pes (h_es_tracks h q)) \<and>
    acc_ok (h_pkt_pool h') (es_pes (h_es_tracks h' q))"
proof -
  have b: "acc_bytes (h_pkt_pool h') (es_pes (h_es_tracks h' q)) = acc_bytes (h_pkt_pool h) (es_pes (h_es_tracks h q))"
    unfolding assms(1) by (rule acc_bytes_data [OF assms(2)]) (use assms(3) in \<open>simp add: acc_ok_def\<close>)
  then show ?thesis using assms(3) segs_ok_data [OF assms(2)] unfolding acc_ok_def assms(1) by simp
qed

text \<open>
  C2. Pushing a packet refines appending its payload to a buffer: with a packet
  of the pool, the accumulated bytes become the payload alone when the packet
  starts a PES packet, and the former bytes followed by the payload otherwise,
  for every PID whose accumulator has room; the accumulators of all the other
  PIDs keep their bytes, and all segments keep lying inside their packets.
\<close>

theorem push_packet_accumulates:
  assumes "tsa_es_track_push_packet env h pid (p, Some i) res = Some h'"
    "\<And>q. acc_ok (h_pkt_pool h) (es_pes (h_es_tracks h q))"
    "length (pes_segs (es_pes (h_es_tracks h pid))) < TSA_PES_MAX_REFS" "decoded res"
    "i < length (pool_packets (h_pkt_pool h))" "pk_data (pool_packets (h_pkt_pool h) ! i) = p" "length p = 188"
  defines "bytes_of \<equiv> \<lambda>h q. acc_bytes (h_pkt_pool h) (es_pes (h_es_tracks h q))"
  defines "payload \<equiv> take (nat (r_payload_len res)) (drop (4 + unat (r_af_len res)) p)"
  shows "bytes_of h' q = (if q \<noteq> pid then bytes_of h q else if r_pusi res \<noteq> 0 then payload
      else if r_has_payload res then bytes_of h q @ payload else bytes_of h q) \<and>
    acc_ok (h_pkt_pool h') (es_pes (h_es_tracks h' q))"
proof (cases "r_pusi res = 0 \<and> (\<not> r_has_payload res \<or> r_payload_len res = 0)")
  case True
  then have "h' = h" "r_has_payload res \<Longrightarrow> payload = []"
    using assms(1) by (auto simp: tsa_es_track_push_packet_def payload_def)
  then show ?thesis using True assms(2) by auto
next
  case False
  then obtain k where k: "append_packet env k pid (p, Some i) res = Some h'" "pushes_onto env h pid res k"
    using assms(1) by (auto simp: tsa_es_track_push_packet_def pushes_onto_def bind_eq_Some_conv split: if_splits)
  note b = pushes_onto_acc [OF k(2) assms(2,3)]
  have d: "pool_data (h_pkt_pool k) = pool_data (h_pkt_pool h)" using b by simp
  have i: "i < length (pool_packets (h_pkt_pool k))" "pk_data (pool_packets (h_pkt_pool k) ! i) = p"
    using pool_data_length [OF d] pool_data_nth [OF d assms(5)] assms(5,6) by simp_all
  note a = append_packet_acc [OF k(1) _ _ assms(4) i assms(7)]
  show ?thesis
  proof (cases "q = pid")
    case True
    then show ?thesis using a b False by (auto simp: bytes_of_def payload_def)
  next
    case q: False
    then have t: "h_es_tracks h' q = h_es_tracks h q" "pool_data (h_pkt_pool h') = pool_data (h_pkt_pool h)" using a b by simp_all
    then show ?thesis using q acc_other [OF t assms(2)] by (simp add: bytes_of_def)
  qed
qed

definition one_packet_handle :: tsa_handle where
  "one_packet_handle = (tsa_create None False False)\<lparr>h_pkt_pool :=
     \<lparr>pool_packets = [zero_packet], pool_capacity = 1, free_queue = mpmc_queue_create 1\<rparr>\<rparr>"

theorem push_packet_accumulates_witness:
  "\<exists>h'. tsa_es_track_push_packet plain_env one_packet_handle 256 (replicate 188 0, Some 0)
      (zero_decode\<lparr>r_pid := 256, r_has_payload := True, r_payload_len := 184\<rparr>) = Some h' \<and>
    acc_bytes (h_pkt_pool h') (es_pes (h_es_tracks h' 256)) = replicate 184 0"
proof -
  let ?res = "zero_decode\<lparr>r_pid := 256, r_has_payload := True, r_payload_len := 184\<rparr>"
  let ?p = "replicate 188 0 :: bytes"
  have o: "h_es_tracks one_packet_handle = new_es_track" "pool_packets (h_pkt_pool one_packet_handle) = [zero_packet]"
    by (simp_all add: one_packet_handle_def)
  have z: "pes_segs (es_pes (new_es_track q)) = []" "pes_total_length (es_pes (new_es_track q)) = 0"
    "\<not> tsa_is_video (es_stream_type (new_es_track q))" for q
    by (simp_all add: new_es_track_def tsa_is_video_def)
  obtain h' where h': "tsa_es_track_push_packet plain_env one_packet_handle 256 (?p, Some 0) ?res = Some h'"
    by (simp add: tsa_es_track_push_packet_def append_packet_def o z TSA_PES_MAX_REFS_def zero_decode_def)
  have k: "acc_ok (h_pkt_pool one_packet_handle) (es_pes (h_es_tracks one_packet_handle q))" for q
    by (simp add: o z acc_ok_def acc_bytes_def)
  have "acc_bytes (h_pkt_pool h') (es_pes (h_es_tracks h' 256)) = take 184 (drop 4 ?p)"
    using push_packet_accumulates [OF h' k, of 256]
    by (simp add: o z decoded_def zero_decode_def zero_packet_def TSA_PES_MAX_REFS_def acc_bytes_def)
  then show ?thesis using h' by simp
qed

end
