(* ===== verification/Tsa_Engines.thy ===== *)
theory Tsa_Engines
  imports Tsa_Es
begin

text \<open>
  The engines that look at every packet: the T-STD buffer model and the
  elementary streams (\<open>src/tsa_engine_essence.c\<close> with \<open>tsa_tstd_drain\<close> of
  \<open>src/tsa.c\<close> and the audio part of \<open>src/tsa_audio_audit.c\<close>), the checks of
  TR 101 290 (\<open>src/tsa_engine_tr101290.c\<close>), the PCR engine
  (\<open>src/tsa_engine_pcr.c\<close>), the SCTE-35 engine and the parser of splice
  sections (\<open>src/tsa_engine_scte35.c\<close>, \<open>src/tsa_scte35.c\<close>).

  128-bit integers are \<open>int\<close>; \<open>None\<close> is a product or a conversion out of their
  range. The fill levels change by at most one packet or one leak at a time and
  their sums and differences are taken as exact.
\<close>

unbundle bit_operations_syntax

definition i128 :: "int \<Rightarrow> int option" where
  "i128 x = (if - (2 ^ 127) \<le> x \<and> x < 2 ^ 127 then Some x else None)"

definition INT_TO_Q64_64 :: "int \<Rightarrow> int" where
  "INT_TO_Q64_64 x = x * 2 ^ 64"

section \<open>T-STD buffers\<close>

definition EB_SIZE :: "bool \<Rightarrow> u64" where
  "EB_SIZE is_video = (if is_video then 512 * 1024 * 8 else 3584 * 8)"

definition TSA_TSTD_TB_SIZE :: int where "TSA_TSTD_TB_SIZE = 512 * 8"

text \<open>The first of several rates that is not zero.\<close>

fun first_rate :: "u64 list \<Rightarrow> u64" where
  "first_rate [] = 0"
| "first_rate (r # rs) = (if r = 0 then first_rate rs else r)"

definition rate_rx :: "tsa_handle \<Rightarrow> tsa_es_track \<Rightarrow> u64" where
  "rate_rx h es = first_rate [leak_rate_rx (es_tstd es), physical_bitrate_bps (h_live h), forced_cbr_bitrate (h_config h),
     pid_bitrate_bps (h_live h) (es_pid es) * 6 div 5, 100000000] * 101 div 100"

definition rate_rbx :: "tsa_handle \<Rightarrow> tsa_es_track \<Rightarrow> u64" where
  "rate_rbx h es = first_rate [leak_rate_eb (es_tstd es), pid_bitrate_bps (h_live h) (es_pid es) * 3 div 2,
     physical_bitrate_bps (h_live h) * 4 div 5, 20000000]"

definition leaked :: "u64 \<Rightarrow> u64 \<Rightarrow> int option" where
  "leaked rate dt = map_option (\<lambda>x. x div 1000000000) (i128 (uint rate * uint dt * 2 ^ 64))"

text \<open>The leak out of the transport buffer and into the elementary buffer.\<close>

definition leak_buffers :: "u64 \<Rightarrow> u64 \<Rightarrow> bool \<Rightarrow> u64 \<Rightarrow> tsa_tstd \<Rightarrow> tsa_tstd option" where
  "leak_buffers r_x r_bx is_video dt t = do {
     tb \<leftarrow> leaked r_x dt;
     let tb = min tb (tb_fill_q64 t);
     let t = t\<lparr>tb_fill_q64 := tb_fill_q64 t - tb\<rparr>;
     let full = INT_TO_Q64_64 (uint (EB_SIZE is_video));
     if is_video then do {
       let t = t\<lparr>mb_fill_q64 := mb_fill_q64 t + tb\<rparr>;
       if eb_fill_q64 t \<ge> full then Some t
       else do {
         mb \<leftarrow> leaked r_bx dt;
         let mb = min (min mb (mb_fill_q64 t)) (full - eb_fill_q64 t);
         Some (t\<lparr>mb_fill_q64 := mb_fill_q64 t - mb, eb_fill_q64 := eb_fill_q64 t + mb\<rparr>)
       }
     } else Some (t\<lparr>eb_fill_q64 := eb_fill_q64 t + min tb (full - eb_fill_q64 t)\<rparr>)
   }"

definition au_pending :: "tsa_es_track \<Rightarrow> bool" where
  "au_pending es \<longleftrightarrow> au_head (es_au_q es) \<noteq> au_tail (es_au_q es)"

definition next_au :: "tsa_es_track \<Rightarrow> u64 \<times> u32" where
  "next_au es = au_slots (es_au_q es) ! unat (au_head (es_au_q es))"

definition time_to_dts_ms :: "tsa_handle \<Rightarrow> tsa_es_track \<Rightarrow> int" where
  "time_to_dts_ms h es = (let d = fst (next_au es) in if h_stc_ns h < d then sint ((d - h_stc_ns h) div 1000000) else 0)"

abbreviation set_tstd :: "u16 \<Rightarrow> (tsa_tstd \<Rightarrow> tsa_tstd) \<Rightarrow> tsa_handle \<Rightarrow> tsa_handle" where
  "set_tstd pid f h \<equiv> set_es pid (\<lambda>es. es\<lparr>es_tstd := f (es_tstd es)\<rparr>) h"

text \<open>Lines 101 to 140: the forecast of an overflow and of an underflow.\<close>

definition predict_overflow :: "u64 \<Rightarrow> u64 \<Rightarrow> u64 \<Rightarrow> u16 \<Rightarrow> tsa_handle \<Rightarrow> tsa_handle" where
  "predict_overflow eb_size eb_fill_bytes r_bytes pid h =
    (if eb_fill_bytes < eb_size then let
       tto = sint ((eb_size - eb_fill_bytes) * 1000 div r_bytes);
       h = set_tstd pid (\<lambda>t. t\<lparr>time_to_overflow_ms := tto\<rparr>) h;
       es = h_es_tracks h pid
     in if au_pending es \<and> tto < time_to_dts_ms h es \<and> tto < 500
        then tsa_push_event h TSA_EVENT_TSTD_PREDICTIVE (es_pid es) (of_int tto) else h
     else set_tstd pid (\<lambda>t. t\<lparr>time_to_overflow_ms := 0\<rparr>) h)"

definition predict_underflow :: "u64 \<Rightarrow> u64 \<Rightarrow> u16 \<Rightarrow> tsa_handle \<Rightarrow> tsa_handle" where
  "predict_underflow eb_fill_bytes r_bytes pid h = (let
      es = h_es_tracks h pid;
      next_size = ucast (snd (next_au es)) :: u64;
      ttd = time_to_dts_ms h es
    in if au_pending es \<and> eb_fill_bytes < next_size \<and> ttd < sint ((next_size - eb_fill_bytes) * 1000 div r_bytes)
       then let h = set_tstd pid (\<lambda>t. t\<lparr>time_to_underflow_ms := ttd\<rparr>) h in
         if ttd < 500 then tsa_push_event h TSA_EVENT_TSTD_PREDICTIVE (es_pid es) (of_int ttd) else h
       else h)"

definition tsa_tstd_update_leak :: "tsa_handle \<Rightarrow> u16 \<Rightarrow> u64 \<Rightarrow> tsa_handle option" where
  "tsa_tstd_update_leak h pid now_vstc = (let es = h_es_tracks h pid; t = es_tstd es in
    if last_leak_vstc t = 0 then Some (set_tstd pid (\<lambda>t. t\<lparr>last_leak_vstc := now_vstc\<rparr>) h)
    else if now_vstc \<le> last_leak_vstc t then Some h
    else let is_video = tsa_is_video (es_stream_type es) in do {
      t \<leftarrow> leak_buffers (rate_rx h es) (rate_rbx h es) is_video (now_vstc - last_leak_vstc t) t;
      let eb_fill_bytes = of_int (eb_fill_q64 t div 2 ^ 64);
      let r = (if is_video then leak_rate_eb t else leak_rate_rx t) div 8;
      let r_bx_bytes_sec = (if r = 0 then 1 else r);
      let h = set_tstd pid (\<lambda>_. t\<lparr>time_to_overflow_ms := - 1, time_to_underflow_ms := - 1\<rparr>) h;
      let h = predict_overflow (EB_SIZE is_video) eb_fill_bytes r_bx_bytes_sec pid h;
      let h = predict_underflow eb_fill_bytes r_bx_bytes_sec pid h;
      Some (set_tstd pid (\<lambda>t. t\<lparr>last_leak_vstc := now_vstc\<rparr>) h)
    })"

text \<open>
  The drain of access units whose decoding time has come. The ring has 32
  slots, so that 32 rounds are enough; more rounds than that are \<open>None\<close>.
\<close>

fun drain_aus :: "nat \<Rightarrow> u64 \<Rightarrow> tsa_es_track \<Rightarrow> tsa_es_track option" where
  "drain_aus 0 stc es = None"
| "drain_aus (Suc k) stc es =
    (if au_pending es \<and> fst (next_au es) \<le> stc then
       drain_aus k stc (es\<lparr>es_tstd := (es_tstd es)\<lparr>eb_fill_q64 := max 0 (eb_fill_q64 (es_tstd es) - INT_TO_Q64_64 (uint (snd (next_au es))))\<rparr>,
         es_au_q := (es_au_q es)\<lparr>au_head := (au_head (es_au_q es) + 1) mod 32\<rparr>\<rparr>)
     else Some es)"

definition tsa_tstd_drain :: "tsa_handle \<Rightarrow> u16 \<Rightarrow> tsa_handle option" where
  "tsa_tstd_drain h pid =
    (if h_stc_ns h = 0 then Some h
     else map_option (\<lambda>es. set_es pid (\<lambda>_. es) h) (drain_aus 32 (h_stc_ns h) (h_es_tracks h pid)))"

section \<open>Audio\<close>

definition tsa_audio_audit_init :: "es_env \<Rightarrow> tsa_es_track \<Rightarrow> tsa_es_track" where
  "tsa_audio_audit_init env es = (let
      a = es_audio es;
      sr = (if sample_rate a = 0 then 48000 else sample_rate a);
      ch = (if channels a = 0 then 2 else channels a)
    in if ebur128_state a \<or> \<not> env_ebur128_init env ch sr then es
       else es\<lparr>es_audio := \<lparr>sample_rate = sr, channels = ch, loudness_lufs = - 70, peak_db = - 100, ebur128_state = True\<rparr>\<rparr>)"

definition tsa_audio_audit_process_es :: "es_env \<Rightarrow> tsa_handle \<Rightarrow> u16 \<Rightarrow> tsa_handle" where
  "tsa_audio_audit_process_es env h pid = (let es = h_es_tracks h pid in
    if tsa_is_audio (es_stream_type es) \<and> \<not> ebur128_state (es_audio es)
    then set_es pid (tsa_audio_audit_init env) h else h)"

section \<open>The essence engine\<close>

definition reset_track :: "tsa_es_track \<Rightarrow> tsa_es_track" where
  "reset_track es = es\<lparr>
     es_tstd := (es_tstd es)\<lparr>tb_fill_q64 := 0, mb_fill_q64 := 0, eb_fill_q64 := 0, last_underflow_dts := 0\<rparr>,
     es_pes := (es_pes es)\<lparr>last_dts_33 := 0\<rparr>,
     es_au_q := (es_au_q es)\<lparr>au_head := 0, au_tail := 0\<rparr>\<rparr>"

text \<open>The packet enters the transport buffer.\<close>

definition fill_tb :: "tsa_handle \<Rightarrow> u16 \<Rightarrow> tsa_handle" where
  "fill_tb h pid = (let
      h = set_tstd pid (\<lambda>t. t\<lparr>tb_fill_q64 := tb_fill_q64 t + INT_TO_Q64_64 (188 * 8)\<rparr>) h;
      tb = tb_fill_q64 (es_tstd (h_es_tracks h pid))
    in if INT_TO_Q64_64 TSA_TSTD_TB_SIZE < tb
       then tsa_alert_update (tsa_push_event h TSA_EVENT_TSTD_OVERFLOW pid (of_int (tb div 2 ^ 64))) TSA_ALERT_TSTD True ''TSTD'' pid
       else h)"

definition check_late :: "tsa_handle \<Rightarrow> u16 \<Rightarrow> tsa_handle" where
  "check_late h pid = (let es = h_es_tracks h pid; next_dts = fst (next_au es) in
    if au_pending es \<and> next_dts < h_stc_ns h \<and> last_underflow_dts (es_tstd es) \<noteq> next_dts
    then set_tstd pid (\<lambda>t. t\<lparr>last_underflow_dts := next_dts\<rparr>)
           (tsa_alert_update (tsa_push_event h TSA_EVENT_TSTD_UNDERFLOW pid (h_stc_ns h - next_dts)) TSA_ALERT_TSTD True ''TSTD'' pid)
    else h)"

definition essence_on_ts :: "es_env \<Rightarrow> tsa_handle \<Rightarrow> packet \<Rightarrow> tsa_handle option" where
  "essence_on_ts env h pkt = (let res = h_current_res h; pid = r_pid res in
    if TS_PID_MAX \<le> unat pid \<or> pid = 0x1FFF then Some h
    else if r_has_discontinuity res \<or> latched_cc_error (h_live h) \<noteq> 0
    then tsa_es_track_clear_accumulator (set_es pid reset_track h) pid
    else do {
      h \<leftarrow> tsa_tstd_update_leak h pid (h_stc_ns h);
      let h = fill_tb h pid;
      let h = (if tsa_is_audio (es_stream_type (h_es_tracks h pid)) then tsa_audio_audit_process_es env h pid else h);
      let h = check_late h pid;
      h \<leftarrow> (if 0 < r_payload_len res then tsa_es_track_push_packet env h pid pkt res else Some h);
      tsa_tstd_drain h pid
    })"

section \<open>TR 101 290\<close>

text \<open>Lines 42 to 57: transport errors and the continuity counter.\<close>

definition check_transport :: "tsa_handle \<Rightarrow> bytes \<Rightarrow> tsa_handle" where
  "check_transport h pkt = (if pkt ! 1 AND 0x80 \<noteq> 0 then tsa_alert_update h TSA_ALERT_TRANSPORT True ''TRANSPORT'' (r_pid (h_current_res h)) else h)"

definition check_continuity :: "tsa_handle \<Rightarrow> bytes \<Rightarrow> tsa_handle" where
  "check_continuity h pkt = (let
      res = h_current_res h; pid = r_pid res; es = h_es_tracks h pid;
      s = cc_classify_error (last_cc es) (r_cc res) (r_has_payload res) (pkt ! 3 AND 0x20 \<noteq> 0 \<and> pkt ! 3 AND 0x10 = 0);
      h = (if last_cc es \<noteq> 0x10 \<and> \<not> r_has_discontinuity res \<and> (s = TS_CC_LOSS \<or> s = TS_CC_OUT_OF_ORDER) \<and> \<not> ignore_next_cc es
           then tsa_alert_update h TSA_ALERT_CC True ''CC'' pid else h)
    in set_es pid (\<lambda>es. es\<lparr>last_cc := r_cc res, ignore_next_cc := False\<rparr>) h)"

definition check_pat :: "tsa_handle \<Rightarrow> tsa_handle" where
  "check_pat h = (if 500000000 < h_current_ns h - h_last_pat_ns h then tsa_alert_update h TSA_ALERT_PAT True ''PAT_TIMEOUT'' 0
     else tsa_alert_update h TSA_ALERT_PAT False ''PAT_OK'' 0)"

definition check_pmt :: "tsa_program_info \<Rightarrow> tsa_handle \<Rightarrow> tsa_handle" where
  "check_pmt pr h =
    (if pmt_pid pr = 0 then h
     else if 500000000 < h_current_ns h - last_pmt_ns pr then tsa_alert_update h TSA_ALERT_PMT True ''PMT_TIMEOUT'' (pmt_pid pr)
     else tsa_alert_update h TSA_ALERT_PMT False ''PMT_OK'' (pmt_pid pr))"

definition check_pcr_repetition :: "tsa_handle \<Rightarrow> tsa_handle" where
  "check_pcr_repetition h = (let res = h_current_res h; pid = r_pid res; now = h_current_ns h; l = last_pcr_ns (h_es_tracks h pid) in
    if r_has_pcr res then
      set_es pid (\<lambda>es. es\<lparr>last_pcr_ns := now\<rparr>)
        (if 0 < l then
           (if 40000000 < now - l then tsa_alert_update h TSA_ALERT_PCR True ''PCR_REPETITION'' pid
            else tsa_alert_update h TSA_ALERT_PCR False ''PCR_OK'' pid)
         else h)
    else h)"

definition check_pts :: "tsa_handle \<Rightarrow> tsa_handle" where
  "check_pts h = (let res = h_current_res h; pid = r_pid res; l = last_seen_vstc (h_es_tracks h pid) in
    if r_has_pes_header res then
      set_es pid (\<lambda>es. es\<lparr>last_seen_vstc := h_stc_ns h\<rparr>)
        (if 0 < l then
           (if 700000000 < h_stc_ns h - l then tsa_alert_update h TSA_ALERT_PTS True ''PTS_TIMEOUT'' pid
            else tsa_alert_update h TSA_ALERT_PTS False ''PTS_OK'' pid)
         else h)
    else h)"

definition tr_on_ts :: "tsa_handle \<Rightarrow> bytes \<Rightarrow> tsa_handle" where
  "tr_on_ts h pkt = check_pts (check_pcr_repetition (fold check_pmt (h_programs h) (check_pat (check_continuity (check_transport h pkt) pkt))))"

section \<open>PCR\<close>

definition pcr_field :: "bytes \<Rightarrow> u64" where
  "pcr_field pkt = (push_bit 25 (ucast (pkt ! 6)) OR push_bit 17 (ucast (pkt ! 7)) OR push_bit 9 (ucast (pkt ! 8)) OR
     push_bit 1 (ucast (pkt ! 9)) OR drop_bit 7 (ucast (pkt ! 10))) * 300 +
     (push_bit 8 (ucast (pkt ! 10 AND 1)) OR ucast (pkt ! 11))"

definition TO_Q64_64 :: "rat \<Rightarrow> int option" where
  "TO_Q64_64 x = i128 (trunc (dbl (x * 2 ^ 64)))"

definition lock_master :: "tsa_handle \<Rightarrow> u16 \<Rightarrow> u64 \<Rightarrow> tsa_handle option" where
  "lock_master h pid pcr_ticks =
    (if h_master_pcr_pid h = 0x1FFF \<or> h_master_pcr_pid h = pid then let
       tr = h_pcr_tracks h pid;
       h = h\<lparr>h_master_pcr_pid := pid, h_last_pcr_ticks := pcr_ticks, h_stc_locked := ck_locked (tr_clock tr),
             h_stc_wall_drift_ppm := tr_drift_ppm tr\<rparr>
     in if h_stc_locked h then do {
          slope \<leftarrow> TO_Q64_64 (ck_slope (tr_clock tr));
          intercept \<leftarrow> TO_Q64_64 (ck_intercept (tr_clock tr));
          Some (h\<lparr>h_stc_slope_q64 := slope, h_stc_intercept_q64 := intercept\<rparr>)
        } else Some h
     else Some h)"

definition pcr_on_ts :: "tsa_handle \<Rightarrow> bytes \<Rightarrow> tsa_handle option" where
  "pcr_on_ts h pkt = (let
      res = h_current_res h; pid = r_pid res;
      o' = pcr_pid_override (h_config h);
      h = (if h_master_pcr_pid h = 0x1FFF \<and> 0 < o' then h\<lparr>h_master_pcr_pid := of_int o'\<rparr> else h)
    in if 6 \<le> r_af_len res \<and> pkt ! 5 AND 0x10 \<noteq> 0 then do {
         (_, tr, live) \<leftarrow> tsa_pcr_track_update (h_pcr_tracks h pid) (pcr_field pkt) (h_current_ns h)
           (pid_packet_count (h_live h) pid) (total_ts_packets (h_live h)) (cfg_op_mode (h_config h) = TSA_MODE_LIVE) (h_live h);
         lock_master (h\<lparr>h_pcr_tracks := (h_pcr_tracks h)(pid := tr), h_live := live\<rparr>) pid (pcr_field pkt)
       } else Some h)"

section \<open>SCTE-35\<close>

text \<open>The engine's handler is an empty branch.\<close>

definition scte35_on_ts :: "tsa_handle \<Rightarrow> tsa_handle" where
  "scte35_on_ts h = h"

definition scte35_command_name :: "u8 \<Rightarrow> string" where
  "scte35_command_name type =
    (if type = 0x00 then ''Splice Null'' else if type = 0x04 then ''Splice Schedule'' else if type = 0x05 then ''Splice Insert''
     else if type = 0x06 then ''Time Signal'' else if type = 0x07 then ''Bandwidth Reservation''
     else if type = 0xFF then ''Private Command'' else ''Reserved'')"

text \<open>\<open>((uint64_t)br_read(&r, 1) << 32) | br_read(&r, 32)\<close>; the operands are read from left to right,
  an order that C leaves open.\<close>

definition rd33 :: "bit_reader \<Rightarrow> (u64 \<times> bit_reader) option" where
  "rd33 r = do { (hi, r) \<leftarrow> rd 1 r; (lo, r) \<leftarrow> rd 32 r; Some (push_bit 32 (ucast hi) OR ucast lo, r) }"

text \<open>The target of the splice goes to all video tracks seen.\<close>

definition set_splice_target :: "u64 \<Rightarrow> tsa_handle \<Rightarrow> tsa_handle" where
  "set_splice_target pts_time h = h\<lparr>h_es_tracks := (\<lambda>i. let es = h_es_tracks h i in
     if unat i < TS_PID_MAX \<and> h_pid_seen h i \<and> (es_stream_type es = 0x1B \<or> es_stream_type es = 0x24)
     then es\<lparr>es_scte35 := (es_scte35 es)\<lparr>target_pts := pts_time, pending_splice := True\<rparr>\<rparr> else es)\<rparr>"

definition splice_insert :: "tsa_handle \<Rightarrow> bit_reader \<Rightarrow> tsa_handle option" where
  "splice_insert h r = do {
     (_, r) \<leftarrow> rd 32 r;
     (cancel, r) \<leftarrow> rd 1 r;
     (_, r) \<leftarrow> rd 7 r;
     if cancel \<noteq> 0 then Some h
     else do {
       (_, r) \<leftarrow> rd 1 r;
       (program_splice, r) \<leftarrow> rd 1 r;
       (_, r) \<leftarrow> rd 1 r;
       (immediate, r) \<leftarrow> rd 1 r;
       (_, r) \<leftarrow> rd 4 r;
       if program_splice \<noteq> 0 \<and> immediate = 0 then do {
         (time_specified, r) \<leftarrow> rd 1 r;
         if time_specified \<noteq> 0 then do { (pts_time, r) \<leftarrow> rd33 r; Some (set_splice_target pts_time h) } else Some h
       } else Some h
     }
   }"

definition splice_command_type :: "bit_reader \<Rightarrow> (u8 \<times> bit_reader) option" where
  "splice_command_type r = do {
     (_, r) \<leftarrow> rd 8 r;
     (_, r) \<leftarrow> rd 1 r;
     (_, r) \<leftarrow> rd 6 r;
     (_, r) \<leftarrow> rd33 r;
     (_, r) \<leftarrow> rd 8 r;
     (_, r) \<leftarrow> rd 12 r;
     (_, r) \<leftarrow> rd 12 r;
     (cmd, r) \<leftarrow> rd 8 r;
     Some (ucast cmd, r)
   }"

text \<open>The printed lines and the fields read only for them are left out.\<close>

definition tsa_scte35_process :: "tsa_handle \<Rightarrow> u16 \<Rightarrow> bytes \<Rightarrow> tsa_handle option" where
  "tsa_scte35_process h pid p = (let
      section_len = unat (push_bit 8 (ucast (p ! 1 AND 0x0F)) OR ucast (p ! 2) :: u16)
    in if length p < 11 \<or> p ! 0 \<noteq> 0xFC \<or> length p < section_len + 3 then Some h
       else do {
         let h = (if h_lua h then h\<lparr>h_outbox := h_outbox h @ [Lua_section pid 0xFC (take (section_len + 3) p)]\<rparr> else h);
         (cmd, r) \<leftarrow> splice_command_type (br_skip (br_init p) 24);
         h \<leftarrow> (if cmd = 0x05 then splice_insert h r else Some h);
         Some (tsa_push_event h TSA_EVENT_SCTE35 pid (ucast cmd))
       })"

section \<open>The fill levels\<close>

definition levels_ok :: "bool \<Rightarrow> tsa_tstd \<Rightarrow> bool" where
  "levels_ok is_video t \<longleftrightarrow> 0 \<le> tb_fill_q64 t \<and> 0 \<le> mb_fill_q64 t \<and> 0 \<le> eb_fill_q64 t \<and>
     eb_fill_q64 t \<le> INT_TO_Q64_64 (uint (EB_SIZE is_video))"

lemma leaked_nonneg: "leaked r dt = Some x \<Longrightarrow> 0 \<le> x"
proof -
  assume "leaked r dt = Some x"
  then have "x = uint r * uint dt * 2 ^ 64 div 1000000000" by (auto simp: leaked_def i128_def split: if_splits)
  moreover have "0 \<le> uint r * uint dt * 2 ^ 64" by simp
  ultimately show "0 \<le> x" by (simp only: pos_imp_zdiv_nonneg_iff zero_less_numeral)
qed

text \<open>
  C21. The T-STD leak keeps the buffer levels in their range and loses no bits
  of video: after any leak the transport and multiplex buffers are not
  negative, the elementary buffer is between empty and full, and the three
  levels of a video stream add up to what they were. For audio, whose leak out
  of the transport buffer is cut to the room in the elementary buffer only
  after it has been taken out, the sum drops by exactly what does not fit.
\<close>

theorem tstd_leak_conserves:
  assumes "leak_buffers r_x r_bx is_video dt t = Some t'" "levels_ok is_video t"
  shows "levels_ok is_video t' \<and>
    (if is_video then tb_fill_q64 t' + mb_fill_q64 t' + eb_fill_q64 t' = tb_fill_q64 t + mb_fill_q64 t + eb_fill_q64 t
     else tb_fill_q64 t' + eb_fill_q64 t' = tb_fill_q64 t + eb_fill_q64 t -
       max 0 (tb_fill_q64 t - tb_fill_q64 t' + eb_fill_q64 t - INT_TO_Q64_64 (uint (EB_SIZE False))))"
proof -
  obtain x where x: "leaked r_x dt = Some x" using assms(1) by (auto simp: leak_buffers_def bind_eq_Some_conv)
  have nn: "0 \<le> x" using x by (rule leaked_nonneg)
  show ?thesis
  proof (cases is_video)
    case True
    show ?thesis
    proof (cases "INT_TO_Q64_64 (uint (EB_SIZE True)) \<le> eb_fill_q64 t")
      case full: True
      then show ?thesis using assms x nn True by (auto simp: leak_buffers_def levels_ok_def Let_def)
    next
      case False
      then obtain y where y: "leaked r_bx dt = Some y" using assms(1) x True by (auto simp: leak_buffers_def Let_def bind_eq_Some_conv)
      then show ?thesis using assms x nn True False leaked_nonneg [OF y] by (auto simp: leak_buffers_def levels_ok_def Let_def)
    qed
  next
    case False
    then show ?thesis using assms x nn by (auto simp: leak_buffers_def levels_ok_def Let_def)
  qed
qed

theorem tstd_leak_conserves_witness:
  "\<exists>t'. leak_buffers 10000000 20000000 True 1000000 ((es_tstd (new_es_track 0))\<lparr>tb_fill_q64 := 1504 * 2 ^ 64\<rparr>) = Some t' \<and>
    levels_ok True t' \<and> tb_fill_q64 t' + mb_fill_q64 t' + eb_fill_q64 t' = 1504 * 2 ^ 64"
proof -
  let ?t = "(es_tstd (new_es_track 0))\<lparr>tb_fill_q64 := 1504 * 2 ^ 64\<rparr>"
  have "leak_buffers 10000000 20000000 True 1000000 ?t \<noteq> None" "levels_ok True ?t"
    by (simp_all add: leak_buffers_def leaked_def i128_def levels_ok_def new_es_track_def INT_TO_Q64_64_def EB_SIZE_def)
  then show ?thesis using tstd_leak_conserves [of 10000000 20000000 True 1000000 ?t] by (auto simp: new_es_track_def)
qed

section \<open>The queue of access units\<close>

definition au_ok :: "tsa_au_queue \<Rightarrow> bool" where
  "au_ok q \<longleftrightarrow> length (au_slots q) = 32 \<and> au_head q < 32 \<and> au_tail q < 32"

definition au_contents :: "tsa_au_queue \<Rightarrow> (u64 \<times> u32) list" where
  "au_contents q = ring_slice (au_slots q) 32 (unat (au_head q)) ((unat (au_tail q) + 32 - unat (au_head q)) mod 32)"

lemma au_count: "au_ok q \<Longrightarrow> length (au_contents q) = 0 \<longleftrightarrow> au_head q = au_tail q"
proof -
  assume "au_ok q"
  then have "unat (au_head q) < 32" "unat (au_tail q) < 32" by (simp_all add: au_ok_def word_less_nat_alt)
  moreover have "(t + 32 - h) mod 32 = 0 \<longleftrightarrow> h = t" if "h < 32" "t < 32" for h t :: nat
  proof (cases "h \<le> t")
    case True
    then have "t + 32 - h = t - h + 32" by linarith
    moreover have "t - h < 32" using that by linarith
    ultimately have "(t + 32 - h) mod 32 = t - h" by (simp only: mod_add_self2 mod_less)
    then show ?thesis using True by auto
  next
    case False
    then have "t + 32 - h < 32" "t + 32 - h \<noteq> 0" using that by linarith+
    then show ?thesis using False by (simp only: mod_less) simp
  qed
  ultimately show ?thesis by (simp add: au_contents_def word_eq_iff_unsigned [where 'a = nat] del: length_0_conv)
qed

lemma au_index: "i < 32 \<Longrightarrow> unat ((i + 1) mod 32) = (unat i + 1) mod 32 \<and> (i + 1) mod 32 < 32" for i :: u8
proof -
  assume "i < 32"
  then have i: "unat i < 32" by (simp add: word_less_nat_alt)
  then have "unat (i + 1) = unat i + 1" by (simp add: unat_word_ariths)
  then have "unat ((i + 1) mod 32) = (unat i + 1) mod 32" by (simp add: unat_mod)
  then show ?thesis by (simp add: word_less_nat_alt)
qed

lemma ring_count_step:
  assumes "h < 32" "t < 32" "h \<noteq> t"
  shows "(t + 32 - h) mod 32 = Suc ((t + 32 - (h + 1) mod 32) mod (32 :: nat))"
proof (cases "h < t")
  case True
  then have "(t + 32 - h) mod 32 = t - h" "(t + 32 - (h + 1)) mod 32 = t - (h + 1)"
    using assms mod_add_self2 [of "t - h" 32] mod_add_self2 [of "t - (h + 1)" 32] by simp_all
  then show ?thesis using True assms by simp
next
  case False
  then show ?thesis using assms by (cases "h = 31") auto
qed

lemma au_pop:
  assumes "au_ok q" "au_head q \<noteq> au_tail q"
  defines "q' \<equiv> q\<lparr>au_head := (au_head q + 1) mod 32\<rparr>"
  shows "au_ok q' \<and> au_contents q = au_slots q ! unat (au_head q) # au_contents q'"
proof -
  have lt: "unat (au_head q) < 32" "unat (au_tail q) < 32" using assms(1) by (simp_all add: au_ok_def word_less_nat_alt)
  have ne: "unat (au_head q) \<noteq> unat (au_tail q)" using assms(2) by (simp add: word_eq_iff_unsigned [where 'a = nat])
  note i = au_index [of "au_head q"]
  have "au_contents q = ring_slice (au_slots q) 32 (unat (au_head q)) (Suc ((unat (au_tail q) + 32 - (unat (au_head q) + 1) mod 32) mod 32))"
    by (simp only: au_contents_def ring_count_step [OF lt ne])
  also have "\<dots> = au_slots q ! unat (au_head q) # au_contents q'"
    using i assms(1) lt(1) ring_slice_mod [of "au_slots q" 32 "unat (au_head q) + 1"]
    by (simp add: ring_slice_Suc au_contents_def q'_def au_ok_def)
  finally show ?thesis using i assms(1) by (simp add: au_ok_def q'_def)
qed

lemma drain_aus_spec:
  assumes "au_ok (es_au_q es)" "length (au_contents (es_au_q es)) < k"
  shows "\<exists>es'. drain_aus k stc es = Some es' \<and> au_ok (es_au_q es') \<and>
    au_contents (es_au_q es') = dropWhile (\<lambda>(d, _). d \<le> stc) (au_contents (es_au_q es)) \<and>
    eb_fill_q64 (es_tstd es') = foldl (\<lambda>e (_, n). max 0 (e - INT_TO_Q64_64 (uint n))) (eb_fill_q64 (es_tstd es))
      (takeWhile (\<lambda>(d, _). d \<le> stc) (au_contents (es_au_q es)))"
  using assms
proof (induction k arbitrary: es)
  case (Suc k)
  show ?case
  proof (cases "au_pending es")
    case True
    then have p: "au_head (es_au_q es) \<noteq> au_tail (es_au_q es)" by (simp add: au_pending_def)
    note c = au_pop [OF Suc.prems(1) p]
    let ?es = "es\<lparr>es_tstd := (es_tstd es)\<lparr>eb_fill_q64 := max 0 (eb_fill_q64 (es_tstd es) - INT_TO_Q64_64 (uint (snd (next_au es))))\<rparr>,
         es_au_q := (es_au_q es)\<lparr>au_head := (au_head (es_au_q es) + 1) mod 32\<rparr>\<rparr>"
    have h: "au_contents (es_au_q es) = next_au es # au_contents (es_au_q ?es)" "au_ok (es_au_q ?es)"
      using c by (simp_all add: next_au_def)
    show ?thesis
    proof (cases "fst (next_au es) \<le> stc")
      case due: True
      have d: "drain_aus (Suc k) stc es = drain_aus k stc ?es" using True due by simp
      show ?thesis unfolding d h(1) using Suc.IH [OF h(2)] Suc.prems(2) h(1) due
        by (cases "next_au es") simp
    next
      case False
      then show ?thesis using h(1) Suc.prems(1) by (cases "next_au es") simp
    qed
  next
    case False
    then have "au_contents (es_au_q es) = []" using au_count [OF Suc.prems(1)] by (simp add: au_pending_def)
    then show ?thesis using False Suc.prems(1) by simp
  qed
qed simp

lemma ring_tail:
  assumes "h < 32" "t < 32"
  shows "(h + (t + 32 - h) mod 32) mod 32 = (t :: nat)"
proof (cases "h \<le> t")
  case True
  then have "(t + 32 - h) mod 32 = t - h" using assms mod_add_self2 [of "t - h" 32] by simp
  then show ?thesis using True assms by simp
next
  case False
  then show ?thesis using assms by simp
qed

lemma ring_push_count:
  assumes "h < 32" "t < 32"
  shows "((t + 1) mod 32 = h \<longleftrightarrow> (t + 32 - h) mod 32 = (31 :: nat)) \<and>
    ((t + 1) mod 32 \<noteq> h \<longrightarrow> ((t + 1) mod 32 + 32 - h) mod 32 = Suc ((t + 32 - h) mod 32))"
proof (cases "h \<le> t")
  case True
  then have e: "t + 32 - h = t - h + 32" "33 + t - h = Suc (t - h) + 32" by simp_all
  have "(t + 32 - h) mod 32 = t - h" "t \<noteq> 31 \<Longrightarrow> (33 + t - h) mod 32 = Suc (t - h)"
    unfolding e mod_add_self2 using True assms by simp_all
  then show ?thesis using True assms by (cases "t = 31"; cases "h = 0") auto
next
  case False
  then show ?thesis using assms by (cases "t + 1 = h") auto
qed

lemma queue_au_spec:
  assumes "au_ok (es_au_q es)"
  defines "u \<equiv> (pending_dts_ns (es_pes es), pes_total_length (es_pes es) * 8)"
  shows "au_ok (es_au_q (queue_au es)) \<and> au_contents (es_au_q (queue_au es)) =
    (if 0 < pending_dts_ns (es_pes es) \<and> length (au_contents (es_au_q es)) < 31
     then au_contents (es_au_q es) @ [u] else au_contents (es_au_q es))"
proof -
  let ?q = "es_au_q es"
  have lt: "unat (au_head ?q) < 32" "unat (au_tail ?q) < 32" and l: "length (au_slots ?q) = 32"
    using assms(1) by (simp_all add: au_ok_def word_less_nat_alt)
  define n where "n = (unat (au_tail ?q) + 32 - unat (au_head ?q)) mod 32"
  have i: "unat ((au_tail ?q + 1) mod 32) = (unat (au_tail ?q) + 1) mod 32" "(au_tail ?q + 1) mod 32 < 32"
    using au_index assms(1) by (simp_all add: au_ok_def)
  note c = ring_push_count [OF lt]
  have f: "(au_tail ?q + 1) mod 32 = au_head ?q \<longleftrightarrow> n = 31"
    using c i by (simp add: word_eq_iff_unsigned [where 'a = nat] n_def)
  have "n < 32" by (simp add: n_def)
  have t: "unat (au_tail ?q) = (unat (au_head ?q) + n) mod 32" using ring_tail [OF lt] by (simp add: n_def)
  show ?thesis
  proof (cases "0 < pending_dts_ns (es_pes es) \<and> n < 31")
    case True
    then have "(au_tail ?q + 1) mod 32 \<noteq> au_head ?q" using f by simp
    moreover have "((unat (au_tail ?q) + 1) mod 32 + 32 - unat (au_head ?q)) mod 32 = Suc n"
      using c True by (simp add: n_def)
    ultimately show ?thesis using True assms(1) i l ring_slice_update [of n 32 "au_slots ?q" "unat (au_head ?q)" u]
      by (simp add: queue_au_def Let_def au_contents_def au_ok_def n_def [symmetric] u_def [symmetric] t [symmetric])
  next
    case False
    then have "queue_au es = es" using f \<open>n < 32\<close> by (auto simp: queue_au_def Let_def)
    then show ?thesis using False assms(1) by (auto simp: au_contents_def n_def)
  qed
qed

text \<open>
  C12. The access units of a track are a bounded first-in first-out queue: a
  finished unit with a decoding time is appended while fewer than 31 wait and
  dropped otherwise; the drain always ends, removes exactly the units at the
  front whose decoding time has been reached, and takes their sizes out of the
  elementary buffer one after the other, never below empty.
\<close>

theorem au_queue_refines:
  assumes "au_ok (es_au_q es)"
  shows "au_contents (es_au_q (queue_au es)) =
      au_contents (es_au_q es) @ (if 0 < pending_dts_ns (es_pes es) \<and> length (au_contents (es_au_q es)) < 31
        then [(pending_dts_ns (es_pes es), pes_total_length (es_pes es) * 8)] else []) \<and>
    au_ok (es_au_q (queue_au es)) \<and>
    (\<exists>es'. drain_aus 32 stc es = Some es' \<and> au_ok (es_au_q es') \<and>
      au_contents (es_au_q es') = dropWhile (\<lambda>(d, _). d \<le> stc) (au_contents (es_au_q es)) \<and>
      eb_fill_q64 (es_tstd es') = foldl (\<lambda>e (_, n). max 0 (e - INT_TO_Q64_64 (uint n))) (eb_fill_q64 (es_tstd es))
        (takeWhile (\<lambda>(d, _). d \<le> stc) (au_contents (es_au_q es))))"
proof -
  have "length (au_contents (es_au_q es)) < 32" by (simp add: au_contents_def)
  then show ?thesis using drain_aus_spec [OF assms, of 32 stc] queue_au_spec [OF assms] by auto
qed

theorem au_queue_refines_witness:
  "au_ok (es_au_q (new_es_track 0)) \<and>
    au_contents (es_au_q (queue_au ((new_es_track 0)\<lparr>es_pes := (es_pes (new_es_track 0))\<lparr>pending_dts_ns := 40, pes_total_length := 3\<rparr>\<rparr>))) = [(40, 24)]"
proof -
  let ?es = "(new_es_track 0)\<lparr>es_pes := (es_pes (new_es_track 0))\<lparr>pending_dts_ns := 40, pes_total_length := 3\<rparr>\<rparr>"
  have "au_ok (es_au_q ?es)" "au_contents (es_au_q ?es) = []" by (simp_all add: au_ok_def au_contents_def new_es_track_def)
  then show ?thesis using au_queue_refines [of ?es 0] by simp
qed

section \<open>Splice sections\<close>

lemma skip_step:
  assumes "feeds r bs" "n \<le> length bs" "n \<le> 32" "\<And>v r'. feeds r' (drop n bs) \<Longrightarrow> f (v, r') = res"
  shows "rd n r \<bind> f = res"
  by (rule field_step [of r "take n bs" "drop n bs"]) (use assms in simp_all)

lemma rd33_step:
  assumes "feeds r (bs @ rest)" "length bs = 33" "\<And>r'. feeds r' rest \<Longrightarrow> f (bits_word bs, r') = res"
  shows "rd33 r \<bind> f = res"
proof -
  obtain b cs where b: "bs = b # cs" "length cs = 32" using assms(2) by (cases bs) auto
  have w: "push_bit 32 (ucast (of_bool b :: u32)) OR ucast (of_nat (bits_val cs) :: u32) = (bits_word bs :: u64)"
  proof -
    have v: "bits_val cs < 2 ^ 32" using bits_val_less [of cs] b(2) by simp
    have "bits_word bs = push_bit 32 (bits_word [b]) OR (bits_word cs :: u64)"
      using bits_word_append [of "[b]" cs] b by simp
    moreover have "bits_word [b] = (ucast (of_bool b :: u32) :: u64)" by (simp add: bits_word_def bits_val_def)
    moreover have "bits_word cs = (ucast (of_nat (bits_val cs) :: u32) :: u64)"
      using v by (simp add: bits_word_def unsigned_of_nat take_bit_nat_eq_self)
    ultimately show ?thesis by simp
  qed
  have "rd (Suc 0) r \<bind> (\<lambda>(hi, r). rd 32 r \<bind> (\<lambda>(lo, r). f (push_bit 32 (ucast hi) OR ucast lo, r))) = res"
    using assms(1) unfolding b(1) append_Cons
    by (rule flag_step, unfold prod.case, intro field_step [where bs = cs and rest = rest])
      (use b(2) assms(3) w in simp_all)
  then show ?thesis by (simp add: rd33_def bind_assoc case_prod_unfold)
qed

text \<open>
  A splice information section with a scheduled splice: 24 bits of section
  header, 80 bits up to the command type, the event, and the splice time.
\<close>

definition splice_bits :: "bool list \<Rightarrow> bool list \<Rightarrow> bool list \<Rightarrow> bool \<Rightarrow> bool \<Rightarrow> bool list \<Rightarrow> bool list" where
  "splice_bits header fixed event out_of_network duration pts =
     header @ fixed @ byte_bits 0x05 @ event @ False # replicate 7 True @ out_of_network # True # duration # False #
     replicate 4 True @ True # pts"

lemma splice_insert_reads:
  assumes "feeds r (event @ False # seven @ oon # True # dur # False # four @ True # pts @ rest)"
    "length event = 32" "length seven = 7" "length four = 4" "length pts = 33"
  shows "splice_insert h r = Some (set_splice_target (bits_word pts) h)"
  unfolding splice_insert_def One_nat_def
  using assms
  by - (erule field_step, simp, simp, simp, erule flag_step, simp, erule field_step, simp, simp, simp,
      (erule flag_step, simp)+, erule field_step, simp, simp, simp, erule flag_step, simp, erule rd33_step, simp, simp)

lemma rd33_skip:
  assumes "feeds r bs" "33 \<le> length bs" "\<And>v r'. feeds r' (drop 33 bs) \<Longrightarrow> f (v, r') = res"
  shows "rd33 r \<bind> f = res"
  by (rule rd33_step [of r "take 33 bs" "drop 33 bs"]) (use assms in simp_all)

lemma command_reads:
  assumes "feeds r (fixed @ byte_bits c @ rest)" "length fixed = 80"
  shows "\<exists>r'. splice_command_type r = Some (c, r') \<and> feeds r' rest"
proof -
  have *: "(splice_command_type r \<bind> (\<lambda>x. Some (fst x = c \<and> feeds (snd x) rest))) = Some True"
    unfolding splice_command_type_def bind_assoc One_nat_def
    apply (rule skip_step [OF assms(1)], simp, simp)
    apply (unfold prod.case bind_assoc, erule skip_step, simp add: assms, simp)
    apply (unfold prod.case bind_assoc, erule skip_step, simp add: assms, simp)
    apply (unfold prod.case bind_assoc, erule rd33_skip, simp add: assms)
    apply (unfold prod.case bind_assoc, erule skip_step, simp add: assms, simp)
    apply (unfold prod.case bind_assoc, erule skip_step, simp add: assms, simp)
    apply (unfold prod.case bind_assoc, erule skip_step, simp add: assms, simp)
    apply (simp add: assms bind_assoc)
    apply (erule byte_step)
    apply (simp add: byte_of_u32)
    done
  then show ?thesis by (cases "splice_command_type r") auto
qed


definition splice_section :: bytes where
  "splice_section = [0xFC, 0x30, 22] @ replicate 10 0 @ [0x05] @ [0, 0, 0, 1] @ [0x7F] @ [0xCF] @ [0x80, 0x00, 0x57, 0xE4, 0x00]"

definition video_handle :: tsa_handle where
  "video_handle = (tsa_create None False False)\<lparr>h_pid_seen := (\<lambda>i. i = 256),
     h_es_tracks := new_es_track(256 := (new_es_track 256)\<lparr>es_stream_type := 0x1B\<rparr>)\<rparr>"


end
