(* ===== verification/Tsa_Simd.thy ===== *)
theory Tsa_Simd
  imports Tsa_Prelude
begin

text \<open>
  The dispatch table for the search of sync bytes and the extraction of PIDs
  (\<open>src/tsa_simd.c\<close>, \<open>src/tsa_simd_sse42.c\<close>, \<open>src/tsa_simd_avx2.c\<close>). A vector
  register is the list of its bytes, an intrinsic is written out on the list.
  The address of the buffer is an argument where the code aligns its loads.
\<close>

unbundle bit_operations_syntax

section \<open>Scalar routines\<close>

text \<open>The loops from index \<open>i\<close> to the end of the buffer; -1 says that there is no sync byte.\<close>

function scan_sync :: "bytes \<Rightarrow> nat \<Rightarrow> int" where
  "scan_sync buf i = (if length buf \<le> i then - 1 else if buf ! i = 0x47 then int i else scan_sync buf (Suc i))"
  by pat_completeness auto
termination by (relation "measure (\<lambda>(buf, i). length buf - i)") auto

declare scan_sync.simps [simp del]

definition find_sync_scalar :: "bytes \<Rightarrow> int" where
  "find_sync_scalar buf = scan_sync buf 0"

text \<open>The PID of the packet at an offset.\<close>

definition pid_at :: "bytes \<Rightarrow> nat \<Rightarrow> u16" where
  "pid_at buf p = push_bit 8 (ucast (buf ! (p + 1) AND 0x1F)) OR ucast (buf ! (p + 2))"

definition extract_pids_8_scalar :: "bytes \<Rightarrow> u16 list" where
  "extract_pids_8_scalar buf = map (\<lambda>i. pid_at buf (i * 188)) [0..<8]"

definition check_sync_batch_scalar :: "bytes \<Rightarrow> nat \<Rightarrow> u64" where
  "check_sync_batch_scalar buf packet_count =
    fold (\<lambda>i mask. if buf ! (i * 188) = 0x47 then mask OR push_bit i 1 else mask) [0..<min packet_count 64] 0"

section \<open>Vector routines\<close>

text \<open>\<open>_mm_movemask_epi8\<close> of \<open>_mm_cmpeq_epi8\<close>, and \<open>__builtin_ctz\<close> of a mask that is not zero.\<close>

definition movemask_eq :: "u8 \<Rightarrow> bytes \<Rightarrow> u32" where
  "movemask_eq v data = horner_sum of_bool 2 (map (\<lambda>b. b = v) data)"

definition builtin_ctz :: "u32 \<Rightarrow> nat" where
  "builtin_ctz m = length (takeWhile (\<lambda>n. \<not> bit m n) [0..<32])"

text \<open>The head of the buffer up to an aligned address: the index reached, or the hit.\<close>

function align_head :: "nat \<Rightarrow> u64 \<Rightarrow> bytes \<Rightarrow> nat \<Rightarrow> nat + nat" where
  "align_head w addr buf i =
    (if (unat addr + i) mod w \<noteq> 0 \<and> i < length buf then
       (if buf ! i = 0x47 then Inr i else align_head w addr buf (Suc i))
     else Inl i)"
  by pat_completeness auto
termination by (relation "measure (\<lambda>(w, addr, buf, i). length buf - i)") auto

declare align_head.simps [simp del]

text \<open>The loop over whole vectors of \<open>Suc w\<close> bytes and the scalar loop after it.\<close>

function vector_scan :: "nat \<Rightarrow> bytes \<Rightarrow> nat \<Rightarrow> int" where
  "vector_scan w buf i =
    (if i + w < length buf then let mask = movemask_eq 0x47 (take (Suc w) (drop i buf)) in
       if mask \<noteq> 0 then int (i + builtin_ctz mask) else vector_scan w buf (i + Suc w)
     else scan_sync buf i)"
  by pat_completeness auto
termination by (relation "measure (\<lambda>(w, buf, i). length buf - i)") auto

declare vector_scan.simps [simp del]

definition tsa_simd_find_sync_sse42 :: "u64 \<Rightarrow> bytes \<Rightarrow> int" where
  "tsa_simd_find_sync_sse42 addr buf =
    (if length buf < 16 then scan_sync buf 0
     else case align_head 16 addr buf 0 of Inr i \<Rightarrow> int i | Inl i \<Rightarrow> vector_scan 15 buf i)"

definition tsa_simd_find_sync_avx2 :: "u64 \<Rightarrow> bytes \<Rightarrow> int" where
  "tsa_simd_find_sync_avx2 addr buf =
    (if length buf < 32 then scan_sync buf 0
     else case align_head 32 addr buf 0 of Inr i \<Rightarrow> int i | Inl i \<Rightarrow> vector_scan 31 buf i)"

definition tsa_simd_extract_pids_8_sse42 :: "bytes \<Rightarrow> u16 list" where
  "tsa_simd_extract_pids_8_sse42 buf = map (\<lambda>i. pid_at buf (i * 188)) [0..<8]"

text \<open>The gathered little-endian dword at an offset.\<close>

definition gather_dword :: "bytes \<Rightarrow> nat \<Rightarrow> u32" where
  "gather_dword buf o' = ucast (buf ! o') OR push_bit 8 (ucast (buf ! (o' + 1))) OR push_bit 16 (ucast (buf ! (o' + 2))) OR
     push_bit 24 (ucast (buf ! (o' + 3)))"

definition tsa_simd_extract_pids_8_avx2 :: "bytes \<Rightarrow> u16 list" where
  "tsa_simd_extract_pids_8_avx2 buf = map (\<lambda>o'. let
      temp = drop_bit 8 (gather_dword buf o') AND 0xFFFF;
      b1 = ucast (temp AND 0xFF) :: u16;
      b2 = ucast (drop_bit 8 temp AND 0xFF) :: u16
    in push_bit 8 (b1 AND 0x1F) OR b2) [0, 188, 376, 564, 752, 940, 1128, 1316]"

section \<open>Dispatch\<close>

record tsa_simd_ops =
  find_sync :: "u64 \<Rightarrow> bytes \<Rightarrow> int"
  extract_pids_8 :: "bytes \<Rightarrow> u16 list"
  check_sync_batch :: "bytes \<Rightarrow> nat \<Rightarrow> u64"
  is_accelerated :: bool

definition tsa_simd_default :: tsa_simd_ops where
  "tsa_simd_default = \<lparr>find_sync = (\<lambda>_. find_sync_scalar), extract_pids_8 = extract_pids_8_scalar,
     check_sync_batch = check_sync_batch_scalar, is_accelerated = False\<rparr>"

text \<open>What the processor reports: the registers of leaf 1 and leaf 7, and XCR0.\<close>

record cpuid =
  leaf1_ecx :: "u32 option"
  xcr0_eax :: u32
  leaf7_ebx :: "u32 option"

record tsa_cpu_caps =
  has_avx2 :: bool
  has_sse42 :: bool

definition tsa_get_cpu_caps :: "cpuid \<Rightarrow> tsa_cpu_caps" where
  "tsa_get_cpu_caps cpu = (case leaf1_ecx cpu of
      None \<Rightarrow> \<lparr>has_avx2 = False, has_sse42 = False\<rparr>
    | Some ecx \<Rightarrow> let
        has_osxsave = bit ecx 27; has_avx = bit ecx 28;
        avx2 = (if has_osxsave \<and> has_avx \<and> xcr0_eax cpu AND 6 = 6
                then (case leaf7_ebx cpu of None \<Rightarrow> False | Some ebx \<Rightarrow> bit ebx 5) else False)
      in \<lparr>has_avx2 = avx2, has_sse42 = bit ecx 20\<rparr>)"

definition tsa_simd_capable :: "tsa_cpu_caps \<Rightarrow> bool" where
  "tsa_simd_capable caps \<longleftrightarrow> has_avx2 caps \<or> has_sse42 caps"

definition tsa_simd_init_impl :: "cpuid \<Rightarrow> tsa_simd_ops" where
  "tsa_simd_init_impl cpu = (let caps = tsa_get_cpu_caps cpu in
    if has_avx2 caps then tsa_simd_default\<lparr>find_sync := tsa_simd_find_sync_avx2,
      extract_pids_8 := tsa_simd_extract_pids_8_avx2, is_accelerated := True\<rparr>
    else if has_sse42 caps then tsa_simd_default\<lparr>find_sync := tsa_simd_find_sync_sse42,
      extract_pids_8 := tsa_simd_extract_pids_8_sse42, is_accelerated := True\<rparr>
    else tsa_simd_default)"

section \<open>Search for the first sync byte\<close>

text \<open>The contract of a search routine, whatever the address of the buffer: the first index from \<open>i\<close> on.\<close>

definition sync_from :: "bytes \<Rightarrow> nat \<Rightarrow> int" where
  "sync_from buf i = (case find (\<lambda>j. buf ! j = 0x47) [i..<length buf] of None \<Rightarrow> - 1 | Some j \<Rightarrow> int j)"

locale sync_search =
  fixes search :: "u64 \<Rightarrow> bytes \<Rightarrow> int"
  assumes search_first: "search addr buf = sync_from buf 0"
begin

lemma search_hit: "search addr buf = int j \<longleftrightarrow> j < length buf \<and> buf ! j = 0x47 \<and> (\<forall>k < j. buf ! k \<noteq> 0x47)"
proof -
  have "find (\<lambda>j. buf ! j = 0x47) [0..<length buf] = Some j \<longleftrightarrow> j < length buf \<and> buf ! j = 0x47 \<and> (\<forall>k < j. buf ! k \<noteq> 0x47)"
    by (auto simp: find_Some_iff)
  then show ?thesis by (auto simp: search_first sync_from_def split: option.splits)
qed

lemma search_miss: "search addr buf = - 1 \<longleftrightarrow> 0x47 \<notin> set buf"
  by (auto simp: search_first sync_from_def find_None_iff find_Some_iff in_set_conv_nth split: option.splits)

lemma search_cases: obtains "search addr buf = - 1" | j where "search addr buf = int j" "j < length buf"
  by (cases "find (\<lambda>j. buf ! j = 0x47) [0..<length buf]")
    (auto simp: search_first sync_from_def find_Some_iff)

end

lemma sync_from_step: "i < length buf \<Longrightarrow> sync_from buf i = (if buf ! i = 0x47 then int i else sync_from buf (Suc i))"
  by (simp add: sync_from_def upt_conv_Cons)

lemma sync_from_end: "length buf \<le> i \<Longrightarrow> sync_from buf i = - 1"
  by (simp add: sync_from_def)

lemma sync_from_skip:
  assumes "i \<le> j" "j \<le> length buf" "\<And>k. i \<le> k \<Longrightarrow> k < j \<Longrightarrow> buf ! k \<noteq> 0x47"
  shows "sync_from buf i = sync_from buf j"
  using assms by (induction rule: inc_induct) (auto simp: sync_from_step)

lemma scan_sync_first: "scan_sync buf i = sync_from buf i"
proof (induction buf i rule: scan_sync.induct)
  case (1 buf i)
  then show ?case by (subst scan_sync.simps) (simp add: sync_from_step sync_from_end)
qed

lemma align_head_first:
  "i \<le> length buf \<Longrightarrow> (case align_head w addr buf i of
      Inl j \<Rightarrow> j \<le> length buf \<and> sync_from buf i = sync_from buf j \<and> (j < length buf \<longrightarrow> (unat addr + j) mod w = 0)
    | Inr j \<Rightarrow> sync_from buf i = int j)"
proof (induction w addr buf i rule: align_head.induct)
  case (1 w addr buf i)
  then show ?case by (subst align_head.simps) (auto simp: sync_from_step split: sum.splits)
qed

lemma movemask_bit: "n < length data \<Longrightarrow> length data \<le> 32 \<Longrightarrow> bit (movemask_eq v data) n \<longleftrightarrow> data ! n = v"
  by (simp add: movemask_eq_def bit_horner_sum_bit_word_iff)

lemma movemask_zero: "length data \<le> 32 \<Longrightarrow> movemask_eq v data = 0 \<longleftrightarrow> v \<notin> set data"
  by (auto simp: movemask_eq_def bit_eq_iff bit_horner_sum_bit_word_iff in_set_conv_nth)

lemma builtin_ctz_bit:
  assumes "bit m n" "\<And>k. k < n \<Longrightarrow> \<not> bit m k" "n < 32"
  shows "builtin_ctz m = n"
proof -
  have "[0..<32] = [0..<n] @ n # [Suc n..<32]"
    using assms(3) by (metis le_add1 less_imp_add_positive plus_nat.add_0 upt_add_eq_append upt_conv_Cons zero_le)
  then show ?thesis using assms by (simp add: builtin_ctz_def takeWhile_append)
qed

lemma vector_scan_first:
  assumes "w < 32"
  shows "vector_scan w buf i = sync_from buf i"
proof (induction "length buf - i" arbitrary: i rule: less_induct)
  case less
  let ?data = "take (Suc w) (drop i buf)"
  show ?case
  proof (cases "i + w < length buf")
    case True
    then have l: "length ?data = Suc w" by simp
    have n: "?data ! k = buf ! (i + k)" if "k < Suc w" for k using that True by simp
    show ?thesis
    proof (cases "0x47 \<in> set ?data")
      case hit: True
      define k where "k = (LEAST k. k < Suc w \<and> ?data ! k = 0x47)"
      have "\<exists>k. k < Suc w \<and> ?data ! k = 0x47" using hit l by (metis in_set_conv_nth)
      then have k: "k < Suc w" "?data ! k = 0x47" unfolding k_def by (metis (mono_tags, lifting) LeastI_ex)+
      have b: "?data ! m \<noteq> 0x47" if "m < k" for m using that k(1) not_less_Least [of m] unfolding k_def by fastforce
      have c: "builtin_ctz (movemask_eq 0x47 ?data) = k"
        using k b l assms by (intro builtin_ctz_bit) (simp_all add: movemask_bit)
      have "sync_from buf i = sync_from buf (i + k)"
      proof (rule sync_from_skip)
        fix m assume "i \<le> m" "m < i + k"
        then show "buf ! m \<noteq> 0x47" using b [of "m - i"] n [of "m - i"] k(1) by simp
      qed (use True k(1) in simp_all)
      also have "\<dots> = int (i + k)" using True k n by (simp add: sync_from_step)
      finally show ?thesis using True hit l assms c by (subst vector_scan.simps) (simp add: movemask_zero Let_def)
    next
      case False
      then have "\<And>k. i \<le> k \<Longrightarrow> k < i + Suc w \<Longrightarrow> buf ! k \<noteq> 0x47"
        using n l by (metis add_diff_inverse_nat add_less_cancel_left nat_add_left_cancel_less not_less nth_mem)
      then have "sync_from buf i = sync_from buf (i + Suc w)" using True by (intro sync_from_skip) auto
      moreover have "vector_scan w buf (i + Suc w) = sync_from buf (i + Suc w)" using True by (intro less) simp
      ultimately show ?thesis using True False l assms by (subst vector_scan.simps) (simp add: movemask_zero)
    qed
  next
    case False
    then show ?thesis by (subst vector_scan.simps) (simp add: scan_sync_first)
  qed
qed

interpretation scalar: sync_search "\<lambda>_. find_sync_scalar"
  by unfold_locales (simp add: find_sync_scalar_def scan_sync_first)

interpretation sse42: sync_search tsa_simd_find_sync_sse42
proof
  fix addr buf
  show "tsa_simd_find_sync_sse42 addr buf = sync_from buf 0"
    using align_head_first [where i = 0 and buf = buf and w = 16 and addr = addr]
    by (auto simp: tsa_simd_find_sync_sse42_def scan_sync_first vector_scan_first split: sum.splits)
qed

interpretation avx2: sync_search tsa_simd_find_sync_avx2
proof
  fix addr buf
  show "tsa_simd_find_sync_avx2 addr buf = sync_from buf 0"
    using align_head_first [where i = 0 and buf = buf and w = 32 and addr = addr]
    by (auto simp: tsa_simd_find_sync_avx2_def scan_sync_first vector_scan_first split: sum.splits)
qed

interpretation dispatch: sync_search "find_sync (tsa_simd_init_impl cpu)" for cpu
  by unfold_locales
    (simp add: tsa_simd_init_impl_def tsa_simd_default_def Let_def sse42.search_first avx2.search_first scalar.search_first)

section \<open>Extraction of PIDs\<close>

lemma mask_words: "(0xFF :: u32) = mask 8" "(0xFFFF :: u32) = mask 16"
  by (simp_all add: mask_eq_exp_minus_1)

lemma gather_fields:
  "(drop_bit 8 (gather_dword buf o') AND 0xFFFF) AND 0xFF = ucast (buf ! (o' + 1))"
  "drop_bit 8 (drop_bit 8 (gather_dword buf o') AND 0xFFFF) AND 0xFF = ucast (buf ! (o' + 2))"
  unfolding mask_words
  by (rule bit_word_eqI, auto simp: gather_dword_def bit_simps dest: bit_imp_le_length)+

lemma extract_avx2: "tsa_simd_extract_pids_8_avx2 buf = extract_pids_8_scalar buf"
proof -
  have m: "(ucast b :: u16) AND 0x1F = ucast (b AND 0x1F)" for b :: u8
    by (rule bit_word_eqI) (auto simp: bit_simps dest: bit_imp_le_length)
  have u: "ucast (ucast b :: u32) = (ucast b :: u16)" for b :: u8
    by (rule bit_word_eqI) (auto simp: bit_simps dest: bit_imp_le_length)
  have p: "(let temp = drop_bit 8 (gather_dword buf o') AND 0xFFFF; b1 = ucast (temp AND 0xFF) :: u16;
      b2 = ucast (drop_bit 8 temp AND 0xFF) :: u16 in push_bit 8 (b1 AND 0x1F) OR b2) =
    push_bit 8 (ucast (buf ! (o' + 1) AND 0x1F)) OR ucast (buf ! (o' + 2))" for o'
    unfolding Let_def gather_fields u m ..
  have "[0..<8] = [0, 1, 2, 3, 4, 5, 6, 7 :: nat]" by code_simp
  then show ?thesis
    unfolding tsa_simd_extract_pids_8_avx2_def p extract_pids_8_scalar_def pid_at_def by simp
qed

text \<open>
  C22. The vector routines agree with the scalar ones: on every processor the
  dispatch table finds the same first sync byte as the scalar loop, for every
  buffer at every address, and extracts the same eight PIDs.
\<close>

theorem simd_dispatch_equivalent:
  "find_sync (tsa_simd_init_impl cpu) addr buf = find_sync_scalar buf \<and>
   extract_pids_8 (tsa_simd_init_impl cpu) buf' = extract_pids_8_scalar buf'"
proof -
  have "find_sync (tsa_simd_init_impl cpu) addr buf = find_sync_scalar buf"
    unfolding dispatch.search_first scalar.search_first ..
  moreover have "extract_pids_8 (tsa_simd_init_impl cpu) buf' = extract_pids_8_scalar buf'"
    by (simp add: tsa_simd_init_impl_def tsa_simd_default_def Let_def extract_avx2 tsa_simd_extract_pids_8_sse42_def
        extract_pids_8_scalar_def)
  ultimately show ?thesis ..
qed

end
