(* ===== verification/Tsa_Process.thy ===== *)
theory Tsa_Process
  imports Tsa_Engines Tsa_Simd
begin

text \<open>
  The path of a packet (\<open>src/tsa.c\<close>): \<open>tsa_process_packet\<close> with the dispatch to
  the engines, and \<open>tsa_feed_data\<close>, which cuts the byte stream into packets.

  The feed is a function of the packet handler it calls, as the loops of the
  source depend on it only through the handle; \<open>tsa_process_packet\<close> is the
  handler of the program. \<open>None\<close> is undefined behaviour of the handler, or a
  copy past the end of the 188 bytes of \<open>sync_buffer\<close>.
\<close>

section \<open>One packet\<close>

definition plugin_on_ts :: "es_env \<Rightarrow> packet \<Rightarrow> tsa_plugin_ops \<Rightarrow> tsa_handle \<Rightarrow> tsa_handle option" where
  "plugin_on_ts env pkt ops h = (case ops of
      tsa_scte35_engine \<Rightarrow> Some (scte35_on_ts h)
    | tr101290_ops \<Rightarrow> Some (tr_on_ts h (fst pkt))
    | pcr_ops \<Rightarrow> pcr_on_ts h (fst pkt)
    | essence_plugin_ops \<Rightarrow> essence_on_ts env h pkt)"

fun run_plugins :: "es_env \<Rightarrow> packet \<Rightarrow> tsa_plugin_ops option list \<Rightarrow> tsa_handle \<Rightarrow> tsa_handle option" where
  "run_plugins env pkt [] h = Some h"
| "run_plugins env pkt (None # slots) h = run_plugins env pkt slots h"
| "run_plugins env pkt (Some ops # slots) h = do { h \<leftarrow> plugin_on_ts env pkt ops h; run_plugins env pkt slots h }"

text \<open>\<open>now\<close> is the reading of the wall clock.\<close>

definition start_engine :: "u64 \<Rightarrow> u64 \<Rightarrow> tsa_handle \<Rightarrow> tsa_handle" where
  "start_engine now n h =
    (if h_engine_started h then h
     else h\<lparr>h_start_ns := n, h_engine_started := True, h_last_snap_ns := n, h_last_snap_wall_ns := n, h_stc_ns := n,
            h_last_packet_rx_ns := n,
            h_phys_stats := (h_phys_stats h)\<lparr>phys_window_start_ns := if cfg_op_mode (h_config h) = TSA_MODE_LIVE then now else n\<rparr>\<rparr>)"

definition count_iat :: "u64 \<Rightarrow> tsa_iat_histogram \<Rightarrow> tsa_iat_histogram" where
  "count_iat d g =
    (if d < 1000000 then g\<lparr>bucket_under_1ms := bucket_under_1ms g + 1\<rparr>
     else if d < 2000000 then g\<lparr>bucket_1_2ms := bucket_1_2ms g + 1\<rparr>
     else if d < 5000000 then g\<lparr>bucket_2_5ms := bucket_2_5ms g + 1\<rparr>
     else if d < 10000000 then g\<lparr>bucket_5_10ms := bucket_5_10ms g + 1\<rparr>
     else if d < 100000000 then g\<lparr>bucket_10_100ms := bucket_10_100ms g + 1\<rparr>
     else g\<lparr>bucket_over_100ms := bucket_over_100ms g + 1\<rparr>)"

definition note_arrival :: "u64 \<Rightarrow> tsa_handle \<Rightarrow> tsa_handle" where
  "note_arrival n h = (let l = h_last_packet_rx_ns h in
    (if l \<noteq> 0 \<and> l < n then set_live (\<lambda>s. s\<lparr>iat_hist := count_iat (n - l) (iat_hist s)\<rparr>) h else h)\<lparr>h_last_packet_rx_ns := n\<rparr>)"

definition bad_sync :: "tsa_handle \<Rightarrow> tsa_handle" where
  "bad_sync h = (let h = set_live (\<lambda>s. s\<lparr>sync_byte_error_count := sync_byte_error_count s + 1\<rparr>)
        (h\<lparr>h_consecutive_sync_errors := h_consecutive_sync_errors h + 1, h_consecutive_good_syncs := 0\<rparr>) in
    if 5 \<le> h_consecutive_sync_errors h \<and> h_signal_lock h
    then tsa_push_event (set_live (\<lambda>s. s\<lparr>sync_loss_alarm := sync_loss_alarm s + 1\<rparr>) (h\<lparr>h_signal_lock := False\<rparr>)) TSA_EVENT_SYNC_LOSS 0 0
    else h)"

definition good_sync :: "tsa_handle \<Rightarrow> tsa_handle" where
  "good_sync h = (let g = h_consecutive_good_syncs h + 1 in
    h\<lparr>h_consecutive_good_syncs := g, h_consecutive_sync_errors := 0, h_signal_lock := (h_signal_lock h \<or> 5 \<le> g)\<rparr>)"

definition DEFAULT_REPLAY_BITRATE :: u64 where "DEFAULT_REPLAY_BITRATE = 10000000"

definition replay_step :: "tsa_handle \<Rightarrow> u64 option" where
  "replay_step h = do {
     step \<leftarrow> to_u64 (dbl (1504 * (dbl (of_int (h_stc_slope_q64 h)) / 2 ^ 64)));
     Some (if step < 10000 \<or> 1000000 < step
           then 188 * 8 * 1000000000 div (if forced_cbr_bitrate (h_config h) \<noteq> 0 then forced_cbr_bitrate (h_config h) else DEFAULT_REPLAY_BITRATE)
           else step)
   }"

definition advance_stc :: "u64 \<Rightarrow> tsa_handle \<Rightarrow> tsa_handle option" where
  "advance_stc n h =
    (if h_op_mode h = TSA_MODE_REPLAY then do { step \<leftarrow> replay_step h; Some (h\<lparr>h_stc_ns := h_stc_ns h + step\<rparr>) }
     else if h_stc_locked h then do {
       x \<leftarrow> i128 (h_stc_intercept_q64 h + uint n * h_stc_slope_q64 h);
       _ \<leftarrow> i128 (uint n * h_stc_slope_q64 h);
       Some (h\<lparr>h_stc_ns := of_int (x div 2 ^ 64)\<rparr>)
     }
     else Some (h\<lparr>h_stc_ns := n\<rparr>))"

definition section_pid :: "tsa_handle \<Rightarrow> u16 \<Rightarrow> bool" where
  "section_pid h pid \<longleftrightarrow> pid = 0 \<or> pid = 0x10 \<or> pid = 0x11 \<or> h_pid_is_pmt h pid \<or> h_pid_is_scte35 h pid"

text \<open>Lines 412 to 437, for a packet that is not filtered out.\<close>

definition account_packet :: "u64 \<Rightarrow> bytes \<Rightarrow> ts_decode_result \<Rightarrow> tsa_handle \<Rightarrow> tsa_handle option" where
  "account_packet n p r h = (let
      pid = r_pid r;
      h = set_live (\<lambda>s. s\<lparr>total_ts_packets := total_ts_packets s + 1\<rparr>) h;
      h = snd (tsa_update_pid_tracker h pid);
      h = set_live (\<lambda>s. s\<lparr>pid_packet_count := (pid_packet_count s)(pid := pid_packet_count s pid + 1)\<rparr>) h;
      h = (if r_scrambled r then tsa_push_event h TSA_EVENT_SCRAMBLED pid 0 else h);
      g = (case h_pid_histograms h pid of None \<Rightarrow> tsa_hist_init | Some g \<Rightarrow> g);
      h = h\<lparr>h_pid_histograms := (h_pid_histograms h)(pid := Some (tsa_hist_add_packet g (h_stc_ns h) 1504))\<rparr>;
      h = (if r_scrambled r
           then tsa_push_event (set_live (\<lambda>s. s\<lparr>pid_scrambled_packets := (pid_scrambled_packets s)(pid := pid_scrambled_packets s pid + 1)\<rparr>) h)
                  TSA_EVENT_SCRAMBLED pid 0
           else h);
      h = set_es pid (\<lambda>es. es\<lparr>last_seen_vstc := h_stc_ns h, last_seen_ns := n\<rparr>) h;
      h = h\<lparr>h_pkts_since_pcr := h_pkts_since_pcr h + 1\<rparr>
    in do {
      h \<leftarrow> (if section_pid h pid then tsa_section_filter_push h pid p r else Some h);
      Some (h\<lparr>h_current_ns := n, h_current_res := r\<rparr>)
    })"

text \<open>\<open>pending_snapshot\<close> is never set, so that the call of \<open>tsa_commit_snapshot\<close> at the end is dead.\<close>

definition tsa_process_packet :: "es_env \<Rightarrow> u64 \<Rightarrow> tsa_handle \<Rightarrow> packet \<Rightarrow> u64 \<Rightarrow> tsa_handle option" where
  "tsa_process_packet env now h pkt n = (let
      p = fst pkt;
      h = note_arrival n (start_engine now n h)
    in if p ! 0 \<noteq> 0x47 then Some (bad_sync h)
       else do {
         h \<leftarrow> advance_stc n (good_sync h);
         let (r, h) = tsa_decode_packet (env_header env) h p;
         if h_pid_filtering_enabled h \<and> \<not> h_pid_allowed h (r_pid r)
         then Some (set_live (\<lambda>s. s\<lparr>total_ts_packets := total_ts_packets s + 1\<rparr>) h)
         else do {
           h \<leftarrow> account_packet n p r h;
           run_plugins env pkt (fst (h_plugins h)) h
         }
       })"

section \<open>The byte stream\<close>

type_synonym sink = "tsa_handle \<Rightarrow> bytes \<Rightarrow> u64 \<Rightarrow> tsa_handle option"

definition lose_sync :: "tsa_handle \<Rightarrow> tsa_handle" where
  "lose_sync h = h\<lparr>h_sync_state := TS_SYNC_HUNTING, h_signal_lock := False\<rparr>"

text \<open>The inner loop over whole packets of the data.\<close>

function feed_packets :: "sink \<Rightarrow> tsa_simd_ops \<Rightarrow> u64 \<Rightarrow> u64 \<Rightarrow> bytes \<Rightarrow> nat \<Rightarrow> tsa_handle \<Rightarrow> (nat \<times> tsa_handle) option" where
  "feed_packets process simd addr now data processed h =
    (if length data < processed + 188 then Some (processed, h)
     else if data ! processed = 0x47 then
       (if h_sync_state h = TS_SYNC_LOCKED then
          (case process (h\<lparr>h_current_packet_offset := h_processed_bytes h + of_nat processed\<rparr>) (take 188 (drop processed data)) now of
             None \<Rightarrow> None
           | Some h \<Rightarrow> feed_packets process simd addr now data (processed + 188) h)
        else Some (processed + 188, h\<lparr>h_sync_buffer := take 188 (drop processed data)\<rparr>))
     else let next_sync = find_sync simd (addr + of_nat (Suc processed)) (drop (Suc processed) data) in
       feed_packets process simd addr now data (if 0 \<le> next_sync then processed + nat next_sync + 1 else length data) (lose_sync h))"
  by pat_completeness auto
termination by (relation "measure (\<lambda>(_, _, _, _, data, processed, _). length data - processed)") auto

declare feed_packets.simps [simp del]

text \<open>
  The block for bytes kept from an earlier call: it may return, start the loop
  again after dropping a byte, or go on with the data.
\<close>

datatype feed_step = Feed_return tsa_handle | Feed_again nat tsa_handle | Feed_on nat tsa_handle

definition confirm_sync :: "tsa_handle \<Rightarrow> tsa_handle" where
  "confirm_sync h = (let c = h_sync_confirm_count h + 1 in
     h\<lparr>h_sync_confirm_count := c, h_sync_state := (if 5 \<le> c then TS_SYNC_LOCKED else h_sync_state h)\<rparr>)"

definition feed_buffer :: "sink \<Rightarrow> u64 \<Rightarrow> bytes \<Rightarrow> nat \<Rightarrow> tsa_handle \<Rightarrow> feed_step option" where
  "feed_buffer process now data processed h =
    (if h_sync_buffer h = [] then Some (Feed_on processed h)
     else let
       needed = 188 - length (h_sync_buffer h);
       to_copy = min (length data - processed) needed;
       b = h_sync_buffer h @ take to_copy (drop processed data);
       processed = processed + to_copy;
       h = h\<lparr>h_sync_buffer := b\<rparr>
     in if length b < 188 then Some (Feed_return h)
        else if b ! 0 = 0x47 then
          (if h_sync_state h = TS_SYNC_LOCKED then
             map_option (\<lambda>h. Feed_on processed (h\<lparr>h_sync_buffer := []\<rparr>))
               (process (h\<lparr>h_current_packet_offset := h_processed_bytes h + of_nat processed - 188\<rparr>) b now)
           else Some (Feed_on processed ((confirm_sync h)\<lparr>h_sync_buffer := []\<rparr>)))
        else Some (Feed_again processed (lose_sync (h\<lparr>h_sync_buffer := tl b\<rparr>))))"

text \<open>Lines 538 to 545: the rest of the data goes to the buffer.\<close>

definition keep_rest :: "bytes \<Rightarrow> nat \<Rightarrow> tsa_handle \<Rightarrow> tsa_handle option" where
  "keep_rest data processed h = (let
      rest = drop processed data;
      done = (\<lambda>h. h\<lparr>h_processed_bytes := h_processed_bytes h + of_nat (length data)\<rparr>)
    in if rest = [] then Some (done h)
       else if 188 < length (h_sync_buffer h) + length rest then None
       else Some (done (h\<lparr>h_sync_buffer := h_sync_buffer h @ rest\<rparr>)))"

lemma feed_buffer_again:
  assumes "feed_buffer process now data processed h = Some (Feed_again processed' h')" "processed < length data"
  shows "processed < processed' \<and> processed' \<le> length data \<or>
    processed' = processed \<and> length (h_sync_buffer h') < length (h_sync_buffer h)"
  using assms by (auto simp: feed_buffer_def lose_sync_def Let_def split: if_splits)

function feed_loop :: "sink \<Rightarrow> tsa_simd_ops \<Rightarrow> u64 \<Rightarrow> u64 \<Rightarrow> bytes \<Rightarrow> nat \<Rightarrow> tsa_handle \<Rightarrow> tsa_handle option" where
  "feed_loop process simd addr now data processed h =
    (if length data \<le> processed then keep_rest data processed h
     else case feed_buffer process now data processed h of
       None \<Rightarrow> None
     | Some (Feed_return h) \<Rightarrow> Some h
     | Some (Feed_again processed h) \<Rightarrow> feed_loop process simd addr now data processed h
     | Some (Feed_on processed h) \<Rightarrow>
         (case feed_packets process simd addr now data processed h of
            None \<Rightarrow> None
          | Some (processed, h) \<Rightarrow> keep_rest data processed h))"
  by pat_completeness auto

termination
proof (relation "measures [\<lambda>(_, _, _, _, data, processed, _). length data - processed, \<lambda>(_, _, _, _, _, _, h). length (h_sync_buffer h)]")
qed (auto dest: feed_buffer_again)

declare feed_loop.simps [simp del]

definition tsa_feed_data :: "sink \<Rightarrow> tsa_simd_ops \<Rightarrow> u64 \<Rightarrow> tsa_handle \<Rightarrow> bytes \<Rightarrow> u64 \<Rightarrow> tsa_handle option" where
  "tsa_feed_data process simd addr h data now = (if data = [] then Some h else feed_loop process simd addr now data 0 h)"

section \<open>What the handlers leave alone\<close>

text \<open>The fields of the synchronisation, which no engine and no table handler writes.\<close>

definition sync_fields :: "tsa_handle \<Rightarrow> tsa_sync_state \<times> u32 \<times> bytes \<times> u32 \<times> u32 \<times> bool \<times> u64" where
  "sync_fields h = (h_sync_state h, h_sync_confirm_count h, h_sync_buffer h, h_consecutive_sync_errors h,
     h_consecutive_good_syncs h, h_signal_lock h, h_processed_bytes h)"

lemma sync_event [simp]: "sync_fields (tsa_push_event h type pid val) = sync_fields h"
  by (simp add: sync_fields_def)

lemma sync_alert [simp]: "sync_fields (tsa_alert_update h i e name pid) = sync_fields h"
  by (simp add: sync_fields_def)

lemma sync_updates [simp]:
  "sync_fields (h\<lparr>h_es_tracks := e\<rparr>) = sync_fields h" "sync_fields (h\<lparr>h_pkt_pool := pool\<rparr>) = sync_fields h"
  "sync_fields (h\<lparr>h_live := l\<rparr>) = sync_fields h" "sync_fields (h\<lparr>h_outbox := ob\<rparr>) = sync_fields h"
  "sync_fields (h\<lparr>h_pcr_tracks := tr\<rparr>) = sync_fields h" "sync_fields (h\<lparr>h_master_pcr_pid := m\<rparr>) = sync_fields h"
  "sync_fields (h\<lparr>h_stc_ns := n\<rparr>) = sync_fields h" "sync_fields (h\<lparr>h_current_ns := n\<rparr>) = sync_fields h"
  "sync_fields (h\<lparr>h_current_res := r\<rparr>) = sync_fields h" "sync_fields (h\<lparr>h_pid_histograms := g\<rparr>) = sync_fields h"
  "sync_fields (h\<lparr>h_pkts_since_pcr := n\<rparr>) = sync_fields h" "sync_fields (h\<lparr>h_current_packet_offset := n\<rparr>) = sync_fields h"
  "sync_fields (h\<lparr>h_last_packet_rx_ns := n\<rparr>) = sync_fields h" "sync_fields (h\<lparr>h_programs := ps\<rparr>) = sync_fields h"
  "sync_fields (h\<lparr>h_pid_is_pmt := f\<rparr>) = sync_fields h" "sync_fields (h\<lparr>h_seen_pat := b\<rparr>) = sync_fields h"
  "sync_fields (h\<lparr>h_seen_pmt := b\<rparr>) = sync_fields h" "sync_fields (h\<lparr>h_last_pat_ns := n\<rparr>) = sync_fields h"
  "sync_fields (h\<lparr>h_pid_types := t\<rparr>) = sync_fields h" "sync_fields (h\<lparr>h_last_pcr_ticks := n\<rparr>) = sync_fields h"
  "sync_fields (h\<lparr>h_stc_locked := b\<rparr>) = sync_fields h" "sync_fields (h\<lparr>h_stc_wall_drift_ppm := d\<rparr>) = sync_fields h"
  "sync_fields (h\<lparr>h_stc_slope_q64 := i\<rparr>) = sync_fields h" "sync_fields (h\<lparr>h_stc_intercept_q64 := i\<rparr>) = sync_fields h"
  "sync_fields (h\<lparr>h_pid_seen := s\<rparr>) = sync_fields h" "sync_fields (h\<lparr>h_pid_labels := ls\<rparr>) = sync_fields h"
  "sync_fields (h\<lparr>h_pid_active_list := al\<rparr>) = sync_fields h" "sync_fields (h\<lparr>h_pid_to_active_idx := ix\<rparr>) = sync_fields h"
  by (simp_all add: sync_fields_def)

named_theorems sync_keep \<open>handlers that keep the synchronisation fields\<close>

lemma sync_sei [simp]: "sync_fields (tsa_handle_sei now h pid d) = sync_fields h"
  by (simp add: tsa_handle_sei_def Let_def split: option.split)

lemma sync_splice [sync_keep]: "audit_splice h pid = Some h' \<Longrightarrow> sync_fields h' = sync_fields h"
  by (auto simp: audit_splice_def Let_def split: if_splits)

lemma sync_unit [sync_keep]: "note_unit now info h pid d fc = Some (h', fc') \<Longrightarrow> sync_fields h' = sync_fields h"
  by (auto simp: note_unit_def Let_def split: tsa_nalu_type.splits if_splits prod.splits dest!: sync_splice)

lemma sync_visit [sync_keep]: "visit_unit env h pid hevc offset fc = Some (h', fc') \<Longrightarrow> sync_fields h' = sync_fields h"
  by (auto simp: visit_unit_def Let_def bind_eq_Some_conv dest: sync_unit split: option.splits list.splits if_splits)

lemma sync_scan [sync_keep]: "scan_units k env h pid hevc total_len offset fc = Scan_done h' \<Longrightarrow> sync_fields h' = sync_fields h"
proof (induction k arbitrary: h offset fc)
  case (Suc k)
  have v: "sync_fields h' = sync_fields h" if "visit_unit env h pid hevc o' fc = Some (h1, fc')"
    "scan_units k env h1 pid hevc total_len o'' fc' = Scan_done h'" for h1 o' o'' fc'
    using Suc.IH [OF that(2)] sync_visit [OF that(1)] by simp
  from Suc.prems show ?case
    unfolding scan_units.simps(2) Let_def
    by (simp split: if_split_asm option.split_asm prod.split_asm) (blast intro: Suc.IH v)+
qed (simp add: scan_units.simps)

lemma sync_payload [sync_keep]: "tsa_handle_es_payload env h pid = Some h' \<Longrightarrow> sync_fields h' = sync_fields h"
  by (auto simp: tsa_handle_es_payload_def Let_def split: prod.splits if_splits scan_end.splits dest: sync_scan)

lemma sync_clear [sync_keep]: "tsa_es_track_clear_accumulator h pid = Some h' \<Longrightarrow> sync_fields h' = sync_fields h"
  by (auto simp: tsa_es_track_clear_accumulator_def Let_def bind_eq_Some_conv split: if_splits)

lemma sync_finish [sync_keep]: "finish_pes env h pid = Some h' \<Longrightarrow> sync_fields h' = sync_fields h"
  by (auto simp: finish_pes_def bind_eq_Some_conv split: if_splits dest!: sync_payload sync_clear)

lemma sync_entropy [sync_keep]: "track_entropy env h pid payload = Some h' \<Longrightarrow> sync_fields h' = sync_fields h"
  by (auto simp: track_entropy_def Let_def bind_eq_Some_conv split: if_splits)

lemma sync_append [sync_keep]: "append_packet env h pid pkt res = Some h' \<Longrightarrow> sync_fields h' = sync_fields h"
  by (auto simp: append_packet_def Let_def bind_eq_Some_conv split: if_splits dest!: sync_entropy)

lemma sync_push [sync_keep]:
  assumes "tsa_es_track_push_packet env h pid pkt res = Some h'"
  shows "sync_fields h' = sync_fields h"
proof (cases "r_pusi res = 0")
  case True
  then show ?thesis using assms by (auto simp: tsa_es_track_push_packet_def split: if_splits dest!: sync_append)
next
  case False
  then show ?thesis using assms
    by (auto simp: tsa_es_track_push_packet_def bind_eq_Some_conv dest!: sync_append sync_finish)
qed

lemma sync_predict [simp]:
  "sync_fields (predict_overflow sz n r pid h) = sync_fields h" "sync_fields (predict_underflow n r pid h) = sync_fields h"
  by (simp_all add: predict_overflow_def predict_underflow_def Let_def)

lemma sync_leak [sync_keep]: "tsa_tstd_update_leak h pid n = Some h' \<Longrightarrow> sync_fields h' = sync_fields h"
  by (cases "last_leak_vstc (es_tstd (h_es_tracks h pid)) = 0"; cases "n \<le> last_leak_vstc (es_tstd (h_es_tracks h pid))")
    (auto simp: tsa_tstd_update_leak_def Let_def bind_eq_Some_conv split del: if_split)

lemma sync_drain [sync_keep]: "tsa_tstd_drain h pid = Some h' \<Longrightarrow> sync_fields h' = sync_fields h"
  by (auto simp: tsa_tstd_drain_def split: if_splits)

lemma sync_engine_parts [simp]:
  "sync_fields (fill_tb h pid) = sync_fields h" "sync_fields (tsa_audio_audit_process_es env h pid) = sync_fields h"
  "sync_fields (check_late h pid) = sync_fields h" "sync_fields (check_transport h p) = sync_fields h"
  "sync_fields (check_continuity h p) = sync_fields h" "sync_fields (check_pat h) = sync_fields h"
  "sync_fields (check_pmt pr h) = sync_fields h" "sync_fields (check_pcr_repetition h) = sync_fields h"
  "sync_fields (check_pts h) = sync_fields h"
  by (simp_all add: fill_tb_def tsa_audio_audit_process_es_def check_late_def check_transport_def check_continuity_def
      check_pat_def check_pmt_def check_pcr_repetition_def check_pts_def Let_def)

lemma sync_essence [sync_keep]: "essence_on_ts env h pkt = Some h' \<Longrightarrow> sync_fields h' = sync_fields h"
  by (auto simp: essence_on_ts_def Let_def bind_eq_Some_conv split: if_splits dest!: sync_clear sync_leak sync_push sync_drain)

lemma sync_tr [simp]: "sync_fields (tr_on_ts h p) = sync_fields h"
proof -
  have "sync_fields (fold check_pmt ps k) = sync_fields k" for ps k by (induction ps arbitrary: k) simp_all
  then show ?thesis by (simp add: tr_on_ts_def)
qed

lemma sync_lock_master [sync_keep]: "lock_master h pid t = Some h' \<Longrightarrow> sync_fields h' = sync_fields h"
  by (auto simp: lock_master_def Let_def bind_eq_Some_conv split: if_splits)

lemma sync_pcr [sync_keep]: "pcr_on_ts h p = Some h' \<Longrightarrow> sync_fields h' = sync_fields h"
  by (auto simp: pcr_on_ts_def Let_def bind_eq_Some_conv split: if_splits dest!: sync_lock_master)

lemma sync_plugin [sync_keep]: "plugin_on_ts env pkt ops h = Some h' \<Longrightarrow> sync_fields h' = sync_fields h"
  by (cases ops) (auto simp: plugin_on_ts_def scte35_on_ts_def dest: sync_essence sync_pcr)

lemma sync_plugins [sync_keep]: "run_plugins env pkt slots h = Some h' \<Longrightarrow> sync_fields h' = sync_fields h"
proof (induction slots arbitrary: h)
  case (Cons x slots)
  then show ?case by (cases x) (auto simp: bind_eq_Some_conv dest!: sync_plugin)
qed simp

lemma sync_tables [sync_keep]: "tsa_section_filter_push h pid p r = Some h' \<Longrightarrow> sync_fields h' = sync_fields h"
proof -
  have "sync_fields (pat_register e k) = sync_fields k" for e k
    by (simp add: pat_register_def split: prod.splits option.splits)
  then have "sync_fields (fold pat_register es k) = sync_fields k" for es k by (induction es arbitrary: k) simp_all
  then have "sync_fields (process_pat k q n) = sync_fields k" for k q n by (simp add: process_pat_def Let_def)
  moreover have "process_pmt k pid q n = Some k' \<Longrightarrow> sync_fields k' = sync_fields k" for k k' q n
    by (auto simp: process_pmt_def Let_def split: if_splits)
  ultimately show "tsa_section_filter_push h pid p r = Some h' \<Longrightarrow> sync_fields h' = sync_fields h"
    by (auto simp: tsa_section_filter_push_def Let_def split: option.splits if_splits)
qed

lemma sync_tracker [simp]: "sync_fields (snd (tsa_update_pid_tracker h pid)) = sync_fields h"
  by (simp add: tsa_update_pid_tracker_def tsa_precompile_pid_labels_def Let_def split: option.split)

lemma tracker_pids [simp]:
  "h_pid_is_pmt (snd (tsa_update_pid_tracker h pid)) = h_pid_is_pmt h"
  "h_pid_is_scte35 (snd (tsa_update_pid_tracker h pid)) = h_pid_is_scte35 h"
  by (simp_all add: tsa_update_pid_tracker_def tsa_precompile_pid_labels_def Let_def split: option.split)

lemma sync_decode [simp]: "sync_fields (snd (tsa_decode_packet ph h p)) = sync_fields h"
proof -
  have "sync_fields (snd (tsa_recover_pts_64 k pid t)) = sync_fields k" for k pid t
    by (simp add: tsa_recover_pts_64_def Let_def)
  moreover have "sync_fields (snd (tsa_decode_packet_pure ph h p)) = sync_fields h"
    by (simp add: tsa_decode_packet_pure_def Let_def split: prod.split)
  ultimately show ?thesis by (simp add: tsa_decode_packet_def case_prod_unfold Let_def)
qed

lemma sync_account [sync_keep]: "account_packet n p r h = Some h' \<Longrightarrow> sync_fields h' = sync_fields h"
  by (auto simp: account_packet_def Let_def bind_eq_Some_conv split: if_splits dest!: sync_tables)

lemma sync_advance [sync_keep]: "advance_stc n h = Some h' \<Longrightarrow> sync_fields h' = sync_fields h"
  by (auto simp: advance_stc_def bind_eq_Some_conv split: if_splits)

lemma sync_arrival [simp]: "sync_fields (note_arrival n (start_engine now n h)) = sync_fields h"
  by (simp add: note_arrival_def start_engine_def Let_def) (simp add: sync_fields_def)

lemma sync_cong:
  assumes "sync_fields k = sync_fields h"
  shows "sync_fields (good_sync k) = sync_fields (good_sync h)" "sync_fields (bad_sync k) = sync_fields (bad_sync h)"
  using assms by (simp_all add: good_sync_def bad_sync_def Let_def) (simp_all add: sync_fields_def)

lemma sync_process:
  assumes "tsa_process_packet env now h pkt n = Some h'"
  shows "sync_fields h' = sync_fields (if fst pkt ! 0 = 0x47 then good_sync h else bad_sync h)"
proof -
  let ?k = "note_arrival n (start_engine now n h)"
  note c = sync_cong [OF sync_arrival [of n now h]]
  show ?thesis
  proof (cases "fst pkt ! 0 = 0x47")
    case True
    then obtain k1 where k: "advance_stc n (good_sync ?k) = Some k1" using assms
      by (auto simp: tsa_process_packet_def Let_def bind_eq_Some_conv)
    obtain r k2 where d: "tsa_decode_packet (env_header env) k1 (fst pkt) = (r, k2)" by fastforce
    have "sync_fields k2 = sync_fields k1" using sync_decode [of "env_header env" k1 "fst pkt"] d by simp
    moreover have "sync_fields h' = sync_fields k2"
      using assms True k d
      by (auto simp: tsa_process_packet_def Let_def bind_eq_Some_conv split: if_splits dest!: sync_account sync_plugins)
    ultimately show ?thesis using True sync_advance [OF k] c by simp
  next
    case False
    then show ?thesis using assms c by (simp add: tsa_process_packet_def Let_def)
  qed
qed

section \<open>The signal lock\<close>

fun process_all :: "es_env \<Rightarrow> u64 \<Rightarrow> tsa_handle \<Rightarrow> (packet \<times> u64) list \<Rightarrow> tsa_handle option" where
  "process_all env now h [] = Some h"
| "process_all env now h ((pkt, n) # ps) = do { h \<leftarrow> tsa_process_packet env now h pkt n; process_all env now h ps }"

text \<open>
  The lock after a history of sync bytes, the latest first: five good ones in a
  row take it, five bad ones in a row lose it.
\<close>

fun lock_after :: "bool \<Rightarrow> bool list \<Rightarrow> bool" where
  "lock_after l [] = l"
| "lock_after l (b # past) =
    (if b then lock_after l past \<or> 5 \<le> length (takeWhile (\<lambda>x. x) (b # past))
     else lock_after l past \<and> \<not> 5 \<le> length (takeWhile Not (b # past)))"

definition lock_inv :: "bool \<Rightarrow> bool list \<Rightarrow> tsa_handle \<Rightarrow> bool" where
  "lock_inv l past h \<longleftrightarrow> h_signal_lock h = lock_after l past \<and>
     unat (h_consecutive_good_syncs h) = length (takeWhile (\<lambda>x. x) past) \<and>
     unat (h_consecutive_sync_errors h) = length (takeWhile Not past)"

lemma unat_plus_one: "unat w + 1 < 2 ^ 32 \<Longrightarrow> unat (w + 1) = unat w + 1" for w :: u32
  by (simp add: unat_word_ariths)

lemma lock_inv_step:
  assumes "lock_inv l past h" "length past + 1 < 2 ^ 32" "tsa_process_packet env now h pkt n = Some h'"
  shows "lock_inv l ((fst pkt ! 0 = 0x47) # past) h'"
proof -
  have s: "sync_fields h' = sync_fields (if fst pkt ! 0 = 0x47 then good_sync h else bad_sync h)" by (rule sync_process [OF assms(3)])
  have "length (takeWhile (\<lambda>x. x) past) + 1 < 2 ^ 32" "length (takeWhile Not past) + 1 < 2 ^ 32"
    using assms(2) length_takeWhile_le [of "\<lambda>x. x" past] length_takeWhile_le [of Not past] by linarith+
  then have u: "unat (h_consecutive_good_syncs h + 1) = length (takeWhile (\<lambda>x. x) past) + 1"
    "unat (h_consecutive_sync_errors h + 1) = length (takeWhile Not past) + 1"
    using assms(1) unat_plus_one by (simp_all add: lock_inv_def)
  show ?thesis
  proof (cases "fst pkt ! 0 = 0x47")
    case True
    then show ?thesis using s assms(1) u
      by (simp add: lock_inv_def sync_fields_def good_sync_def Let_def word_le_nat_alt)
  next
    case False
    then show ?thesis using s assms(1) u
      by (auto simp: lock_inv_def sync_fields_def bad_sync_def Let_def word_le_nat_alt split: if_splits)
  qed
qed

lemma lock_inv_all:
  "lock_inv l past h \<Longrightarrow> length past + length ps < 2 ^ 32 \<Longrightarrow> process_all env now h ps = Some h' \<Longrightarrow>
    lock_inv l (rev (map (\<lambda>(pkt, _). fst pkt ! 0 = 0x47) ps) @ past) h'"
proof (induction ps arbitrary: h past)
  case (Cons x ps)
  obtain pkt n where x: "x = (pkt, n)" by (cases x)
  obtain k where k: "tsa_process_packet env now h pkt n = Some k" "process_all env now k ps = Some h'"
    using Cons.prems(3) x by (auto simp: bind_eq_Some_conv)
  have "lock_inv l ((fst pkt ! 0 = 0x47) # past) k" using Cons.prems k(1) by (intro lock_inv_step) simp_all
  from Cons.IH [OF this _ k(2)] show ?case using Cons.prems(2) x by simp
qed simp



section \<open>Cutting the stream into packets\<close>

function packets :: "bytes \<Rightarrow> bytes list" where
  "packets s = (if length s < 188 then [] else take 188 s # packets (drop 188 s))"
  by pat_completeness auto
termination by (relation "measure length") auto

function left_over :: "bytes \<Rightarrow> bytes" where
  "left_over s = (if length s < 188 then s else left_over (drop 188 s))"
  by pat_completeness auto
termination by (relation "measure length") auto

declare packets.simps [simp del] left_over.simps [simp del]

lemma packets_short: "length s < 188 \<Longrightarrow> packets s = []" "length s < 188 \<Longrightarrow> left_over s = s"
  by (simp_all add: packets.simps left_over.simps)

lemma packets_append: "length p = 188 \<Longrightarrow> packets (p @ s) = p # packets s" "length p = 188 \<Longrightarrow> left_over (p @ s) = left_over s"
  by (simp_all add: packets.simps [of "p @ s"] left_over.simps [of "p @ s"])

lemma left_over_less: "length (left_over s) < 188"
proof (induction s rule: left_over.induct)
  case (1 s)
  then show ?case by (subst left_over.simps) simp
qed

lemma packets_left_over: "packets (s @ t) = packets s @ packets (left_over s @ t)" "left_over (s @ t) = left_over (left_over s @ t)"
proof (induction s rule: packets.induct)
  case (1 s)
  { case 1
    then show ?case using "1.IH"
      by (cases "length s < 188") (simp_all add: packets_short packets.simps [of s] packets.simps [of "s @ t"] left_over.simps [of s])
  next
    case 2
    then show ?case using "1.IH"
      by (cases "length s < 188") (simp_all add: packets_short left_over.simps [of s] left_over.simps [of "s @ t"]) }
qed

text \<open>
  The handler is called on the packets in order, on handles that differ from
  the result of the call before only in the fields of the feed itself.
\<close>

definition feed_only :: "tsa_handle \<Rightarrow> tsa_handle \<Rightarrow> bool" where
  "feed_only h k \<longleftrightarrow> (\<exists>b o' n. k = h\<lparr>h_sync_buffer := b, h_current_packet_offset := o', h_processed_bytes := n\<rparr>)"

inductive calls :: "sink \<Rightarrow> tsa_handle \<Rightarrow> bytes list \<Rightarrow> tsa_handle \<Rightarrow> bool" for process :: sink where
  calls_end: "feed_only h k \<Longrightarrow> calls process h [] k"
| calls_next: "feed_only h k \<Longrightarrow> process k p n = Some k' \<Longrightarrow> calls process k' ps h' \<Longrightarrow> calls process h (p # ps) h'"

inductive_cases calls_NilE: "calls process h [] k"
inductive_cases calls_ConsE: "calls process h (p # ps) k"

lemma feed_only_refl [simp]: "feed_only h h"
  unfolding feed_only_def by (rule exI [of _ "h_sync_buffer h"], rule exI [of _ "h_current_packet_offset h"],
    rule exI [of _ "h_processed_bytes h"]) simp

lemma feed_only_trans: "feed_only h k \<Longrightarrow> feed_only k m \<Longrightarrow> feed_only h m"
  by (clarsimp simp: feed_only_def) (intro exI, rule refl)

lemma feed_only_updates [simp]:
  "feed_only h (h\<lparr>h_sync_buffer := b\<rparr>)" "feed_only h (h\<lparr>h_current_packet_offset := o'\<rparr>)" "feed_only h (h\<lparr>h_processed_bytes := n\<rparr>)"
  unfolding feed_only_def
  by (rule exI [of _ b], rule exI [of _ "h_current_packet_offset h"], rule exI [of _ "h_processed_bytes h"], simp)
    (rule exI [of _ "h_sync_buffer h"], rule exI [of _ o'], rule exI [of _ "h_processed_bytes h"], simp,
     rule exI [of _ "h_sync_buffer h"], rule exI [of _ "h_current_packet_offset h"], rule exI [of _ n], simp)

lemma calls_before: "feed_only h k \<Longrightarrow> calls process k ps m \<Longrightarrow> calls process h ps m"
  by (erule calls.cases) (auto intro: calls.intros feed_only_trans)

lemma calls_append: "calls process h ps k \<Longrightarrow> calls process k qs m \<Longrightarrow> calls process h (ps @ qs) m"
  by (induction rule: calls.induct) (auto intro: calls.intros calls_before)

lemma calls_after: "calls process h ps k \<Longrightarrow> feed_only k m \<Longrightarrow> calls process h ps m"
  by (induction rule: calls.induct) (auto intro: calls.intros feed_only_trans)

text \<open>
  The stream \<open>s\<close> has been handed over: every packet of it once and in order,
  with the incomplete rest kept, unless the handler failed on one of them.
\<close>

definition fed :: "sink \<Rightarrow> tsa_handle \<Rightarrow> bytes \<Rightarrow> tsa_handle option \<Rightarrow> bool" where
  "fed process h s res = (case res of
      None \<Rightarrow> \<exists>k p n. p \<in> set (packets s) \<and> process k p n = None
    | Some k \<Rightarrow> calls process h (packets s) k \<and> h_sync_buffer k = left_over s \<and> h_sync_state k = TS_SYNC_LOCKED)"

lemma fed_next:
  assumes "length p = 188" "feed_only h k" "process k p n = Some k'" "fed process k' s res"
  shows "fed process h (p @ s) res"
  using assms by (auto simp: fed_def packets_append split: option.splits intro: calls_next)

lemma fed_fail: "length p = 188 \<Longrightarrow> process k p n = None \<Longrightarrow> fed process h (p @ s) None"
  by (auto simp: fed_def packets_append)

lemma fed_before: "feed_only h k \<Longrightarrow> fed process k s res \<Longrightarrow> fed process h s res"
  by (auto simp: fed_def split: option.splits intro: calls_before)

text \<open>Calls of the feed one after another, with the address, the bytes and the time of each.\<close>

type_synonym chunk = "u64 \<times> bytes \<times> u64"

fun feed_all :: "sink \<Rightarrow> tsa_simd_ops \<Rightarrow> tsa_handle \<Rightarrow> chunk list \<Rightarrow> tsa_handle option" where
  "feed_all process simd h [] = Some h"
| "feed_all process simd h ((addr, data, now) # cs) = do { h \<leftarrow> tsa_feed_data process simd addr h data now; feed_all process simd h cs }"

definition chunk_bytes :: "chunk list \<Rightarrow> bytes" where
  "chunk_bytes cs = concat (map (fst \<circ> snd) cs)"

text \<open>The contract of a packet handler: it leaves the synchronisation to the feed.\<close>

locale packet_sink =
  fixes process :: sink
  assumes keeps_state: "process h p n = Some k \<Longrightarrow> p ! 0 = 0x47 \<Longrightarrow> h_sync_state k = h_sync_state h"
    and keeps_buffer: "process h p n = Some k \<Longrightarrow> p ! 0 = 0x47 \<Longrightarrow> h_sync_buffer k = h_sync_buffer h"
begin

lemma feed_packets_locked:
  assumes "h_sync_state h = TS_SYNC_LOCKED" "h_sync_buffer h = []" "\<forall>p \<in> set (packets (drop processed data)). p ! 0 = 0x47"
    "processed \<le> length data"
  shows "fed process h (drop processed data) (feed_packets process simd addr now data processed h \<bind> (\<lambda>(m, k). keep_rest data m k))"
  using assms
proof (induction "length data - processed" arbitrary: processed h rule: less_induct)
  case less
  show ?case
  proof (cases "length data < processed + 188")
    case True
    then have e: "feed_packets process simd addr now data processed h = Some (processed, h)" by (simp add: feed_packets.simps)
    have l: "length (drop processed data) < 188" using True by simp
    have "keep_rest data processed h = Some (h\<lparr>h_sync_buffer := drop processed data,
        h_processed_bytes := h_processed_bytes h + of_nat (length data)\<rparr>)"
      using l less.prems(2) by (simp add: keep_rest_def Let_def)
    then show ?thesis unfolding fed_def e using packets_short [OF l] less.prems(1)
      by (simp add: calls_end feed_only_trans [of h "h\<lparr>h_sync_buffer := drop processed data\<rparr>"])
  next
    case False
    let ?p = "take 188 (drop processed data)" and ?s = "drop (processed + 188) data"
    let ?k = "h\<lparr>h_current_packet_offset := h_processed_bytes h + of_nat processed\<rparr>"
    have s: "drop processed data = ?p @ ?s" "length ?p = 188"
      using False append_take_drop_id [of 188 "drop processed data"] by (simp_all add: ac_simps)
    have pk: "packets (drop processed data) = ?p # packets ?s"
      using arg_cong [OF s(1), of packets] packets_append(1) [OF s(2)] by (rule trans)
    have h47: "?p ! 0 = 0x47" using less.prems(3) unfolding pk by simp
    then have g: "data ! processed = 0x47" using False by simp
    show ?thesis
    proof (cases "process ?k ?p now")
      case None
      then have "feed_packets process simd addr now data processed h = None"
        using False g less.prems(1) by (subst feed_packets.simps) simp
      then show ?thesis using fed_fail [where process = process, OF s(2) None, of h ?s] by (simp only: s(1) [symmetric] bind.simps)
    next
      case (Some k')
      then have e: "feed_packets process simd addr now data processed h = feed_packets process simd addr now data (processed + 188) k'"
        using False g less.prems(1) by (subst feed_packets.simps) simp
      have "fed process k' ?s (feed_packets process simd addr now data (processed + 188) k' \<bind> (\<lambda>(m, k). keep_rest data m k))"
      proof (rule less.hyps)
        show "h_sync_state k' = TS_SYNC_LOCKED" "h_sync_buffer k' = []"
          using keeps_state [OF Some h47] keeps_buffer [OF Some h47] less.prems by simp_all
        show "\<forall>p \<in> set (packets ?s). p ! 0 = 0x47" using less.prems(3) unfolding pk by simp
      qed (use False in simp_all)
      from fed_next [where process = process, OF s(2) _ Some this, of h] show ?thesis by (simp only: e s(1) [symmetric] feed_only_updates)
    qed
  qed
qed

lemma feed_once:
  assumes "h_sync_state h = TS_SYNC_LOCKED" "length (h_sync_buffer h) < 188" "\<forall>p \<in> set (packets (h_sync_buffer h @ data)). p ! 0 = 0x47"
  shows "fed process h (h_sync_buffer h @ data) (tsa_feed_data process simd addr h data now)"
proof (cases "data = []")
  case True
  then show ?thesis using assms by (simp add: tsa_feed_data_def fed_def packets_short calls_end)
next
  case False
  let ?b = "h_sync_buffer h"
  have f: "tsa_feed_data process simd addr h data now = (case feed_buffer process now data 0 h of
       None \<Rightarrow> None
     | Some (Feed_return h) \<Rightarrow> Some h
     | Some (Feed_again processed h) \<Rightarrow> feed_loop process simd addr now data processed h
     | Some (Feed_on processed h) \<Rightarrow> feed_packets process simd addr now data processed h \<bind> (\<lambda>(m, k). keep_rest data m k))"
    using False by (subst tsa_feed_data_def, subst feed_loop.simps) (simp split: option.split feed_step.split)
  show ?thesis
  proof (cases "?b = []")
    case True
    then show ?thesis unfolding f using feed_packets_locked [OF assms(1) True, of 0 data simd addr now] assms(3)
      by (simp add: feed_buffer_def)
  next
    case b: False
    define n where "n = 188 - length ?b"
    have n: "length ?b + n = 188" using assms(2) by (simp add: n_def)
    show ?thesis
    proof (cases "length data < n")
      case True
      then have "feed_buffer process now data 0 h = Some (Feed_return (h\<lparr>h_sync_buffer := ?b @ data\<rparr>))"
        using b n by (simp add: feed_buffer_def Let_def n_def [symmetric])
      then show ?thesis unfolding f using True n assms(1) by (simp add: fed_def packets_short calls_end)
    next
      case enough: False
      let ?p = "?b @ take n data"
      let ?k = "h\<lparr>h_sync_buffer := ?p, h_current_packet_offset := h_processed_bytes h + of_nat n - 188\<rparr>"
      have p: "length ?p = 188" "?b @ data = ?p @ drop n data" using enough n by simp_all
      have h47: "?p ! 0 = 0x47" using assms(3) unfolding p(2) packets_append [OF p(1)] by simp
      have u: "feed_buffer process now data 0 h = map_option (\<lambda>k. Feed_on n (k\<lparr>h_sync_buffer := []\<rparr>)) (process ?k ?p now)"
        using b enough n p(1) h47 assms(1) by (simp add: feed_buffer_def Let_def n_def [symmetric] min_absorb2)
      show ?thesis
      proof (cases "process ?k ?p now")
        case None
        have "fed process h (?b @ data) None"
          using fed_fail [where process = process, OF p(1) None, of h "drop n data"] by (simp only: p(2))
        then show ?thesis unfolding f u None by simp
      next
        case (Some k')
        let ?m = "k'\<lparr>h_sync_buffer := []\<rparr>"
        have "fed process ?m (drop n data) (feed_packets process simd addr now data n ?m \<bind> (\<lambda>(m, k). keep_rest data m k))"
          using keeps_state [OF Some h47] assms(1,3) enough unfolding p(2) packets_append [OF p(1)]
          by (intro feed_packets_locked) simp_all
        then have "fed process k' (drop n data) (feed_packets process simd addr now data n ?m \<bind> (\<lambda>(m, k). keep_rest data m k))"
          by (rule fed_before [rotated]) simp
        moreover have "feed_only h ?k" by (rule feed_only_trans [of h "h\<lparr>h_sync_buffer := ?p\<rparr>"]) simp_all
        ultimately have "fed process h (?b @ data) (feed_packets process simd addr now data n ?m \<bind> (\<lambda>(m, k). keep_rest data m k))"
          unfolding p(2) by (intro fed_next [where process = process, OF p(1) _ Some])
        then show ?thesis unfolding f u Some by simp
      qed
    qed
  qed
qed

lemma feed_all_fed:
  assumes "h_sync_state h = TS_SYNC_LOCKED" "length (h_sync_buffer h) < 188"
    "\<forall>p \<in> set (packets (h_sync_buffer h @ chunk_bytes cs)). p ! 0 = 0x47"
  shows "fed process h (h_sync_buffer h @ chunk_bytes cs) (feed_all process simd h cs)"
  using assms
proof (induction cs arbitrary: h)
  case Nil
  then show ?case by (simp add: fed_def packets_short calls_end chunk_bytes_def)
next
  case (Cons c cs)
  obtain addr data now where c: "c = (addr, data, now)" by (cases c)
  let ?s = "h_sync_buffer h @ data"
  have all: "h_sync_buffer h @ chunk_bytes (c # cs) = ?s @ chunk_bytes cs" by (simp add: c chunk_bytes_def)
  note pk = packets_left_over [of ?s "chunk_bytes cs"]
  have once: "fed process h ?s (tsa_feed_data process simd addr h data now)"
    using Cons.prems unfolding all pk(1) by (intro feed_once) simp_all
  show ?case
  proof (cases "tsa_feed_data process simd addr h data now")
    case None
    then show ?thesis using once unfolding all by (auto simp: c fed_def pk(1) simp del: append_assoc)
  next
    case (Some k)
    then have k: "calls process h (packets ?s) k" "h_sync_buffer k = left_over ?s" "h_sync_state k = TS_SYNC_LOCKED"
      using once by (simp_all add: fed_def)
    have "fed process k (h_sync_buffer k @ chunk_bytes cs) (feed_all process simd k cs)"
      using Cons.prems(3) left_over_less [of ?s] k unfolding all pk(1) by (intro Cons.IH) simp_all
    then show ?thesis using k unfolding all fed_def pk
      by (simp add: c Some split: option.splits) (auto intro: calls_append)
  qed
qed

end

text \<open>
  The handler of the program: \<open>place\<close> tells which packet of the pool a packet
  handed over is, if any.
\<close>

definition ts_sink :: "es_env \<Rightarrow> u64 \<Rightarrow> (bytes \<Rightarrow> nat option) \<Rightarrow> sink" where
  "ts_sink env now place = (\<lambda>h p n. tsa_process_packet env now h (p, place p) n)"

interpretation ts: packet_sink "ts_sink env now place" for env now place
  by unfold_locales (auto simp: ts_sink_def sync_fields_def good_sync_def Let_def dest: sync_process)



text \<open>
  C36. While the stream is not locked, a call with more than one packet that
  starts on a sync byte copies past the end of the 188 bytes of
  \<open>sync_buffer\<close>: the packet fills the buffer, and the rest goes after it.
\<close>

theorem feed_overflow:
  assumes "h_sync_state h \<noteq> TS_SYNC_LOCKED" "h_sync_buffer h = []" "188 < length data" "data ! 0 = 0x47"
  shows "tsa_feed_data process simd addr h data now = None"
  using assms
  by (subst tsa_feed_data_def, subst feed_loop.simps, subst feed_packets.simps)
    (auto simp: feed_buffer_def keep_rest_def Let_def)

theorem feed_overflow_witness:
  "tsa_feed_data (ts_sink plain_env 0 (\<lambda>_. None)) tsa_simd_default 0
     ((tsa_create None False False)\<lparr>h_sync_state := TS_SYNC_HUNTING, h_sync_buffer := []\<rparr>) (0x47 # replicate 188 0) 1 = None"
  by (rule feed_overflow) simp_all

section \<open>The PTS repetition check\<close>

lemma tables_vstc:
  assumes "tsa_section_filter_push h pid p r = Some h'"
  shows "last_seen_vstc (h_es_tracks h' q) = last_seen_vstc (h_es_tracks h q)" "h_stc_ns h' = h_stc_ns h"
proof -
  let ?v = "\<lambda>k :: tsa_handle. (last_seen_vstc (h_es_tracks k q), h_stc_ns k)"
  have "?v (pat_register e k) = ?v k" for e k
    by (simp add: pat_register_def split: prod.splits option.splits)
  then have "?v (fold pat_register es k) = ?v k" for es k by (induction es arbitrary: k) simp_all
  then have "?v (process_pat k d n) = ?v k" for k d n by (simp add: process_pat_def Let_def)
  moreover have "process_pmt k pid d n = Some k' \<Longrightarrow> ?v k' = ?v k" for k k' d n
    by (auto simp: process_pmt_def Let_def split: if_splits)
  ultimately have "?v h' = ?v h" using assms
    by (auto simp: tsa_section_filter_push_def Let_def split: option.splits if_splits)
  then show "last_seen_vstc (h_es_tracks h' q) = last_seen_vstc (h_es_tracks h q)" "h_stc_ns h' = h_stc_ns h" by simp_all
qed

definition pts_fresh :: "tsa_handle \<Rightarrow> bool" where
  "pts_fresh h \<longleftrightarrow> last_seen_vstc (h_es_tracks h (r_pid (h_current_res h))) = h_stc_ns h"

lemma pts_fresh_account: "account_packet n p r h = Some k \<Longrightarrow> pts_fresh k"
  by (auto simp: pts_fresh_def account_packet_def Let_def bind_eq_Some_conv tables_vstc split: if_splits)

lemma pts_fresh_keep [simp]:
  "pts_fresh (check_transport h p) = pts_fresh h" "pts_fresh (check_continuity h p) = pts_fresh h"
  "pts_fresh (check_pat h) = pts_fresh h" "pts_fresh (check_pmt pr h) = pts_fresh h"
  "pts_fresh (check_pcr_repetition h) = pts_fresh h"
  by (simp_all add: pts_fresh_def check_transport_def check_continuity_def check_pat_def check_pmt_def
      check_pcr_repetition_def Let_def)

lemma pts_fresh_check: "pts_fresh h \<Longrightarrow> check_pts h = h"
proof -
  assume "pts_fresh h"
  then have v: "h_stc_ns h = last_seen_vstc (h_es_tracks h (r_pid (h_current_res h)))" by (simp add: pts_fresh_def)
  show "check_pts h = h" by (simp add: check_pts_def Let_def tsa_alert_update_def v)
qed

text \<open>
  C39. The PTS repetition check of the TR 101 290 engine finds nothing on any
  packet: by the time the engine runs, the bookkeeping of the packet has
  already set \<open>last_seen_vstc\<close> of its PID to the present, so that the distance
  the check compares with 700 ms is 0 and the engine does only its other
  checks.
\<close>

theorem pts_check_silent:
  assumes "account_packet n p r h = Some k"
  shows "tr_on_ts k p = check_pcr_repetition (fold check_pmt (h_programs k) (check_pat (check_continuity (check_transport k p) p)))"
proof -
  have "pts_fresh (fold check_pmt ps m) = pts_fresh m" for ps m by (induction ps arbitrary: m) simp_all
  then show ?thesis unfolding tr_on_ts_def using pts_fresh_account [OF assms] by (intro pts_fresh_check) simp
qed

theorem pts_check_silent_witness:
  "\<exists>k. account_packet 5 (0x47 # replicate 187 0) ((h_current_res (tsa_create None False False))\<lparr>r_pid := 0x1FFF, r_scrambled := False\<rparr>)
      ((tsa_create None False False)\<lparr>h_pid_is_pmt := \<lambda>_. False, h_pid_is_scte35 := \<lambda>_. False\<rparr>) = Some k \<and>
    tr_on_ts k (0x47 # replicate 187 0) = check_pcr_repetition (fold check_pmt (h_programs k)
      (check_pat (check_continuity (check_transport k (0x47 # replicate 187 0)) (0x47 # replicate 187 0))))"
proof -
  let ?p = "0x47 # replicate 187 0 :: bytes"
  let ?r = "(h_current_res (tsa_create None False False))\<lparr>r_pid := 0x1FFF, r_scrambled := False\<rparr>"
  let ?h = "(tsa_create None False False)\<lparr>h_pid_is_pmt := \<lambda>_. False, h_pid_is_scte35 := \<lambda>_. False\<rparr>"
  obtain k where k: "account_packet 5 ?p ?r ?h = Some k"
    by (simp add: account_packet_def Let_def section_pid_def)
  from pts_check_silent [OF k] k show ?thesis by blast
qed

end
