(* ===== verification/Spec2Isabelle.thy ===== *)
theory Spec2Isabelle
  imports Crc32 Ts_Packet Spsc_Concurrent Packet_Pool Tsa_Conf Tsa_Stream Tss_Shaper_Facts Tsa_Process
begin

text \<open>
  A verification library for the transport stream analyser TsAnalyzer.

  \<^bold>\<open>The program.\<close> The analyser receives an MPEG-2 transport stream as byte
  buffers (\<open>tsa_feed_data\<close>), cuts it into packets of 188 bytes and runs
  \<open>tsa_process_packet\<close> on each: it watches the sync bytes, advances the system
  time clock, decodes the packet header, keeps statistics per PID, passes
  sections to the PSI parser and calls the engines registered as plugins
  (TR 101 290 checks, PCR, essence with the T-STD buffer model, SCTE-35).
  Engines report through events and alerts. Around this core are rings between
  threads, a packet pool with reference counts, and vector routines for the
  search of sync bytes.

  \<^bold>\<open>How the code is modelled.\<close> The model is a shallow embedding. A C structure is
  a record with the fields the modelled operations use, an enumeration a
  datatype, an unsigned integer a word of its width, a signed integer an \<open>int\<close>
  with the range written out where it matters, an array indexed by PID a
  function of the PID. A C function is a function that returns the changed
  state; a pointer into a buffer is the list of bytes from there on. \<open>None\<close> is
  undefined behaviour: a read or a copy past the end of a buffer, a conversion
  out of range, a signed overflow, or a spin loop that no other thread ends.
  Memory that the code reads uninitialised is an argument. Floating-point
  numbers are rationals rounded after every operation to the precision of the
  type; NaN, infinities and subnormal numbers are not represented. Calls of
  the webhook and of Lua scripts are recorded in the handle in their order; log
  and terminal output is left out, and so are failing allocations.

  \<^bold>\<open>Theories\<close>, in the order of their imports.
  \<^item> \<open>Tsa_Prelude\<close>: word types, bit strings and bytes, lemmas on lists, options
    and words that the components share.
  \<^item> \<open>Bitstream\<close> (\<open>include/tsa_bitstream.h\<close>): the bit reader with its 64-bit
    cache, Exp-Golomb codes, extraction of the PCR. Every read is a read of the
    bit string of the buffer; code words are read back exactly; a PCR in
    nanoseconds never wraps.
  \<^item> \<open>Crc32\<close> (\<open>tsa_utils.c\<close>, \<open>tools/tsa_generator.c\<close>): bitwise and table-driven
    CRC agree, a section with its CRC checks to 0, every error burst of up to
    32 bits is found.
  \<^item> \<open>Ts_Packet\<close> (\<open>tsa.c\<close>, \<open>tsa_utils.c\<close>): packet header, PES header,
    continuity counter.
  \<^item> \<open>Fifo_Spec\<close>, \<open>Tsa_Rings\<close>, \<open>Spsc_Concurrent\<close>, \<open>Packet_Pool\<close>: the contract of
    a bounded queue as a locale, the rings of \<open>spsc_queue.c\<close>, \<open>tsa_utils.c\<close> and
    \<open>tsp.c\<close> as its interpretations, all interleavings of one producer and one
    consumer as a step relation, and the pool of \<open>tsa_packet_pool.c\<close> over the
    index queue of \<open>mpmc_queue.c\<close>.
  \<^item> \<open>Tsa_Float\<close>, \<open>Tsa_Histogram\<close>, \<open>Tsa_Pcr_Track\<close> (\<open>tsa_histogram.c\<close>,
    \<open>tsa_pcr_track.c\<close>): rounding, the window of bit rates, the clock recovery
    from the PCRs of one PID.
  \<^item> \<open>Tsa_Types\<close>, \<open>Tsa_Plugin\<close>, \<open>Tsa_State\<close> (\<open>include/tsa_internal.h\<close>, \<open>tsa_plugin.c\<close>,
    \<open>tsa_create\<close>): the data of the analyser, the slots of the engines, the handle.
  \<^item> \<open>Tsa_Alert\<close>, \<open>Tsa_Psi\<close>, \<open>Tsa_Event\<close>, \<open>Tsa_Core\<close> (\<open>tsa_alert.c\<close>, \<open>tsa_psi.c\<close>,
    \<open>tsa.c\<close>): the alert state machine with suppression and resolution, PAT and
    PMT, the event queue with its consumer in \<open>tsa_dashboard.c\<close>, time stamp
    recovery and the memory pool of the handle.
  \<^item> \<open>Nalu_Sniffer\<close>, \<open>Tsa_Es\<close> (\<open>nalu_sniffer.c\<close>, \<open>tsa_es.c\<close>): parameter sets and
    slices, the PES accumulator that refers to packets of the pool instead of
    copying them, its scan for NAL units, time stamps and entropy.
  \<^item> \<open>Tsa_Simd\<close> (\<open>tsa_simd.c\<close>, \<open>tsa_simd_sse42.c\<close>, \<open>tsa_simd_avx2.c\<close>): the dispatch
    table and its vector routines, equal to the scalar ones at every address.
  \<^item> \<open>Tsa_Engines\<close> (\<open>tsa_engine_*.c\<close>, \<open>tsa_scte35.c\<close>, \<open>tsa_audio_audit.c\<close>): the
    packet handlers of the engines.
  \<^item> \<open>Tsa_Process\<close> (\<open>tsa.c\<close>): \<open>tsa_process_packet\<close> with all of the above, and
    \<open>tsa_feed_data\<close>, which relies on a packet handler only through the locale
    \<open>packet_sink\<close>.
  \<^item> \<open>Tsa_Conf\<close> (\<open>tsa_conf_lexer.c\<close>, \<open>tsa_conf.c\<close>): lexer and parser of the
    configuration file. Whatever white space and comments a file has, its
    directives are read back.
  \<^item> \<open>Tsa_Stream\<close> (\<open>tsa_stream.c\<close>, \<open>tsa_pipeline.c\<close>, \<open>tsa_stream_model.c\<close>): the
    tree of stream nodes with PID subscriptions, the chain of stages and the
    table of programs. Joins and leaves reported to a node stay balanced, a
    packet reaches every node of a tree, and stages run in the order added.
  \<^item> \<open>Tss_Fifo\<close>, \<open>Tss_Shaper\<close>, \<open>Tss_Shaper_Facts\<close> (\<open>libtsshaper/src/core\<close>): the byte
    ring of the shaper library, its construction, token buckets, jump vote and
    input path. The ring is a bounded list of bytes; refills lose no fraction of
    a bit; a jump of the time line takes three votes; the queues hold received
    packets in order.

  \<^bold>\<open>Bounds.\<close> Loops whose end depends on the data are functions with a
  termination proof. Three take a number of rounds: the doubling loop of
  \<open>mpmc_queue_create\<close> (64 doublings of 1 give 0, where it ends), the scan for
  NAL units (one round per accumulated byte, shown to be enough), and the drain
  of access units (32 slots, shown to be enough). The walk along a chain of
  stages need not end and is a partial function, with its end shown for chains
  built from distinct stages.

  \<^bold>\<open>What the code does not do as intended.\<close> Some theorems state behaviour that
  the source does not intend: a copy past the synchronisation buffer while the
  stream is not locked, a read past a short PMT, a PTS check that cannot fire, a
  regression baseline that is not the oldest sample, a shaper whose public
  operations never start its time line.

  \<^bold>\<open>Not modelled.\<close> Programs and parts that are input and output around the core:
  the server and command line programs, sources and sockets, SRT, HLS download,
  the Lua binding, thumbnails, the Prometheus, JSON and terminal output, the
  webhook thread, logging, JWT checks with OpenSSL, file watching. The loudness
  measurement is a library, of which only the calls are modelled. The copy of
  Mongoose in the source tree is a third-party program. The output loop
  of the shaper library, with its scheduler and telemetry, is left out because
  no sequence of its public operations reaches it. The pacer's loop
  reads the clock and the socket queue at every step. The snapshots and the
  health score are formulas over the statistics for display, and the older clock
  modules are no longer called by the packet path.
\<close>

end
